(* ===== verification/Prelude.thy ===== *)
theory Prelude
  imports Main "HOL-Library.State_Monad"
begin

text \<open>
  Shared vocabulary of the development: the collections of facts the component proofs pass
  to the simplifier, the fault type for behaviour the C++ standard leaves undefined, and
  generic facts on lists that the string and buffer models need.
\<close>

section \<open>Collections of facts\<close>

named_theorems os_simps "evaluation of the operating system interface"
named_theorems text_simps "evaluation of the std::string operations"
named_theorems proc_simps "evaluation of the dispatcher handler"
named_theorems auth_simps "evaluation of the authentication manager handler"

section \<open>Faults\<close>

text \<open>
  A fault is a point where the C++ program has undefined behaviour. The models stop there
  with \<open>Inl\<close> of the fault, so that no theorem claims anything about what follows.
\<close>

datatype fault =
    Null_Deref        \<comment> \<open>a null pointer is dereferenced or called\<close>
  | Overread          \<comment> \<open>a C string is read past the end of its buffer\<close>
  | Buffer_Underflow  \<comment> \<open>a store before the beginning of a buffer\<close>
  | Use_After_Free    \<comment> \<open>an object is used after it was deleted\<close>
  | Double_Free       \<comment> \<open>an object is deleted twice\<close>
  | Assert_Failed     \<comment> \<open>an assertion of the source fails\<close>
  | Uninit_Read       \<comment> \<open>a value is read that was never written\<close>

abbreviation ret :: "'a \<Rightarrow> ('s, 'a) state" where
  "ret \<equiv> State_Monad.return"

section \<open>Lists\<close>

lemma takeWhile_append_stop [simp]:
  "\<lbrakk>\<forall>x \<in> set xs. P x; \<not> P y\<rbrakk> \<Longrightarrow> takeWhile P (xs @ y # ys) = xs"
  by (induction xs) auto

lemma takeWhile_replicate [simp]:
  "\<not> P y \<Longrightarrow> takeWhile P (replicate n y) = []"
  by (cases n) auto

lemma in_set_takeWhileI: "x \<in> set (takeWhile P xs) \<Longrightarrow> x \<in> set xs"
  by (induction xs) (auto split: if_splits)

lemma length_takeWhile_less_iff:
  "length (takeWhile P xs) < length xs \<longleftrightarrow> (\<exists>x \<in> set xs. \<not> P x)"
  by (induction xs) auto

lemma split_at_first:
  assumes "x \<in> set xs"
  obtains ys zs where "xs = ys @ x # zs" "x \<notin> set ys"
  using assms by (meson split_list_first)

end
