(* ===== verification/Containers.thy ===== *)
theory Containers
  imports Prelude
begin

text \<open>
  std::multimap as the program uses it: an association list sorted by key, in which insert
  places a pair after the pairs with an equal key (C++11) and find returns the first pair
  with the key. The locale states what a client of find and insert relies on; it is
  interpreted on these functions. std::map is a HOL map, std::set a HOL set.
\<close>

section \<open>The multimap\<close>

type_synonym ('k, 'v) multimap = "('k \<times> 'v) list"

definition mm_insert :: "'k::linorder \<Rightarrow> 'v \<Rightarrow> ('k, 'v) multimap \<Rightarrow> ('k, 'v) multimap" where
  "mm_insert k v m =
     takeWhile (\<lambda>p. fst p \<le> k) m @ (k, v) # dropWhile (\<lambda>p. fst p \<le> k) m"

definition mm_find :: "('k, 'v) multimap \<Rightarrow> 'k \<Rightarrow> 'v option" where
  "mm_find m k = map_of m k"

definition mm_sorted :: "('k::linorder, 'v) multimap \<Rightarrow> bool" where
  "mm_sorted m \<longleftrightarrow> sorted (map fst m)"

lemma mm_sorted_Nil [simp]: "mm_sorted []"
  by (simp add: mm_sorted_def)

lemma mm_find_Nil [simp]: "mm_find [] k = None"
  by (simp add: mm_find_def)

lemma set_mm_insert: "set (mm_insert k v m) = insert (k, v) (set m)"
proof -
  have "set m = set (takeWhile (\<lambda>p. fst p \<le> k) m) \<union> set (dropWhile (\<lambda>p. fst p \<le> k) m)"
    by (metis set_append takeWhile_dropWhile_id)
  then show ?thesis by (auto simp: mm_insert_def)
qed

lemma length_mm_insert: "length (mm_insert k v m) = Suc (length m)"
  by (simp add: mm_insert_def)
    (metis length_append takeWhile_dropWhile_id)

lemma mm_insert_Cons:
  "mm_insert k v (p # m) = (if fst p \<le> k then p # mm_insert k v m else (k, v) # p # m)"
  by (simp add: mm_insert_def)

lemma mm_insert_Nil [simp]: "mm_insert k v [] = [(k, v)]"
  by (simp add: mm_insert_def)

lemma mm_sorted_insert: "mm_sorted m \<Longrightarrow> mm_sorted (mm_insert k v m)"
proof (induction m)
  case (Cons p m)
  then show ?case
    by (auto simp: mm_insert_Cons mm_sorted_def set_mm_insert)
qed (simp add: mm_sorted_def)

lemma mm_find_insert_other: "k' \<noteq> k \<Longrightarrow> mm_find (mm_insert k v m) k' = mm_find m k'"
  by (induction m) (auto simp: mm_insert_Cons mm_find_def)

lemma mm_find_insert_new: "mm_find m k = None \<Longrightarrow> mm_find (mm_insert k v m) k = Some v"
  by (induction m) (auto simp: mm_insert_Cons mm_find_def split: if_splits)

lemma mm_find_insert_old: "mm_sorted m \<Longrightarrow> mm_find m k = Some w \<Longrightarrow>
    mm_find (mm_insert k v m) k = Some w"
  by (induction m) (auto simp: mm_insert_Cons mm_find_def mm_sorted_def split: if_splits
      dest!: map_of_SomeD)

section \<open>What a client relies on\<close>

locale part_store =
  fixes empty :: "'m"
    and insert_part :: "'k \<Rightarrow> 'v \<Rightarrow> 'm \<Rightarrow> 'm"
    and find_part :: "'m \<Rightarrow> 'k \<Rightarrow> 'v option"
    and invar :: "'m \<Rightarrow> bool"
  assumes invar_empty: "invar empty"
    and invar_insert: "invar m \<Longrightarrow> invar (insert_part k v m)"
    and find_empty: "find_part empty k = None"
    and find_other: "k' \<noteq> k \<Longrightarrow> find_part (insert_part k v m) k' = find_part m k'"
    and find_new: "find_part m k = None \<Longrightarrow> find_part (insert_part k v m) k = Some v"
    and find_old: "invar m \<Longrightarrow> find_part m k = Some w \<Longrightarrow>
      find_part (insert_part k v m) k = Some w"
begin

text \<open>Storing a list of parts with different keys, then looking one of them up.\<close>

lemma find_insert: "invar m \<Longrightarrow> find_part (insert_part k v m) k' =
    (if k' = k then Some (case find_part m k of None \<Rightarrow> v | Some w \<Rightarrow> w) else find_part m k')"
  by (auto simp: find_other find_new find_old split: option.splits)

lemma invar_fold: "invar m \<Longrightarrow> invar (fold (\<lambda>(k, v). insert_part k v) ps m)"
  by (induction ps arbitrary: m) (auto simp: invar_insert)

lemma find_fold_other:
  "k \<notin> fst ` set ps \<Longrightarrow> find_part (fold (\<lambda>(k, v). insert_part k v) ps m) k = find_part m k"
  by (induction ps arbitrary: m) (auto simp: find_other)

lemma find_keep: "invar m \<Longrightarrow> find_part m k = Some w \<Longrightarrow>
    find_part (insert_part k' v m) k = Some w"
  by (cases "k = k'") (simp_all add: find_old find_other)

lemma find_fold_keep: "invar m \<Longrightarrow> find_part m k = Some w \<Longrightarrow>
    find_part (fold (\<lambda>(k, v). insert_part k v) ps m) k = Some w"
  by (induction ps arbitrary: m) (auto simp: find_keep invar_insert)

lemma find_fold: "\<lbrakk>distinct (map fst ps); (k, v) \<in> set ps\<rbrakk> \<Longrightarrow>
    find_part (fold (\<lambda>(k, v). insert_part k v) ps empty) k = Some v"
proof -
  have "\<lbrakk>distinct (map fst ps); (k, v) \<in> set ps; invar m; find_part m k = None\<rbrakk> \<Longrightarrow>
      find_part (fold (\<lambda>(k, v). insert_part k v) ps m) k = Some v" for m
  proof (induction ps arbitrary: m)
    case (Cons p ps)
    show ?case
    proof (cases "p = (k, v)")
      case True
      with Cons.prems have "find_part (insert_part k v m) k = Some v"
        by (simp add: find_new)
      with True Cons.prems show ?thesis
        by (simp add: find_fold_keep invar_insert)
    next
      case False
      with Cons.prems have "fst p \<noteq> k" "(k, v) \<in> set ps"
        by (auto simp: rev_image_eqI)
      with Cons show ?thesis
        by (cases p) (auto simp: find_other invar_insert)
    qed
  qed simp
  then show "\<lbrakk>distinct (map fst ps); (k, v) \<in> set ps\<rbrakk> \<Longrightarrow>
    find_part (fold (\<lambda>(k, v). insert_part k v) ps empty) k = Some v"
    by (simp add: invar_empty find_empty)
qed

end

interpretation mm: part_store "[]" mm_insert mm_find mm_sorted
  by unfold_locales
    (simp_all add: mm_sorted_insert mm_find_insert_other mm_find_insert_new mm_find_insert_old)

end
