(* ===== verification/Cpp_String.thy ===== *)
theory Cpp_String
  imports Prelude
begin

text \<open>
  The part of std::string and of the C string functions the program uses, as functions on
  \<open>string\<close>: one \<open>char\<close> is one byte. A position is a \<open>nat\<close>, \<open>npos\<close> is the largest value
  of the 64-bit size_type, and decrementing 0 wraps to it. A C++ string never reaches
  length \<open>npos\<close> (it exceeds max_size), which facts about long strings state as
  \<open>size_ok\<close>.
\<close>

section \<open>Characters\<close>

definition NUL :: char where "NUL = CHR 0x00"
definition LF :: char where "LF = CHR 0x0A"
definition CR :: char where "CR = CHR 0x0D"
definition SPACE :: char where "SPACE = CHR 0x20"
definition DQUOTE :: char where "DQUOTE = CHR 0x22"
definition CTRL_C :: char where "CTRL_C = CHR 0x03"
definition CTRL_Z :: char where "CTRL_Z = CHR 0x1A"

lemmas char_defs = NUL_def LF_def CR_def SPACE_def DQUOTE_def CTRL_C_def CTRL_Z_def

lemma char_distinct [simp]:
  "LF \<noteq> NUL" "CR \<noteq> NUL" "SPACE \<noteq> NUL" "LF \<noteq> SPACE" "CR \<noteq> SPACE" "LF \<noteq> CR" "CR \<noteq> LF"
  "NUL \<noteq> LF" "NUL \<noteq> CR" "NUL \<noteq> SPACE" "SPACE \<noteq> LF" "SPACE \<noteq> CR"
  "CTRL_C \<noteq> LF" "CTRL_C \<noteq> CR" "CTRL_C \<noteq> SPACE" "CTRL_C \<noteq> NUL"
  "CTRL_Z \<noteq> LF" "CTRL_Z \<noteq> CR" "CTRL_Z \<noteq> SPACE" "CTRL_Z \<noteq> NUL"
  by (simp_all add: char_defs)

text \<open>tolower and toupper of the C locale: only the 26 ASCII letters change.\<close>

definition tolower :: "char \<Rightarrow> char" where
  "tolower c = (let n = of_char c :: nat in if 65 \<le> n \<and> n \<le> 90 then char_of (n + 32) else c)"

definition toupper :: "char \<Rightarrow> char" where
  "toupper c = (let n = of_char c :: nat in if 97 \<le> n \<and> n \<le> 122 then char_of (n - 32) else c)"

lemma of_char_less_256: "(of_char c :: nat) < 256"
  by simp

lemma of_char_tolower:
  "(of_char (tolower c) :: nat) =
     (if 65 \<le> (of_char c :: nat) \<and> (of_char c :: nat) \<le> 90 then of_char c + 32 else of_char c)"
  by (simp add: tolower_def Let_def)

lemma of_char_toupper:
  "(of_char (toupper c) :: nat) =
     (if 97 \<le> (of_char c :: nat) \<and> (of_char c :: nat) \<le> 122 then of_char c - 32 else of_char c)"
proof -
  have "(of_char c - 32) mod 256 = (of_char c - 32 :: nat)"
    by (rule mod_less) (use of_char_less_256 [of c] in linarith)
  then show ?thesis by (simp add: toupper_def Let_def)
qed

section \<open>Positions\<close>

definition npos :: nat where "npos = 2 ^ 64 - 1"

definition dec_pos :: "nat \<Rightarrow> nat" where
  \<comment> \<open>\<open>--idx\<close> on a size_type\<close>
  "dec_pos i = (if i = 0 then npos else i - 1)"

definition size_ok :: "string \<Rightarrow> bool" where
  "size_ok s \<longleftrightarrow> length s < npos"

lemma dec_pos_simps [simp]: "dec_pos 0 = npos" "dec_pos (Suc i) = i"
  by (simp_all add: dec_pos_def)

lemma size_ok_appendD: "size_ok (xs @ ys) \<Longrightarrow> size_ok xs" "size_ok (xs @ ys) \<Longrightarrow> size_ok ys"
  by (simp_all add: size_ok_def)

section \<open>Searching\<close>

fun search :: "string \<Rightarrow> string \<Rightarrow> nat option" where
  "search p [] = (if p = [] then Some 0 else None)"
| "search p (c # s) =
     (if take (length p) (c # s) = p then Some 0 else map_option Suc (search p s))"

fun first_index :: "(char \<Rightarrow> bool) \<Rightarrow> string \<Rightarrow> nat option" where
  "first_index P [] = None"
| "first_index P (c # s) = (if P c then Some 0 else map_option Suc (first_index P s))"

fun last_index :: "(char \<Rightarrow> bool) \<Rightarrow> string \<Rightarrow> nat option" where
  "last_index P [] = None"
| "last_index P (c # s) =
     (case last_index P s of Some i \<Rightarrow> Some (Suc i) | None \<Rightarrow> if P c then Some 0 else None)"

definition pos_of :: "nat option \<Rightarrow> nat" where
  "pos_of r = (case r of None \<Rightarrow> npos | Some i \<Rightarrow> i)"

definition str_find :: "string \<Rightarrow> string \<Rightarrow> nat" where
  "str_find s p = pos_of (search p s)"

definition find_first_of :: "string \<Rightarrow> string \<Rightarrow> nat" where
  "find_first_of s cs = pos_of (first_index (\<lambda>c. c \<in> set cs) s)"

definition find_last_of :: "string \<Rightarrow> string \<Rightarrow> nat" where
  "find_last_of s cs = pos_of (last_index (\<lambda>c. c \<in> set cs) s)"

lemma pos_of_simps [simp]: "pos_of None = npos" "pos_of (Some i) = i"
  by (simp_all add: pos_of_def)

lemma search_single: "search [x] s = first_index (\<lambda>c. c = x) s"
  by (induction s) auto

lemma first_index_None: "first_index P s = None \<longleftrightarrow> (\<forall>c \<in> set s. \<not> P c)"
  by (induction s) auto

lemma first_index_append [simp]:
  "\<lbrakk>\<forall>c \<in> set a. \<not> P c; P x\<rbrakk> \<Longrightarrow> first_index P (a @ x # b) = Some (length a)"
  by (induction a) auto

lemma first_index_Some: "first_index P s = Some i \<Longrightarrow>
    i < length s \<and> P (s ! i) \<and> (\<forall>c \<in> set (take i s). \<not> P c)"
  by (induction s arbitrary: i) (auto split: if_splits)

lemma last_index_None: "last_index P s = None \<longleftrightarrow> (\<forall>c \<in> set s. \<not> P c)"
  by (induction s) (auto split: option.splits)

lemma last_index_append:
  "\<lbrakk>P x; \<forall>c \<in> set b. \<not> P c\<rbrakk> \<Longrightarrow> last_index P (a @ x # b) = Some (length a)"
proof (induction a)
  case Nil
  then have "last_index P b = None" by (simp add: last_index_None)
  with Nil show ?case by simp
next
  case (Cons c a)
  then show ?case by simp
qed

lemma last_index_snoc [simp]: "P x \<Longrightarrow> last_index P (a @ [x]) = Some (length a)"
  by (simp add: last_index_append)

lemma last_index_less: "last_index P s = Some i \<Longrightarrow> i < length s"
  by (induction s arbitrary: i) (auto split: option.splits if_splits)

lemma str_find_char: "size_ok s \<Longrightarrow> str_find s [x] = npos \<longleftrightarrow> x \<notin> set s"
proof (cases "first_index (\<lambda>c. c = x) s")
  case (Some i)
  then have "i < length s" "s ! i = x" by (auto dest: first_index_Some)
  moreover assume "size_ok s"
  ultimately show ?thesis
    using Some nth_mem [of i s] by (simp add: str_find_def search_single size_ok_def)
next
  case None
  then have "x \<notin> set s" by (auto simp: first_index_None)
  with None show ?thesis by (simp add: str_find_def search_single)
qed

section \<open>Substrings\<close>

text \<open>
  \<open>substr s pos n\<close> for \<open>pos \<le> size()\<close>. Beyond the end std::string throws out_of_range;
  every use in the program passes 0 or a position just after a match, both in range.
\<close>

definition substr :: "string \<Rightarrow> nat \<Rightarrow> nat \<Rightarrow> string" where
  "substr s pos n = take n (drop pos s)"

definition substr_from :: "string \<Rightarrow> nat \<Rightarrow> string" where
  "substr_from s pos = drop pos s"

definition erase1 :: "string \<Rightarrow> nat \<Rightarrow> string" where
  \<comment> \<open>\<open>s.erase(i, 1)\<close> and \<open>s.replace(i, 1, "")\<close>\<close>
  "erase1 s i = take i s @ drop (Suc i) s"

lemma length_substr_le: "length (substr s pos n) \<le> length s"
  by (simp add: substr_def)

lemma length_erase1: "i < length s \<Longrightarrow> length (erase1 s i) = length s - 1"
  by (simp add: erase1_def)

section \<open>C strings\<close>

definition c_str :: "string \<Rightarrow> string" where
  \<comment> \<open>what a reader of a C string sees: the bytes before the first NUL\<close>
  "c_str s = takeWhile (\<lambda>c. c \<noteq> NUL) s"

definition strchr :: "string \<Rightarrow> char \<Rightarrow> bool" where
  \<comment> \<open>\<open>strchr(cs, c) != NULL\<close>: the terminating NUL counts as part of the string\<close>
  "strchr cs c \<longleftrightarrow> c \<in> set (c_str cs) \<or> c = NUL"

definition no_nul :: "string \<Rightarrow> bool" where
  "no_nul s \<longleftrightarrow> NUL \<notin> set s"

lemma c_str_no_nul [simp]: "no_nul s \<Longrightarrow> c_str s = s"
  by (auto simp: c_str_def no_nul_def takeWhile_eq_all_conv)

lemma c_str_idem [simp]: "c_str (c_str s) = c_str s"
  by (rule c_str_no_nul) (auto simp: no_nul_def c_str_def dest: set_takeWhileD)

lemma c_str_append_nul [simp]: "no_nul s \<Longrightarrow> c_str (s @ NUL # t) = s"
  unfolding c_str_def no_nul_def by (rule takeWhile_append_stop) auto

section \<open>Numbers as text\<close>

fun decimal :: "nat \<Rightarrow> string" where
  "decimal n = (if n < 10 then [char_of (48 + n)] else decimal (n div 10) @ [char_of (48 + n mod 10)])"

declare decimal.simps [simp del]

definition decimal_int :: "int \<Rightarrow> string" where
  \<comment> \<open>\<open>%ld\<close>\<close>
  "decimal_int i = (if i < 0 then ''-'' @ decimal (nat (- i)) else decimal (nat i))"

definition crlf :: string where "crlf = [CR, LF]"

lemmas str_eval = char_defs npos_def dec_pos_def str_find_def find_first_of_def find_last_of_def
  pos_of_def substr_def substr_from_def erase1_def c_str_def strchr_def crlf_def

end
