(* ===== verification/Proc_Types.thy ===== *)
theory Proc_Types
  imports Containers Cpp_String "HOL-Library.Word"
begin

text \<open>
  The constants, enumerations and data of the dispatcher protocol
  (include/proc_ace_acceptor.h): enum classes are datatypes with the source's constructors
  in the source's order, the classes' attributes are records.
\<close>

section \<open>Constants\<close>

definition max_client_timeout :: int where "max_client_timeout = 1800"  \<comment> \<open>seconds\<close>
definition timer_id :: "16 word" where "timer_id = 0"
definition cmd_buffer_len :: nat where "cmd_buffer_len = 65536"
definition constCommandBufferLength :: nat where "constCommandBufferLength = 1024"
definition constMaxTokenLength :: nat where "constMaxTokenLength = 10"

text \<open>BUFSIZ of the C library (glibc), the size of the buffer \<open>proc_handler::svc\<close> reads into.\<close>

definition BUFSIZ :: nat where "BUFSIZ = 8192"

text \<open>An ACE_Time_Value is its number of microseconds.\<close>

definition time_value :: "int \<Rightarrow> int" where "time_value sec = sec * 1000000"

definition tv_sec :: "int \<Rightarrow> int" where "tv_sec t = t div 1000000"

lemma tv_sec_time_value [simp]: "tv_sec (time_value s) = s"
  by (simp add: tv_sec_def time_value_def)

section \<open>Enumerations\<close>

datatype concurrency_t = single_threaded | thread_per_connection | thread_pool

datatype proc_command =
    proc_login | proc_logout | proc_authenticate | proc_register | proc_unregiser
  | proc_no_command | proc_error

datatype proc_packet_error =
    peNoToken | peTokenTooLong | peNoCommand | peCommandTooLong
  | peParametersExpectedGotNone | peNoParametersExpectedGotSome
  | peTooManyParameters | peTooFewParameters | peInvalidPayload | peInvalidSyntax
  | peUnrecognizedCommand | peSelectState | peFailure | peInvalidObject | peInvalidState
  | peInvalidSpecification | peNoSpecification | peAttributeNotSupported
  | peNotAuthenticated | peAlreadyAuthenticated | peNotEnoughPrivileges | peNoPacketError

datatype proc_set_param = ospPrompt

datatype proc_packet_part = ppToken | ppCommand | ppPayload | ppUid

datatype proc_state =
    oesNonAuthenticated | oesConnected | oesAuthenticated | oesSelected | oesAdmin
  | oesWait | oesLogout

datatype proc_set_op = osopAdd | osopDelete | osopClear

text \<open>The parts of a packet are the keys of a multimap, ordered by their enumerator value.\<close>

primrec part_value :: "proc_packet_part \<Rightarrow> nat" where
  "part_value ppToken = 0"
| "part_value ppCommand = 1"
| "part_value ppPayload = 2"
| "part_value ppUid = 3"

instantiation proc_packet_part :: linorder
begin

definition "a \<le> b \<longleftrightarrow> part_value a \<le> part_value b"

definition "a < b \<longleftrightarrow> part_value a < part_value b"

instance
proof
  fix a b c :: proc_packet_part
  show "a < b \<longleftrightarrow> a \<le> b \<and> \<not> b \<le> a"
    by (auto simp: less_eq_proc_packet_part_def less_proc_packet_part_def)
  show "a \<le> a" by (simp add: less_eq_proc_packet_part_def)
  show "a \<le> b \<Longrightarrow> b \<le> c \<Longrightarrow> a \<le> c" by (simp add: less_eq_proc_packet_part_def)
  show "a \<le> b \<Longrightarrow> b \<le> a \<Longrightarrow> a = b"
    by (cases a; cases b) (simp_all add: less_eq_proc_packet_part_def)
  show "a \<le> b \<or> b \<le> a" by (auto simp: less_eq_proc_packet_part_def)
qed

end

type_synonym map_of_parts = "(proc_packet_part, string) multimap"

section \<open>Instance data of the service\<close>

record proc_protocol_data =
  m_strNameTag :: string
  m_strDefaultHost :: string
  m_strDocumentPath :: string
  m_dwPort :: "64 word"
  m_dwThreads :: "64 word"
  m_strDn :: string

definition new_proc_protocol_data :: "string \<Rightarrow> proc_protocol_data" where
  "new_proc_protocol_data nametag =
     \<lparr>m_strNameTag = nametag, m_strDefaultHost = [], m_strDocumentPath = [],
      m_dwPort = 8000, m_dwThreads = 125, m_strDn = []\<rparr>"

section \<open>What a handler does to the objects it does not own\<close>

text \<open>
  Socket, reactor and thread pool are ACE objects. Each call a handler makes on them is
  recorded, in order, in the field \<open>ops\<close>.
\<close>

datatype peer_op =
    Send_n string                  \<comment> \<open>\<open>peer().send_n\<close> of these bytes\<close>
  | Send string                    \<comment> \<open>\<open>peer().send\<close>\<close>
  | Peer_Close
  | Register_Handler               \<comment> \<open>\<open>register_handler(this, READ_MASK)\<close>\<close>
  | Remove_Handler bool            \<comment> \<open>\<open>remove_handler\<close>, True with DONT_CALL\<close>
  | Schedule_Timer "64 word" int int  \<comment> \<open>act (an address), delay, interval\<close>
  | Set_Reactor                    \<comment> \<open>\<open>reactor(acceptor()->reactor())\<close>\<close>
  | Activate_Detached
  | Pool_Enqueue
  | Log_Line string                \<comment> \<open>a line on standard output\<close>
  | Delete_This

text \<open>The bytes the client has been sent, one entry per \<open>send_n\<close>.\<close>

fun replies :: "peer_op list \<Rightarrow> string list" where
  "replies [] = []"
| "replies (Send_n s # os) = s # replies os"
| "replies (_ # os) = replies os"

lemma replies_append [simp]: "replies (xs @ ys) = replies xs @ replies ys"
  by (induction xs rule: replies.induct) auto

section \<open>The connection handler\<close>

text \<open>
  The functions a command name maps to; a map entry may be a null pointer (\<open>None\<close>).
\<close>

datatype command_fn = On_login

record proc_handler =
  m_proc_acceptor :: "concurrency_t option"  \<comment> \<open>None: nullptr; else the acceptor's strategy\<close>
  m_command_map :: "string \<rightharpoonup> command_fn option"
  m_ostr :: string
  m_strComputerName :: string
  m_strToken :: string
  m_strCommand :: string
  m_current_command :: proc_command
  m_proc_packet_error :: proc_packet_error
  m_dwTimerToken :: int
  m_maximumTimeToWait :: int
  m_set_map :: "proc_set_param \<rightharpoonup> bool"
  m_bSilent :: bool
  m_lastActivityTime :: int
  m_currentState :: "proc_state set"
  creator :: nat
  ops :: "peer_op list"
  deleted :: bool

definition log_op :: "peer_op \<Rightarrow> proc_handler \<Rightarrow> proc_handler" where
  "log_op x h = h\<lparr>ops := ops h @ [x]\<rparr>"

lemma log_op_simps [simp]:
  "ops (log_op x h) = ops h @ [x]"
  "m_proc_acceptor (log_op x h) = m_proc_acceptor h"
  "m_command_map (log_op x h) = m_command_map h"
  "m_ostr (log_op x h) = m_ostr h"
  "m_strToken (log_op x h) = m_strToken h"
  "m_strCommand (log_op x h) = m_strCommand h"
  "m_strComputerName (log_op x h) = m_strComputerName h"
  "m_current_command (log_op x h) = m_current_command h"
  "m_proc_packet_error (log_op x h) = m_proc_packet_error h"
  "m_maximumTimeToWait (log_op x h) = m_maximumTimeToWait h"
  "m_bSilent (log_op x h) = m_bSilent h"
  "m_lastActivityTime (log_op x h) = m_lastActivityTime h"
  "m_currentState (log_op x h) = m_currentState h"
  "creator (log_op x h) = creator h"
  "deleted (log_op x h) = deleted h"
  by (simp_all add: log_op_def)

end
