(* ===== verification/Text_Utils.thy ===== *)
theory Text_Utils
  imports Cpp_String
begin

text \<open>
  The static string helpers of \<open>proc_handler\<close> (cci_daemon/src/procs/proc_ace_handler.cpp),
  which parse_command uses to cut the line terminator off a request. The functions the
  source gives a \<open>string&\<close> return the new value of it.
\<close>

section \<open>The helpers\<close>

definition chomp :: "string \<Rightarrow> string \<Rightarrow> string" where
  "chomp str tok =
     (if str = [] then str
      else let idx = str_find str tok
           in if idx \<noteq> npos then substr str 0 (dec_pos idx) else str)"

definition gnaw :: "string \<Rightarrow> string \<Rightarrow> string" where
  "gnaw str tok = (let st = str_find str tok in if st \<noteq> npos then take st str else str)"

definition rtrimlast :: "string \<Rightarrow> string \<Rightarrow> string" where
  "rtrimlast str tok =
     (if str = [] then str
      else let idx = find_last_of str (c_str tok)
           in if idx \<noteq> length str - 1 then str
              else if idx \<noteq> npos then substr str 0 (dec_pos idx) else str)"

text \<open>
  The loop of ltrim reads \<open>s[0]\<close>, which is NUL for the empty string; strchr finds the
  terminator, so the empty string enters the body once and returns there.
\<close>

definition at_zero :: "string \<Rightarrow> char" where
  "at_zero s = (case s of [] \<Rightarrow> NUL | c # _ \<Rightarrow> c)"

function ltrim :: "string \<Rightarrow> string \<Rightarrow> string" where
  "ltrim s cs =
     (if strchr cs (at_zero s)
      then if length s < 1 then [] else ltrim (erase1 s 0) cs
      else s)"
  by pat_completeness auto
termination
  by (relation "measure (\<lambda>(s, cs). length s)") (auto simp: length_erase1)

declare ltrim.simps [simp del]

function rtrim_loop :: "string \<Rightarrow> string \<Rightarrow> string" where
  \<comment> \<open>the while loop of rtrim, entered with \<open>nLastPos = length() - 1 > 0\<close>\<close>
  "rtrim_loop s cs =
     (if length s \<le> 1 then []
      else if strchr cs (s ! (length s - 1)) then rtrim_loop (erase1 s (length s - 1)) cs
      else s)"
  by pat_completeness auto
termination
  by (relation "measure (\<lambda>(s, cs). length s)") (auto simp: length_erase1)

declare rtrim_loop.simps [simp del]

definition rtrim :: "string \<Rightarrow> string \<Rightarrow> string" where
  "rtrim s cs =
     (let nLastPos = int (length s) - 1
      in if nLastPos \<le> 0 then [] else rtrim_loop s cs)"

primrec lcase :: "string \<Rightarrow> string" where
  "lcase [] = []"
| "lcase (c # s) = tolower c # lcase s"

primrec ucase :: "string \<Rightarrow> string" where
  "ucase [] = []"
| "ucase (c # s) = toupper c # ucase s"

definition extract_quoted_string :: "string \<Rightarrow> string" where
  "extract_quoted_string str =
     (if str = [] then str
      else let idx = find_first_of str [DQUOTE]
           in if idx \<noteq> npos
              then let s = erase1 str idx; idx' = find_last_of s [DQUOTE]
                   in if idx' \<noteq> npos then erase1 s idx' else s
              else str)"

section \<open>Cutting the line terminator\<close>

text \<open>
  chomp keeps the text before the character that precedes the token: for a line that ends
  in CR LF this is the text before the terminator, for any other line one byte of text is
  lost with it.
\<close>

lemma chomp_no_token: "tok \<noteq> [] \<Longrightarrow> search tok s = None \<Longrightarrow> chomp s tok = s"
  by (simp add: chomp_def str_find_def)

lemma chomp_LF_cases:
  assumes "size_ok s"
  shows "chomp s [LF] =
    (case first_index (\<lambda>c. c = LF) s of
       None \<Rightarrow> s | Some 0 \<Rightarrow> s | Some (Suc i) \<Rightarrow> take i s)"
proof (cases "first_index (\<lambda>c. c = LF) s")
  case None
  then show ?thesis
    by (simp add: chomp_def str_find_def search_single)
next
  case (Some k)
  then have "k < length s" by (auto dest: first_index_Some)
  with assms Some show ?thesis
    by (cases k) (auto simp: chomp_def str_find_def search_single substr_def size_ok_def)
qed

lemma chomp_before_LF:
  assumes "size_ok (a @ x # LF # b)" "LF \<notin> set a" "x \<noteq> LF"
  shows "chomp (a @ x # LF # b) [LF] = a"
proof -
  have "first_index (\<lambda>c. c = LF) ((a @ [x]) @ LF # b) = Some (length (a @ [x]))"
    using assms by (intro first_index_append) auto
  with assms show ?thesis by (simp add: chomp_LF_cases)
qed

lemma rtrimlast_LF:
  assumes "size_ok (a @ [x, LF])"
  shows "rtrimlast (a @ [x, LF]) [LF] = a"
proof -
  have "last_index (\<lambda>c. c = LF) ((a @ [x]) @ [LF]) = Some (length (a @ [x]))"
    by (rule last_index_snoc) simp
  with assms show ?thesis
    by (simp add: rtrimlast_def find_last_of_def c_str_def substr_def size_ok_def)
qed

lemma rtrimlast_not_last:
  assumes "s \<noteq> []" "last s \<noteq> LF" "size_ok s"
  shows "rtrimlast s [LF] = s"
proof -
  have "find_last_of s [LF] \<noteq> length s - 1"
  proof (cases "last_index (\<lambda>c. c = LF) s")
    case None
    with assms show ?thesis
      by (simp add: find_last_of_def size_ok_def npos_def)
  next
    case (Some i)
    have "s ! i = LF"
      using Some by (induction s arbitrary: i) (auto split: option.splits if_splits)
    moreover have "s ! (length s - 1) \<noteq> LF"
      using assms by (simp add: last_conv_nth)
    ultimately show ?thesis using Some by (auto simp: find_last_of_def)
  qed
  then show ?thesis by (simp add: rtrimlast_def c_str_def)
qed

lemma length_chomp: "length (chomp s tok) \<le> length s"
  by (simp add: chomp_def Let_def length_substr_le)

lemma length_rtrimlast: "length (rtrimlast s tok) \<le> length s"
  by (simp add: rtrimlast_def Let_def length_substr_le)

section \<open>Trimming\<close>

lemma ltrim_Nil [simp]: "ltrim [] cs = []"
  by (simp add: ltrim.simps at_zero_def strchr_def)

lemma ltrim_Cons: "ltrim (c # s) cs = (if strchr cs c then ltrim s cs else c # s)"
  by (subst ltrim.simps) (simp add: at_zero_def erase1_def)

text \<open>ltrim removes the longest prefix of trim characters, a NUL byte counting as one.\<close>

lemma ltrim_dropWhile: "ltrim s cs = dropWhile (strchr cs) s"
  by (induction s) (simp_all add: ltrim_Cons)

lemma rtrim_loop_short [simp]: "length s \<le> 1 \<Longrightarrow> rtrim_loop s cs = []"
  by (simp add: rtrim_loop.simps)

lemma rtrim_loop_snoc:
  "s \<noteq> [] \<Longrightarrow> rtrim_loop (s @ [c]) cs = (if strchr cs c then rtrim_loop s cs else s @ [c])"
  by (subst rtrim_loop.simps) (auto simp: erase1_def nth_append Suc_le_eq)

text \<open>
  rtrim removes the longest suffix of trim characters, except that what is left is
  dropped altogether when it is a single character.
\<close>

lemma rtrim_loop_eq:
  "rtrim_loop s cs =
     (let r = rev (dropWhile (strchr cs) (rev s)) in if length r \<le> 1 then [] else r)"
proof (induction s rule: rev_induct)
  case Nil
  then show ?case by simp
next
  case (snoc c s)
  then show ?case
    by (cases "s = []") (simp_all add: rtrim_loop_snoc Let_def Suc_le_eq)
qed

lemma rtrim_eq:
  "rtrim s cs =
     (let r = rev (dropWhile (strchr cs) (rev s)) in if length r \<le> 1 then [] else r)"
proof (cases "length s \<le> 1")
  case True
  then have "length (dropWhile (strchr cs) (rev s)) \<le> 1"
    using length_dropWhile_le [of "strchr cs" "rev s"] by simp
  with True show ?thesis by (simp add: rtrim_def)
next
  case False
  then show ?thesis by (simp add: rtrim_def rtrim_loop_eq)
qed

section \<open>Case folding\<close>

text \<open>
  Both case functions map an idempotent character function over the string; the locale
  holds what follows from that.
\<close>

locale case_folding =
  fixes fold_char :: "char \<Rightarrow> char" and fold_str :: "string \<Rightarrow> string"
  assumes fold_idem: "fold_char (fold_char c) = fold_char c"
    and fold_Nil: "fold_str [] = []"
    and fold_Cons: "fold_str (c # s) = fold_char c # fold_str s"
begin

lemma is_map: "fold_str s = map fold_char s"
  by (induction s) (simp_all add: fold_Nil fold_Cons)

lemma len: "length (fold_str s) = length s"
  by (simp add: is_map)

lemma idem: "fold_str (fold_str s) = fold_str s"
  by (simp add: is_map fold_idem comp_def)

lemma app: "fold_str (s @ t) = fold_str s @ fold_str t"
  by (simp add: is_map)

lemma same_iff: "fold_str s = fold_str t \<longleftrightarrow>
    length s = length t \<and> (\<forall>i < length s. fold_char (s ! i) = fold_char (t ! i))"
  by (auto simp: is_map list_eq_iff_nth_eq)

end

lemma tolower_idem: "tolower (tolower c) = tolower c"
  by (auto simp: of_char_eq_iff [where 'a = nat, symmetric] of_char_tolower
      simp del: of_char_eq_iff)

lemma toupper_idem: "toupper (toupper c) = toupper c"
  by (auto simp: of_char_eq_iff [where 'a = nat, symmetric] of_char_toupper
      simp del: of_char_eq_iff)

interpretation lower: case_folding tolower lcase
  by unfold_locales (simp_all add: tolower_idem)

interpretation upper: case_folding toupper ucase
  by unfold_locales (simp_all add: toupper_idem)

lemma tolower_toupper: "tolower (toupper c) = tolower c"
  by (auto simp: of_char_eq_iff [where 'a = nat, symmetric] of_char_toupper of_char_tolower
      simp del: of_char_eq_iff)

lemma lcase_ucase: "lcase (ucase s) = lcase s"
  by (simp add: lower.is_map upper.is_map tolower_toupper comp_def)

section \<open>Quoted strings\<close>

lemma extract_quoted:
  assumes "DQUOTE \<notin> set a" "DQUOTE \<notin> set b" "size_ok (a @ [DQUOTE] @ m @ [DQUOTE] @ b)"
  shows "extract_quoted_string (a @ [DQUOTE] @ m @ [DQUOTE] @ b) = a @ m @ b"
proof -
  have 1: "first_index (\<lambda>c. c = DQUOTE) (a @ DQUOTE # m @ DQUOTE # b) = Some (length a)"
    using assms by (intro first_index_append) auto
  have 2: "last_index (\<lambda>c. c = DQUOTE) ((a @ m) @ DQUOTE # b) = Some (length (a @ m))"
    using assms by (intro last_index_append) auto
  show ?thesis
    using 1 2 assms(3)
    by (simp add: extract_quoted_string_def find_first_of_def find_last_of_def erase1_def
        size_ok_def)
qed

end
