(* ===== verification/Proc_Handler.thy ===== *)
theory Proc_Handler
  imports Proc_Types Text_Utils
begin

text \<open>
  The request side of \<open>proc_handler\<close> (cci_daemon/src/procs/proc_ace_handler.cpp):
  construction, output, the packet parser, command dispatch, the login command and
  \<open>process\<close>, which reads one request from the peer and answers it. A member function is a
  function from the handler to the handler it leaves. What the successive \<open>recv\<close> calls of
  one \<open>process\<close> deliver is its argument: a list of byte strings, each the data of one call;
  an empty one, and the call after the last of them, stand for a return of 0 or -1 (end of
  file, timeout or error).
\<close>

section \<open>Construction\<close>

definition new_proc_handler :: "string \<Rightarrow> nat \<Rightarrow> int \<Rightarrow> proc_handler" where
  \<comment> \<open>\<open>hostname\<close>: the buffer gethostname filled; \<open>self\<close>: the constructing thread\<close>
  "new_proc_handler hostname self max_inactivity =
     \<lparr>m_proc_acceptor = None, m_command_map = Map.empty, m_ostr = [],
      m_strComputerName = c_str hostname, m_strToken = [], m_strCommand = [],
      m_current_command = proc_no_command, m_proc_packet_error = peNoPacketError,
      m_dwTimerToken = 0, m_maximumTimeToWait = max_inactivity,
      m_set_map = [ospPrompt \<mapsto> True], m_bSilent = False, m_lastActivityTime = 0,
      m_currentState = {oesNonAuthenticated}, creator = self, ops = [], deleted = False\<rparr>"

definition map_commands :: "proc_handler \<Rightarrow> proc_handler" where
  \<comment> \<open>\<open>std::map::insert\<close> leaves an existing entry\<close>
  "map_commands h =
     (case m_command_map h ''login'' of
        Some _ \<Rightarrow> h
      | None \<Rightarrow> h\<lparr>m_command_map := (m_command_map h)(''login'' \<mapsto> Some On_login)\<rparr>)"

section \<open>Output\<close>

definition stream :: "string \<Rightarrow> proc_handler \<Rightarrow> proc_handler" where
  \<comment> \<open>\<open>stream() << s\<close>, also \<open>stream_out( s )\<close>\<close>
  "stream s h = h\<lparr>m_ostr := m_ostr h @ s\<rparr>"

definition stream_out_len :: "string \<Rightarrow> nat \<Rightarrow> proc_handler \<Rightarrow> proc_handler" where
  "stream_out_len s len h = stream (substr s 0 len) h"

definition stream_out_bytes :: "string \<Rightarrow> nat \<Rightarrow> proc_handler \<Rightarrow> proc_handler" where
  \<comment> \<open>\<open>stream_out( const byte_ptr& , unsigned long )\<close>: a todo in the source, nothing happens\<close>
  "stream_out_bytes bytes len h = h"

definition output_prompt :: "bool \<Rightarrow> proc_handler \<Rightarrow> string" where
  "output_prompt btoken h = (if btoken then m_strToken h @ [NUL] else [])"

definition flush_stream_to_connector :: "proc_handler \<Rightarrow> proc_handler" where
  "flush_stream_to_connector h =
     (if m_bSilent h then h\<lparr>m_ostr := []\<rparr>
      else (log_op (Send_n (m_ostr h)) h)\<lparr>m_ostr := []\<rparr>)"

definition flush_binary_stream_to_connector ::
    "string \<Rightarrow> nat \<Rightarrow> proc_handler \<Rightarrow> proc_handler" where
  "flush_binary_stream_to_connector buf len h =
     (if m_bSilent h then h\<lparr>m_ostr := []\<rparr> else log_op (Send (take len buf)) h)"

definition flush_immediate :: "string \<Rightarrow> proc_handler \<Rightarrow> proc_handler" where
  "flush_immediate atom h = flush_stream_to_connector (stream atom h)"

definition output_boiler_plate :: "proc_handler \<Rightarrow> proc_handler" where
  "output_boiler_plate h =
     (let h = stream (''* OK cci-dispatch daemon speaking.... '' @ m_strComputerName h
                @ '' chromatic universe 2017 all rights reserved  ready'') h;
          h = stream crlf h;
          h = stream (output_prompt False h) h
      in flush_stream_to_connector h)"

definition output_ok_response :: "string \<Rightarrow> proc_handler \<Rightarrow> proc_handler" where
  "output_ok_response ack h = stream (m_strToken h @ '' '' @ ''OK '' @ ack @ crlf) h"

definition output_no_response :: "string \<Rightarrow> proc_handler \<Rightarrow> proc_handler" where
  "output_no_response nack h =
     (let h = stream (m_strToken h @ '' '' @ ''NO '' @ nack @ crlf) h
      in h\<lparr>m_strCommand := []\<rparr>)"

primrec packet_error_text :: "proc_packet_error \<Rightarrow> string" where
  "packet_error_text peNoToken = ''no token supplied - expected''"
| "packet_error_text peTokenTooLong = ''token too long''"
| "packet_error_text peNoCommand = ''no command supplied - expected''"
| "packet_error_text peCommandTooLong = ''buffer to large''"
| "packet_error_text peTooManyParameters = ''too many parameters supplied''"
| "packet_error_text peInvalidPayload = ''invalid buffer''"
| "packet_error_text peInvalidSyntax = ''invalid syntax''"
| "packet_error_text peUnrecognizedCommand = ''command unrecognized''"
| "packet_error_text peSelectState = '' a target must be selected before a query''"
| "packet_error_text peTooFewParameters = '' too few parameters - more''"
| "packet_error_text peNoParametersExpectedGotSome = '' no parameters expected - got some''"
| "packet_error_text peParametersExpectedGotNone = ''parameters expected - got none''"
| "packet_error_text peFailure = ''a server operation within this context failed''"
| "packet_error_text peInvalidObject = ''object does not exist''"
| "packet_error_text peInvalidSpecification = ''invalid specification''"
| "packet_error_text peNoSpecification = ''no specification''"
| "packet_error_text peInvalidState = ''invalid state''"
| "packet_error_text peAttributeNotSupported = ''attribute not supported''"
| "packet_error_text peNotAuthenticated = ''please login''"
| "packet_error_text peAlreadyAuthenticated = ''already logged in''"
| "packet_error_text peNotEnoughPrivileges = ''not enough privileges''"
| "packet_error_text peNoPacketError = ''''"

definition format_packet_error :: "proc_packet_error \<Rightarrow> proc_handler \<Rightarrow> proc_handler" where
  "format_packet_error pe h =
     (let h = h\<lparr>m_current_command := proc_error\<rparr>;
          h = stream (output_prompt True h) h;
          h = stream '' NO '' h;
          h = stream (packet_error_text pe) h;
          h = stream crlf h;
          h = stream (output_prompt False h) h
      in flush_stream_to_connector h)"

section \<open>Connection state\<close>

definition check_connection_state :: "proc_state \<Rightarrow> proc_handler \<Rightarrow> bool" where
  "check_connection_state st h \<longleftrightarrow> st \<in> m_currentState h"

primrec update_connection_state ::
    "proc_set_op \<Rightarrow> proc_state \<Rightarrow> proc_handler \<Rightarrow> proc_handler" where
  "update_connection_state osopAdd st h =
     h\<lparr>m_currentState := insert st (m_currentState h)\<rparr>"
| "update_connection_state osopDelete st h =
     h\<lparr>m_currentState := m_currentState h - {st}\<rparr>"
| "update_connection_state osopClear st h = h\<lparr>m_currentState := {}\<rparr>"

section \<open>Parsing a packet\<close>

text \<open>
  \<open>parse_command\<close> stores the token in the handler and the parts in a multimap that the
  caller passes by reference; the parameter count it sets is never read.
\<close>

definition parse_rest :: "string \<Rightarrow> map_of_parts \<Rightarrow> proc_handler \<Rightarrow> proc_handler \<times> map_of_parts"
where
  \<comment> \<open>the part of \<open>parse_command\<close> after the token has been cut off\<close>
  "parse_rest str parts h =
     (let idx = find_first_of str '' ''
      in if idx = npos
         then let strcommand = rtrimlast str [LF];
                  h = h\<lparr>m_strCommand := strcommand\<rparr>;
                  parts = mm_insert ppCommand strcommand parts
              in (h\<lparr>m_proc_packet_error := peNoPacketError\<rparr>, parts)
         else let strcommand = substr str 0 idx;
                  h = h\<lparr>m_strCommand := strcommand\<rparr>;
                  str = substr_from str (idx + 1);
                  parts = mm_insert ppCommand strcommand parts;
                  str = chomp str [LF];
                  parts = mm_insert ppPayload str parts
              in (h\<lparr>m_proc_packet_error := peNoPacketError\<rparr>, parts))"

definition parse_command ::
    "string \<Rightarrow> map_of_parts \<Rightarrow> proc_handler \<Rightarrow> proc_handler \<times> map_of_parts" where
  "parse_command packet parts h =
     (if packet = [] then (h\<lparr>m_proc_packet_error := peInvalidSyntax\<rparr>, parts)
      else let str = packet; idx = find_first_of str '' ''
      in if idx \<noteq> npos
         then let strtoken = substr str 0 idx
              in if length strtoken > constMaxTokenLength
                 then (h\<lparr>m_proc_packet_error := peTokenTooLong\<rparr>, parts)
                 else let parts = mm_insert ppToken strtoken parts;
                          h = h\<lparr>m_strToken := strtoken\<rparr>;
                          str = substr_from str (idx + 1)
                      in if length str = 0
                         then (h\<lparr>m_proc_packet_error := peInvalidSyntax\<rparr>, parts)
                         else parse_rest str parts h
         else (h\<lparr>m_proc_packet_error := peNoCommand\<rparr>, parts))"

section \<open>Commands\<close>

definition on_login :: "string \<Rightarrow> proc_handler \<Rightarrow> int \<times> proc_handler" where
  "on_login params h =
     (let h = h\<lparr>m_current_command := proc_login\<rparr>
      in if check_connection_state oesAuthenticated h
         then (0, h\<lparr>m_proc_packet_error := peAlreadyAuthenticated\<rparr>)
         else let bRet = True
              in if bRet
                 then let h = update_connection_state osopAdd oesAuthenticated h
                      in (0, output_ok_response ''login completed'' h)
                 else (0, output_no_response ''login failed'' h))"

primrec call_command :: "command_fn \<Rightarrow> string \<Rightarrow> proc_handler \<Rightarrow> int \<times> proc_handler" where
  \<comment> \<open>\<open>( this->*ptr_func ) ( strPayload )\<close>\<close>
  "call_command On_login params h = on_login params h"

definition perform :: "string \<Rightarrow> proc_handler \<Rightarrow> proc_handler" where
  "perform str h =
     (if str = [] then h\<lparr>m_proc_packet_error := peInvalidPayload\<rparr>
      else let (h, parts) = parse_command str [] h
      in if m_proc_packet_error h \<noteq> peNoPacketError then h
         else case mm_find parts ppCommand of
           None \<Rightarrow> h
         | Some cmd \<Rightarrow>
             let strcommand = lcase cmd
             in (case m_command_map h strcommand of
                   None \<Rightarrow> h\<lparr>m_proc_packet_error := peUnrecognizedCommand\<rparr>
                 | Some None \<Rightarrow>
                     (let h = stream (output_prompt False h) h;
                          h = stream (''NO no default action for this keyword'' @ crlf) h
                      in flush_stream_to_connector h)
                 | Some (Some f) \<Rightarrow>
                     let strPayload =
                       (case mm_find parts ppPayload of Some p \<Rightarrow> p | None \<Rightarrow> [])
                     in snd (call_command f strPayload h)))"

section \<open>Reading and answering a request\<close>

text \<open>
  \<open>recv\<close> overwrites the front of the buffer, at most all of it, and leaves the rest; \<open>*ostr << rdbuf\<close> reads the
  buffer as a C string, past its end when it holds no NUL; \<open>memset( rdbuf , 0 , sizeof(
  rdbuf_len ) )\<close> clears \<open>sizeof(int) = 4\<close> bytes.
\<close>

definition recv_into :: "string \<Rightarrow> string \<Rightarrow> string" where
  "recv_into buf chunk = take (length buf) chunk @ drop (length chunk) buf"

definition clear4 :: "string \<Rightarrow> string" where
  "clear4 buf = replicate 4 NUL @ drop 4 buf"

definition read_c_buffer :: "string \<Rightarrow> string option" where
  "read_c_buffer buf = (if NUL \<in> set buf then Some (c_str buf) else None)"

definition answer_request :: "string \<Rightarrow> proc_handler \<Rightarrow> int \<times> proc_handler" where
  \<comment> \<open>the body of the read loop once a request is complete\<close>
  "answer_request req h =
     (let h = perform req h
      in if str_find req [LF] \<noteq> npos \<and> length req = 2
         then (0, flush_stream_to_connector (stream (output_prompt False h) h))
         else if m_current_command h \<noteq> proc_logout
         then if m_proc_packet_error h \<noteq> peNoPacketError
              then (0, format_packet_error (m_proc_packet_error h) h)
              else (0, flush_stream_to_connector h)
         else (-1, flush_stream_to_connector h))"

fun process_loop ::
    "string \<Rightarrow> string \<Rightarrow> string list \<Rightarrow> proc_handler \<Rightarrow> fault + int \<times> proc_handler" where
  "process_loop rdbuf ostr [] h = Inr (0, h)"
| "process_loop rdbuf ostr (chunk # recvs) h =
     (if chunk = [] then Inr (0, h)
      else let rdbuf = recv_into rdbuf chunk
      in case read_c_buffer rdbuf of
           None \<Rightarrow> Inl Overread
         | Some seg \<Rightarrow>
             let ostr = ostr @ seg; rdbuf = clear4 rdbuf
             in if str_find ostr [CTRL_C] \<noteq> npos \<or> str_find ostr [CTRL_Z] \<noteq> npos
                then Inr (-1, h)
                else if str_find ostr [LF] = npos \<and> length ostr \<le> constCommandBufferLength
                then process_loop rdbuf ostr recvs h
                else Inr (answer_request ostr h))"

definition process :: "nat \<Rightarrow> string list \<Rightarrow> proc_handler \<Rightarrow> fault + int \<times> proc_handler" where
  "process rdbuf_len recvs h =
     process_loop (replicate rdbuf_len NUL) [] recvs
       (h\<lparr>m_proc_packet_error := peNoPacketError\<rparr>)"

end
