(* ===== verification/Session.thy ===== *)
theory Session
  imports Prelude
begin

text \<open>
  A connection is served by calling a request function again and again until it returns -1.
  \<open>serve\<close> is that loop over a finite list of inputs, the input of one call each. The locale
  states what both protocol handlers of the program promise of one call: an invariant, and
  that a call only appends to the replies, at most one at a time. The extended locale adds
  a login, which is acknowledged at most once.
\<close>

fun serve :: "('i \<Rightarrow> 's \<Rightarrow> fault + int \<times> 's) \<Rightarrow> 'i list \<Rightarrow> 's \<Rightarrow> fault + bool \<times> 's" where
  "serve p [] s = Inr (False, s)"
| "serve p (i # is) s =
     (case p i s of
        Inl f \<Rightarrow> Inl f
      | Inr (r, s') \<Rightarrow> if r = -1 then Inr (True, s') else serve p is s')"

locale reply_session =
  fixes step :: "'i \<Rightarrow> 's \<Rightarrow> fault + int \<times> 's"
    and sent :: "'s \<Rightarrow> string list"
    and inv :: "'s \<Rightarrow> bool"
  assumes inv_step: "inv s \<Longrightarrow> step i s = Inr (r, s') \<Longrightarrow> inv s'"
    and sent_step: "inv s \<Longrightarrow> step i s = Inr (r, s') \<Longrightarrow>
      \<exists>out. sent s' = sent s @ out \<and> length out \<le> 1"
begin

lemma inv_serve: "inv s \<Longrightarrow> serve step is s = Inr (b, s') \<Longrightarrow> inv s'"
  by (induction "is" arbitrary: s)
    (auto split: sum.splits if_splits prod.splits dest: inv_step)

lemma sent_serve: "inv s \<Longrightarrow> serve step is s = Inr (b, s') \<Longrightarrow>
    \<exists>out. sent s' = sent s @ out \<and> length out \<le> length is"
proof (induction "is" arbitrary: s)
  case Nil
  then show ?case by simp
next
  case (Cons i "is")
  from Cons.prems(2) obtain r t where t: "step i s = Inr (r, t)"
    by (auto split: sum.splits)
  obtain o1 where o1: "sent t = sent s @ o1" "length o1 \<le> 1"
    using sent_step [OF Cons.prems(1) t] by blast
  show ?case
  proof (cases "r = -1")
    case True
    with t Cons.prems(2) o1 show ?thesis by (intro exI [of _ o1]) simp
  next
    case False
    with t Cons.prems(2) have "serve step is t = Inr (b, s')" by simp
    then obtain o2 where "sent s' = sent t @ o2" "length o2 \<le> length is"
      using Cons.IH inv_step [OF Cons.prems(1) t] by blast
    with o1 show ?thesis by (intro exI [of _ "o1 @ o2"]) simp
  qed
qed

end

locale bounded_session = reply_session step sent inv
  for step :: "'i \<Rightarrow> 's \<Rightarrow> fault + int \<times> 's" and sent :: "'s \<Rightarrow> string list" and inv +
  fixes fits :: "string \<Rightarrow> bool"
  assumes fits_step: "inv s \<Longrightarrow> step i s = Inr (r, s') \<Longrightarrow> sent s' = sent s @ out \<Longrightarrow>
    list_all fits out"
begin

lemma fits_serve: "inv s \<Longrightarrow> serve step is s = Inr (b, s') \<Longrightarrow> sent s' = sent s @ out \<Longrightarrow>
    list_all fits out"
proof (induction "is" arbitrary: s out)
  case (Cons i "is")
  from Cons.prems(2) obtain r t where t: "step i s = Inr (r, t)"
    by (auto split: sum.splits)
  obtain o1 where o1: "sent t = sent s @ o1" using sent_step [OF Cons.prems(1) t] by blast
  note f1 = fits_step [OF Cons.prems(1) t o1]
  show ?case
  proof (cases "r = -1")
    case True
    with t Cons.prems o1 f1 show ?thesis by simp
  next
    case False
    with t Cons.prems(2) have s': "serve step is t = Inr (b, s')" by simp
    note t_inv = inv_step [OF Cons.prems(1) t]
    obtain o2 where o2: "sent s' = sent t @ o2" using sent_serve [OF t_inv s'] by blast
    with Cons.prems(3) o1 f1 Cons.IH [OF t_inv s' o2] show ?thesis by auto
  qed
qed simp

end

locale login_session = reply_session step sent inv
  for step :: "'i \<Rightarrow> 's \<Rightarrow> fault + int \<times> 's" and sent :: "'s \<Rightarrow> string list" and inv +
  fixes authed :: "'s \<Rightarrow> bool" and is_ack :: "string \<Rightarrow> bool"
  assumes authed_step: "inv s \<Longrightarrow> step i s = Inr (r, s') \<Longrightarrow> authed s \<Longrightarrow> authed s'"
    and ack_step: "inv s \<Longrightarrow> step i s = Inr (r, s') \<Longrightarrow> sent s' = sent s @ out \<Longrightarrow>
      (\<exists>x \<in> set out. is_ack x) \<longleftrightarrow> \<not> authed s \<and> authed s'"
begin

lemma authed_serve: "inv s \<Longrightarrow> serve step is s = Inr (b, s') \<Longrightarrow> authed s \<Longrightarrow> authed s'"
  by (induction "is" arbitrary: s)
    (auto split: sum.splits if_splits prod.splits dest: inv_step authed_step)

text \<open>
  In every session the login is acknowledged once if the session becomes authenticated,
  and never otherwise.
\<close>

lemma acks_serve: "inv s \<Longrightarrow> serve step is s = Inr (b, s') \<Longrightarrow> sent s' = sent s @ out \<Longrightarrow>
    length (filter is_ack out) = (if \<not> authed s \<and> authed s' then 1 else 0)"
proof (induction "is" arbitrary: s out)
  case Nil
  then show ?case by simp
next
  case (Cons i "is")
  from Cons.prems(2) obtain r t where t: "step i s = Inr (r, t)"
    by (auto split: sum.splits)
  obtain o1 where o1: "sent t = sent s @ o1" "length o1 \<le> 1"
    using sent_step [OF Cons.prems(1) t] by blast
  have acks1: "length (filter is_ack o1) = (if \<not> authed s \<and> authed t then 1 else 0)"
    using ack_step [OF Cons.prems(1) t o1(1)] o1(2) by (cases o1) auto
  show ?case
  proof (cases "r = -1")
    case True
    with t Cons.prems o1 acks1 show ?thesis by simp
  next
    case False
    with t Cons.prems(2) have s': "serve step is t = Inr (b, s')" by simp
    have t_inv: "inv t" by (rule inv_step [OF Cons.prems(1) t])
    obtain o2 where o2: "sent s' = sent t @ o2"
      using sent_serve [OF t_inv s'] by blast
    then have "length (filter is_ack o2) = (if \<not> authed t \<and> authed s' then 1 else 0)"
      using Cons.IH [OF t_inv s'] by blast
    moreover have "out = o1 @ o2" using Cons.prems(3) o1 o2 by simp
    moreover have "authed s \<Longrightarrow> authed t"
      by (rule authed_step [OF Cons.prems(1) t])
    moreover have "authed t \<Longrightarrow> authed s'"
      by (rule authed_serve [OF t_inv s'])
    ultimately show ?thesis using acks1 by auto
  qed
qed

end

end
