(* ===== verification/Proc_Facts.thy ===== *)
theory Proc_Facts
  imports Proc_Handler Session "HOL-Library.Sublist"
begin

text \<open>
  What the request side of the dispatcher handler does: the parser against the grammar of
  a request line, the reassembly of a request from the data of several reads, the reply to
  a request, and the invariant of a session with the interpretation of the session locale.
\<close>

section \<open>The parser\<close>

definition request_line :: "string \<Rightarrow> string \<Rightarrow> string \<Rightarrow> string" where
  \<comment> \<open>token, command and parameters as a client writes them\<close>
  "request_line tok cmd params = tok @ [SPACE] @ cmd @ [SPACE] @ params @ crlf"

definition bare_request_line :: "string \<Rightarrow> string \<Rightarrow> string" where
  "bare_request_line tok cmd = tok @ [SPACE] @ cmd @ crlf"

lemma space_literal: "'' '' = [SPACE]"
  by (simp add: SPACE_def)

lemma find_space_append:
  "SPACE \<notin> set a \<Longrightarrow> find_first_of (a @ SPACE # b) [SPACE] = length a"
proof -
  assume "SPACE \<notin> set a"
  then have "first_index (\<lambda>c. c = SPACE) (a @ SPACE # b) = Some (length a)"
    by (intro first_index_append) auto
  then show ?thesis by (simp add: find_first_of_def)
qed

lemma find_space_none: "SPACE \<notin> set a \<Longrightarrow> find_first_of a [SPACE] = npos"
proof -
  assume "SPACE \<notin> set a"
  then have "first_index (\<lambda>c. c = SPACE) a = None" by (auto simp: first_index_None)
  then show ?thesis by (simp add: find_first_of_def)
qed

lemma rtrimlast_crlf: "size_ok (a @ crlf) \<Longrightarrow> rtrimlast (a @ crlf) [LF] = a"
  unfolding crlf_def by (rule rtrimlast_LF)

lemma chomp_crlf: "size_ok (a @ crlf) \<Longrightarrow> LF \<notin> set a \<Longrightarrow> chomp (a @ crlf) [LF] = a"
  using chomp_before_LF [of a CR "[]"] by (simp add: crlf_def)

lemmas part_order_defs = less_eq_proc_packet_part_def less_proc_packet_part_def

lemma parse_rest_bare:
  assumes "SPACE \<notin> set cmd" "size_ok (cmd @ crlf)"
  shows "parse_rest (cmd @ crlf) parts h =
    (h\<lparr>m_strCommand := cmd, m_proc_packet_error := peNoPacketError\<rparr>,
     mm_insert ppCommand cmd parts)"
proof -
  have "find_first_of (cmd @ crlf) [SPACE] = npos"
    using assms(1) by (intro find_space_none) (simp add: crlf_def)
  with assms(2) show ?thesis
    by (simp add: parse_rest_def space_literal rtrimlast_crlf)
qed

lemma parse_rest_params:
  assumes "SPACE \<notin> set cmd" "LF \<notin> set params" "size_ok (cmd @ [SPACE] @ params @ crlf)"
  shows "parse_rest (cmd @ [SPACE] @ params @ crlf) parts h =
    (h\<lparr>m_strCommand := cmd, m_proc_packet_error := peNoPacketError\<rparr>,
     mm_insert ppPayload params (mm_insert ppCommand cmd parts))"
proof -
  have len: "length cmd < npos" using assms(3) by (simp add: size_ok_def)
  have "size_ok (params @ crlf)" using assms(3) by (simp add: size_ok_def)
  with assms(2) have "chomp (params @ crlf) [LF] = params" by (intro chomp_crlf)
  with len find_space_append [OF assms(1)] show ?thesis
    by (simp add: parse_rest_def space_literal substr_def substr_from_def)
qed

lemma parse_command_token:
  assumes "SPACE \<notin> set tok" "length tok \<le> constMaxTokenLength" "str \<noteq> []"
    "size_ok (tok @ [SPACE] @ str)"
  shows "parse_command (tok @ [SPACE] @ str) parts h =
    parse_rest str (mm_insert ppToken tok parts) (h\<lparr>m_strToken := tok\<rparr>)"
proof -
  have "length tok < npos" using assms(4) by (simp add: size_ok_def)
  with assms find_space_append [OF assms(1)] show ?thesis
    by (simp add: parse_command_def space_literal substr_def substr_from_def Let_def)
qed

lemma parse_command_bare_line:
  assumes "SPACE \<notin> set tok" "length tok \<le> constMaxTokenLength" "SPACE \<notin> set cmd"
    "size_ok (bare_request_line tok cmd)"
  shows "parse_command (bare_request_line tok cmd) [] h =
    (h\<lparr>m_strToken := tok, m_strCommand := cmd, m_proc_packet_error := peNoPacketError\<rparr>,
     [(ppToken, tok), (ppCommand, cmd)])"
proof -
  have "cmd @ crlf \<noteq> []" and "size_ok (cmd @ crlf)"
    using assms(4) by (auto simp: crlf_def bare_request_line_def size_ok_def)
  with assms show ?thesis
    using parse_command_token [of tok "cmd @ crlf" "[]" h]
    by (simp add: bare_request_line_def parse_rest_bare mm_insert_Cons part_order_defs)
qed

lemma parse_command_line:
  assumes "SPACE \<notin> set tok" "length tok \<le> constMaxTokenLength" "SPACE \<notin> set cmd"
    "LF \<notin> set params" "size_ok (request_line tok cmd params)"
  shows "parse_command (request_line tok cmd params) [] h =
    (h\<lparr>m_strToken := tok, m_strCommand := cmd, m_proc_packet_error := peNoPacketError\<rparr>,
     [(ppToken, tok), (ppCommand, cmd), (ppPayload, params)])"
proof -
  let ?str = "cmd @ [SPACE] @ params @ crlf"
  have "?str \<noteq> []" and "size_ok ?str"
    using assms(5) by (auto simp: request_line_def size_ok_def)
  with assms show ?thesis
    using parse_command_token [of tok ?str "[]" h] parse_rest_params [of cmd params]
    by (simp add: request_line_def mm_insert_Cons part_order_defs)
qed

text \<open>Which error the parser leaves, for every packet.\<close>

lemma parse_rest_error: "m_proc_packet_error (fst (parse_rest str parts h)) = peNoPacketError"
  by (simp add: parse_rest_def Let_def)

lemma parse_rest_command: "\<exists>c. mm_find (snd (parse_rest str parts h)) ppCommand = Some c
    \<and> m_strCommand (fst (parse_rest str parts h)) = c"
  if "mm_find parts ppCommand = None"
  using that by (simp add: parse_rest_def Let_def mm_find_insert_new mm_find_insert_other)

lemma parse_rest_frame: "\<exists>c. fst (parse_rest str parts h) =
    h\<lparr>m_strCommand := c, m_proc_packet_error := peNoPacketError\<rparr>"
  by (cases "find_first_of str '' '' = npos")
    (simp_all add: parse_rest_def Let_def, (rule exI, rule refl)+)

lemma parse_command_error:
  "m_proc_packet_error (fst (parse_command packet parts h)) =
    (if packet = [] then peInvalidSyntax
     else case first_index (\<lambda>c. c = SPACE) packet of
       None \<Rightarrow> peNoCommand
     | Some i \<Rightarrow>
         if i > constMaxTokenLength then peTokenTooLong
         else if length packet = i + 1 then peInvalidSyntax
         else peNoPacketError)"
  if "size_ok packet"
proof (cases "first_index (\<lambda>c. c = SPACE) packet")
  case None
  then show ?thesis
    by (simp add: parse_command_def space_literal find_first_of_def Let_def)
next
  case (Some i)
  then have "i < length packet" by (auto dest: first_index_Some)
  with that have "i < npos" by (simp add: size_ok_def)
  with Some \<open>i < length packet\<close> show ?thesis
    by (auto simp: parse_command_def space_literal find_first_of_def Let_def substr_def
        substr_from_def parse_rest_error min_def)
qed

lemma parse_command_frame: "\<exists>t c e. fst (parse_command packet parts h) =
    h\<lparr>m_strToken := t, m_strCommand := c, m_proc_packet_error := e\<rparr>"
proof -
  have same: "h = h\<lparr>m_strToken := m_strToken h, m_strCommand := m_strCommand h\<rparr>" by simp
  have rest: "\<exists>t c e. fst (parse_rest s ps (h\<lparr>m_strToken := k\<rparr>)) =
      h\<lparr>m_strToken := t, m_strCommand := c, m_proc_packet_error := e\<rparr>" for s ps k
    using parse_rest_frame [of s ps "h\<lparr>m_strToken := k\<rparr>"] by auto
  show ?thesis
    unfolding parse_command_def Let_def
    by (auto intro!: rest) (metis proc_handler.surjective proc_handler.update_convs(5,6))+
qed

lemma parse_rest_command_len: "mm_find parts ppCommand = None \<Longrightarrow>
    \<exists>c. mm_find (snd (parse_rest str parts h)) ppCommand = Some c \<and> length c \<le> length str"
  by (simp add: parse_rest_def Let_def mm_find_insert_new mm_find_insert_other
      length_rtrimlast length_substr_le)

lemma parse_command_finds_command:
  assumes "m_proc_packet_error (fst (parse_command packet [] h)) = peNoPacketError"
  obtains c where "mm_find (snd (parse_command packet [] h)) ppCommand = Some c"
    "length c \<le> length packet"
proof -
  let ?i = "find_first_of packet '' ''"
  let ?ps = "[(ppToken, substr packet 0 ?i)]"
  let ?s = "substr_from packet (?i + 1)"
  let ?h = "h\<lparr>m_strToken := substr packet 0 ?i\<rparr>"
  from assms have "parse_command packet [] h = parse_rest ?s ?ps ?h"
    by (auto simp: parse_command_def Let_def split: if_splits)
  moreover obtain c where "mm_find (snd (parse_rest ?s ?ps ?h)) ppCommand = Some c"
      "length c \<le> length ?s"
    using parse_rest_command_len [of ?ps ?s ?h] by (auto simp: mm_find_def)
  moreover have "length ?s \<le> length packet" by (simp add: substr_from_def)
  ultimately show ?thesis using that by fastforce
qed

section \<open>Performing a request\<close>

text \<open>
  The invariant of a connection between two requests, once \<open>open\<close> has filled the command
  map: nothing is waiting in the output stream, the only command is login, and the
  connection state has grown from its initial value by a login at most.
\<close>

definition proc_inv :: "proc_handler \<Rightarrow> bool" where
  "proc_inv h \<longleftrightarrow>
     m_ostr h = [] \<and> \<not> m_bSilent h \<and> m_command_map h = [''login'' \<mapsto> Some On_login] \<and>
     m_current_command h \<in> {proc_no_command, proc_login, proc_error} \<and>
     oesNonAuthenticated \<in> m_currentState h \<and>
     m_currentState h \<subseteq> {oesNonAuthenticated, oesAuthenticated}"

definition authenticated :: "proc_handler \<Rightarrow> bool" where
  "authenticated h \<longleftrightarrow> check_connection_state oesAuthenticated h"

definition login_reply :: "string \<Rightarrow> string" where
  "login_reply tok = tok @ '' '' @ ''OK '' @ ''login completed'' @ crlf"

definition error_reply :: "string \<Rightarrow> proc_packet_error \<Rightarrow> string" where
  "error_reply tok pe = tok @ [NUL] @ '' NO '' @ packet_error_text pe @ crlf"

text \<open>Every request is either refused with an error, or is a first login.\<close>

definition refused :: "proc_handler \<Rightarrow> proc_handler \<Rightarrow> bool" where
  "refused h h' \<longleftrightarrow> (\<exists>t c k e. e \<noteq> peNoPacketError \<and> k \<in> {m_current_command h, proc_login} \<and>
     h' = h\<lparr>m_strToken := t, m_strCommand := c, m_current_command := k,
            m_proc_packet_error := e\<rparr>)"

definition logged_in :: "proc_handler \<Rightarrow> proc_handler \<Rightarrow> bool" where
  "logged_in h h' \<longleftrightarrow> \<not> authenticated h \<and> (\<exists>t c.
     h' = h\<lparr>m_ostr := m_ostr h @ login_reply t, m_strToken := t, m_strCommand := c,
            m_current_command := proc_login, m_proc_packet_error := peNoPacketError,
            m_currentState := insert oesAuthenticated (m_currentState h)\<rparr>)"

lemma on_login_cases:
  "snd (on_login params h) =
     (if authenticated h
      then h\<lparr>m_current_command := proc_login, m_proc_packet_error := peAlreadyAuthenticated\<rparr>
      else h\<lparr>m_ostr := m_ostr h @ login_reply (m_strToken h),
             m_current_command := proc_login,
             m_currentState := insert oesAuthenticated (m_currentState h)\<rparr>)"
  by (simp add: on_login_def authenticated_def check_connection_state_def login_reply_def
      output_ok_response_def stream_def Let_def)

lemma refusedE:
  assumes "refused h h'"
  obtains t c k e where "e \<noteq> peNoPacketError" "k = m_current_command h \<or> k = proc_login"
    "h' = h\<lparr>m_strToken := t, m_strCommand := c, m_current_command := k,
           m_proc_packet_error := e\<rparr>"
  using assms unfolding refused_def by blast

lemma logged_inE:
  assumes "logged_in h h'"
  obtains t c where "\<not> authenticated h"
    "h' = h\<lparr>m_ostr := m_ostr h @ login_reply t, m_strToken := t, m_strCommand := c,
            m_current_command := proc_login, m_proc_packet_error := peNoPacketError,
            m_currentState := insert oesAuthenticated (m_currentState h)\<rparr>"
  using assms unfolding logged_in_def by blast

lemma refusedI: "e \<noteq> peNoPacketError \<Longrightarrow> k \<in> {m_current_command h, proc_login} \<Longrightarrow>
    h' = h\<lparr>m_strToken := t, m_strCommand := c, m_current_command := k,
           m_proc_packet_error := e\<rparr> \<Longrightarrow> refused h h'"
  unfolding refused_def by blast

lemma perform_cases:
  assumes "m_command_map h = [''login'' \<mapsto> Some On_login]"
  shows "refused h (perform str h) \<or> logged_in h (perform str h) \<and> 5 \<le> length str"
proof (cases "str = []")
  case True
  then show ?thesis
    by (intro disjI1 refusedI [where e = peInvalidPayload and k = "m_current_command h"
          and t = "m_strToken h" and c = "m_strCommand h"])
      (simp_all add: perform_def)
next
  case False
  obtain h1 parts where p: "parse_command str [] h = (h1, parts)" by fastforce
  then obtain t c e where h1: "h1 = h\<lparr>m_strToken := t, m_strCommand := c, m_proc_packet_error := e\<rparr>"
    using parse_command_frame [of str "[]" h] by auto
  show ?thesis
  proof (cases "e = peNoPacketError")
    case err: False
    with False p h1 show ?thesis
      by (intro disjI1 refusedI [where e = e and k = "m_current_command h"])
        (simp_all add: perform_def)
  next
    case True
    then obtain cmd where cmd: "mm_find parts ppCommand = Some cmd" "length cmd \<le> length str"
      using parse_command_finds_command [of str h] p h1 by auto
    show ?thesis
    proof (cases "lcase cmd = ''login''")
      case False
      with \<open>str \<noteq> []\<close> p h1 True cmd assms show ?thesis
        by (intro disjI1 refusedI [where e = peUnrecognizedCommand and k = "m_current_command h"])
          (simp_all add: perform_def)
    next
      case login: True
      have "length (lcase cmd) = 5" using login by simp
      with cmd(2) have long: "5 \<le> length str" by (simp add: lower.len)
      let ?pl = "case mm_find parts ppPayload of Some p \<Rightarrow> p | None \<Rightarrow> []"
      have "perform str h = snd (on_login ?pl h1)"
        using \<open>str \<noteq> []\<close> p h1 True cmd login assms by (simp add: perform_def)
      then have r: "perform str h = (if authenticated h
          then h\<lparr>m_strToken := t, m_strCommand := c, m_current_command := proc_login,
                 m_proc_packet_error := peAlreadyAuthenticated\<rparr>
          else h\<lparr>m_ostr := m_ostr h @ login_reply t, m_strToken := t, m_strCommand := c,
                 m_current_command := proc_login, m_proc_packet_error := peNoPacketError,
                 m_currentState := insert oesAuthenticated (m_currentState h)\<rparr>)"
        using h1 True
        by (simp add: on_login_cases authenticated_def check_connection_state_def)
      show ?thesis
      proof (cases "authenticated h")
        case True
        with r show ?thesis
          by (intro disjI1 refusedI [where e = peAlreadyAuthenticated and k = proc_login])
            simp_all
      next
        case False
        with r long show ?thesis unfolding logged_in_def by (intro disjI2 conjI exI) simp_all
      qed
    qed
  qed
qed

lemma perform_no_space:
  assumes "str \<noteq> []" "SPACE \<notin> set str"
  shows "perform str h = h\<lparr>m_proc_packet_error := peNoCommand\<rparr>"
  using assms find_space_none [of str]
  by (simp add: perform_def parse_command_def space_literal)

lemma perform_login_line:
  assumes "SPACE \<notin> set tok" "length tok \<le> constMaxTokenLength" "SPACE \<notin> set cmd"
    "lcase cmd = ''login''" "m_command_map h = [''login'' \<mapsto> Some On_login]"
    "size_ok (bare_request_line tok cmd)" "\<not> authenticated h"
  shows "perform (bare_request_line tok cmd) h =
    h\<lparr>m_ostr := m_ostr h @ login_reply tok, m_strToken := tok, m_strCommand := cmd,
      m_current_command := proc_login, m_proc_packet_error := peNoPacketError,
      m_currentState := insert oesAuthenticated (m_currentState h)\<rparr>"
proof -
  have ne: "bare_request_line tok cmd \<noteq> []" by (simp add: bare_request_line_def)
  show ?thesis
    using assms parse_command_bare_line [of tok cmd h] ne
    by (simp add: perform_def mm_find_def on_login_cases authenticated_def
        check_connection_state_def)
qed

section \<open>Answering a request\<close>

text \<open>
  Every request is answered by exactly one message: an empty one for an empty line, the
  error text for a refused request, the acknowledgement for a login.
\<close>

definition short_line :: "string \<Rightarrow> bool" where
  "short_line req \<longleftrightarrow> LF \<in> set req \<and> length req = 2"

definition send_reply :: "string \<Rightarrow> proc_handler \<Rightarrow> proc_handler" where
  "send_reply x h = h\<lparr>m_ostr := [], ops := ops h @ [Send_n x]\<rparr>"

lemma flush_send: "\<not> m_bSilent h \<Longrightarrow> flush_stream_to_connector h = send_reply (m_ostr h) h"
  by (simp add: flush_stream_to_connector_def send_reply_def log_op_def)

lemma format_send: "\<not> m_bSilent h \<Longrightarrow> m_ostr h = [] \<Longrightarrow>
    format_packet_error pe h =
    send_reply (error_reply (m_strToken h) pe) (h\<lparr>m_current_command := proc_error\<rparr>)"
  by (simp add: format_packet_error_def stream_def output_prompt_def flush_send Let_def
      error_reply_def send_reply_def)

lemma stream_Nil [simp]: "stream [] h = h"
  by (simp add: stream_def)

lemma short_line_eq: "size_ok req \<Longrightarrow>
    (str_find req [LF] \<noteq> npos \<and> length req = 2) = short_line req"
  using str_find_char [of req LF] by (auto simp: short_line_def)

lemma answer_short:
  "\<lbrakk>size_ok req; short_line req; perform req h = h1; \<not> m_bSilent h1; m_ostr h1 = []\<rbrakk> \<Longrightarrow>
   answer_request req h = (0, send_reply [] h1)"
  by (simp add: answer_request_def short_line_eq output_prompt_def flush_send)

lemma answer_error:
  "\<lbrakk>size_ok req; \<not> short_line req; perform req h = h1; \<not> m_bSilent h1; m_ostr h1 = [];
    m_current_command h1 \<noteq> proc_logout; m_proc_packet_error h1 \<noteq> peNoPacketError\<rbrakk> \<Longrightarrow>
   answer_request req h =
     (0, send_reply (error_reply (m_strToken h1) (m_proc_packet_error h1))
           (h1\<lparr>m_current_command := proc_error\<rparr>))"
  by (simp add: answer_request_def short_line_eq format_send)

lemma answer_ok:
  "\<lbrakk>size_ok req; \<not> short_line req; perform req h = h1; \<not> m_bSilent h1;
    m_current_command h1 \<noteq> proc_logout; m_proc_packet_error h1 = peNoPacketError\<rbrakk> \<Longrightarrow>
   answer_request req h = (0, send_reply (m_ostr h1) h1)"
  by (simp add: answer_request_def short_line_eq flush_send)

lemma answer_request_cases:
  assumes inv: "proc_inv h" and ok: "size_ok req"
  obtains
    (short) h1 where "short_line req" "refused h h1"
      "answer_request req h = (0, send_reply [] h1)"
  | (error) h1 where "\<not> short_line req" "refused h h1" "answer_request req h =
       (0, send_reply (error_reply (m_strToken h1) (m_proc_packet_error h1))
             (h1\<lparr>m_current_command := proc_error\<rparr>))"
  | (login) h1 where "\<not> short_line req" "logged_in h h1"
       "answer_request req h = (0, send_reply (login_reply (m_strToken h1)) h1)"
proof -
  obtain h1 where h1: "perform req h = h1" by simp
  have quiet: "\<not> m_bSilent h" "m_ostr h = []" using inv by (simp_all add: proc_inv_def)
  have cases: "refused h h1 \<or> logged_in h h1 \<and> 5 \<le> length req"
    using perform_cases [of h req] inv h1 by (simp add: proc_inv_def)
  show ?thesis
  proof (cases "refused h h1")
    case True
    then have q: "\<not> m_bSilent h1" "m_ostr h1 = []" "m_proc_packet_error h1 \<noteq> peNoPacketError"
      and nl: "m_current_command h1 \<noteq> proc_logout"
      using quiet inv by (auto simp: proc_inv_def elim!: refusedE)
    show ?thesis
    proof (cases "short_line req")
      case s: True
      from short [OF s True answer_short [OF ok s h1 q(1,2)]] show ?thesis .
    next
      case s: False
      from error [OF s True answer_error [OF ok s h1 q(1,2) nl q(3)]] show ?thesis .
    qed
  next
    case False
    with cases have l: "logged_in h h1" "5 \<le> length req" by auto
    then have q: "\<not> m_bSilent h1" "m_ostr h1 = login_reply (m_strToken h1)"
        "m_proc_packet_error h1 = peNoPacketError" "m_current_command h1 \<noteq> proc_logout"
      using quiet by (auto simp: logged_in_def)
    have s: "\<not> short_line req" using l by (auto simp: short_line_def)
    from login [OF s l(1)] answer_ok [OF ok s h1 q(1,4,3)] q(2) show ?thesis by simp
  qed
qed

lemma refused_inv: "refused h h1 \<Longrightarrow> proc_inv h \<Longrightarrow> proc_inv h1"
  by (erule refusedE) (auto simp: proc_inv_def)

lemma proc_inv_command: "proc_inv h \<Longrightarrow> k \<in> {proc_no_command, proc_login, proc_error} \<Longrightarrow>
    proc_inv (h\<lparr>m_current_command := k\<rparr>)"
  by (simp add: proc_inv_def)

lemma send_reply_sel [simp]:
  "ops (send_reply x h) = ops h @ [Send_n x]"
  "proc_inv (send_reply x h) = proc_inv (h\<lparr>m_ostr := []\<rparr>)"
  "authenticated (send_reply x h) = authenticated h"
  "m_currentState (send_reply x h) = m_currentState h"
  by (simp_all add: send_reply_def proc_inv_def authenticated_def check_connection_state_def)

lemma refused_sel: "refused h h1 \<Longrightarrow> ops h1 = ops h \<and> m_currentState h1 = m_currentState h
    \<and> authenticated h1 = authenticated h \<and> m_ostr h1 = m_ostr h"
  by (erule refusedE) (simp add: authenticated_def check_connection_state_def)

lemma logged_in_sel: "logged_in h h1 \<Longrightarrow> ops h1 = ops h \<and> \<not> authenticated h \<and> authenticated h1"
  by (erule logged_inE) (simp add: authenticated_def check_connection_state_def)

lemma logged_in_inv: "logged_in h h1 \<Longrightarrow> proc_inv h \<Longrightarrow> proc_inv (h1\<lparr>m_ostr := []\<rparr>)"
  by (erule logged_inE) (simp add: proc_inv_def)

section \<open>Acknowledgements\<close>

definition is_login_ack :: "string \<Rightarrow> bool" where
  "is_login_ack x \<longleftrightarrow> suffix (''OK login completed'' @ crlf) x"

lemma login_reply_ack [simp]: "is_login_ack (login_reply tok)"
  by (auto simp: is_login_ack_def login_reply_def suffix_def)

lemma no_ack_Nil [simp]: "\<not> is_login_ack []"
  by (simp add: is_login_ack_def)

lemma error_reply_no_ack: "pe \<noteq> peNoPacketError \<Longrightarrow> \<not> is_login_ack (error_reply tok pe)"
  by (cases pe) (simp_all add: is_login_ack_def error_reply_def suffix_to_prefix crlf_def)

lemma answer_request_step:
  assumes inv: "proc_inv h" and ok: "size_ok req" and ans: "answer_request req h = (r, h')"
  shows "r = 0 \<and> proc_inv h' \<and> (authenticated h \<longrightarrow> authenticated h') \<and>
    (\<exists>x. ops h' = ops h @ [Send_n x] \<and>
         is_login_ack x = (\<not> authenticated h \<and> authenticated h'))"
  using inv ok
proof (cases rule: answer_request_cases)
  case (short h1)
  with ans have "r = 0" "h' = send_reply [] h1" by simp_all
  moreover have "proc_inv (h1\<lparr>m_ostr := []\<rparr>)"
    using refused_inv [OF short(2) inv] by (simp add: proc_inv_def)
  ultimately show ?thesis using refused_sel [OF short(2)] by simp
next
  case (error h1)
  let ?x = "error_reply (m_strToken h1) (m_proc_packet_error h1)"
  have h': "r = 0" "h' = send_reply ?x (h1\<lparr>m_current_command := proc_error\<rparr>)"
    using error ans by simp_all
  have "proc_inv (h1\<lparr>m_current_command := proc_error, m_ostr := []\<rparr>)"
    using refused_inv [OF error(2) inv] by (simp add: proc_inv_def)
  moreover have "\<not> is_login_ack ?x"
    using error(2) by (auto elim!: refusedE dest: error_reply_no_ack)
  ultimately show ?thesis using h' refused_sel [OF error(2)]
    by (simp add: authenticated_def check_connection_state_def)
next
  case (login h1)
  with ans have "r = 0" "h' = send_reply (login_reply (m_strToken h1)) h1" by simp_all
  then show ?thesis using logged_in_sel [OF login(2)] logged_in_inv [OF login(2) inv] by simp
qed

section \<open>Reading a request\<close>

lemma length_recv_into [simp]: "length (recv_into buf chunk) = length buf"
  by (simp add: recv_into_def)

lemma recv_into_short: "length c \<le> length b \<Longrightarrow> recv_into b c = c @ drop (length c) b"
  by (simp add: recv_into_def)

lemma length_clear4: "4 \<le> length buf \<Longrightarrow> length (clear4 buf) = length buf"
  by (simp add: clear4_def)

lemma read_c_buffer_length: "read_c_buffer buf = Some seg \<Longrightarrow> length seg \<le> length buf"
  by (auto simp: read_c_buffer_def c_str_def length_takeWhile_le split: if_splits)

text \<open>
  What the read loop finds, without the handler: the loops of both protocol handlers of the
  program are this function followed by an answer.
\<close>

datatype read_outcome = Nothing_Read | Control_Read | Read_Overrun | Request_Read string

fun read_request :: "string \<Rightarrow> string \<Rightarrow> string list \<Rightarrow> read_outcome" where
  "read_request rdbuf got [] = Nothing_Read"
| "read_request rdbuf got (chunk # recvs) =
     (if chunk = [] then Nothing_Read
      else case read_c_buffer (recv_into rdbuf chunk) of
        None \<Rightarrow> Read_Overrun
      | Some seg \<Rightarrow>
          if str_find (got @ seg) [CTRL_C] \<noteq> npos \<or> str_find (got @ seg) [CTRL_Z] \<noteq> npos
          then Control_Read
          else if str_find (got @ seg) [LF] = npos \<and> length (got @ seg) \<le> constCommandBufferLength
          then read_request (clear4 (recv_into rdbuf chunk)) (got @ seg) recvs
          else Request_Read (got @ seg))"

lemma process_loop_outcome:
  "process_loop rdbuf got recvs h =
     (case read_request rdbuf got recvs of
        Nothing_Read \<Rightarrow> Inr (0, h)
      | Control_Read \<Rightarrow> Inr (-1, h)
      | Read_Overrun \<Rightarrow> Inl Overread
      | Request_Read req \<Rightarrow> Inr (answer_request req h))"
  by (induction rdbuf got recvs rule: read_request.induct)
    (auto simp: Let_def split: option.splits)

lemma read_request_bound:
  assumes "read_request rdbuf got recvs = Request_Read req"
    "length got \<le> constCommandBufferLength" "4 \<le> length rdbuf"
  shows "length req \<le> constCommandBufferLength + length rdbuf"
  using assms
proof (induction rdbuf got recvs rule: read_request.induct)
  case (1 rdbuf got)
  then show ?case by simp
next
  case (2 rdbuf got chunk recvs)
  from 2(2) obtain seg where seg: "chunk \<noteq> []" "read_c_buffer (recv_into rdbuf chunk) = Some seg"
    by (auto split: if_splits option.splits)
  have len: "length seg \<le> length rdbuf" using read_c_buffer_length [OF seg(2)] by simp
  let ?ctrl = "str_find (got @ seg) [CTRL_C] \<noteq> npos \<or> str_find (got @ seg) [CTRL_Z] \<noteq> npos"
  let ?more = "str_find (got @ seg) [LF] = npos \<and> length (got @ seg) \<le> constCommandBufferLength"
  have c: "\<not> ?ctrl"
  proof
    assume ?ctrl
    with 2(2) seg show False by simp
  qed
  show ?case
  proof (cases ?more)
    case True
    with 2(2) seg c
    have "read_request (clear4 (recv_into rdbuf chunk)) (got @ seg) recvs = Request_Read req"
      by auto
    from 2(1) [OF seg c True this] True 2(4) show ?thesis by (simp add: length_clear4)
  next
    case False
    with 2(2) seg c have "req = got @ seg" by (auto split: if_splits)
    with len 2(3) show ?thesis by simp
  qed
qed

text \<open>How a call of process ends, when it does not fault.\<close>

lemma process_loop_result:
  assumes "process_loop rdbuf ostr recvs h = Inr (r, h')"
    "length ostr \<le> constCommandBufferLength" "4 \<le> length rdbuf"
  shows "r \<in> {0, -1} \<and> h' = h \<or>
    (\<exists>req. length req \<le> constCommandBufferLength + length rdbuf \<and>
       answer_request req h = (r, h'))"
proof (cases "read_request rdbuf ostr recvs")
  case (Request_Read req)
  with read_request_bound [OF this assms(2,3)] assms(1) show ?thesis
    by (auto simp: process_loop_outcome)
qed (use assms(1) in \<open>simp_all add: process_loop_outcome\<close>)

text \<open>The buffers the program passes: \<open>cmd_buffer_len\<close> and BUFSIZ bytes.\<close>

definition buffer_ok :: "nat \<Rightarrow> bool" where
  "buffer_ok n \<longleftrightarrow> 4 \<le> n \<and> n \<le> cmd_buffer_len"

lemma buffer_ok_used: "buffer_ok cmd_buffer_len" "buffer_ok BUFSIZ"
  by (simp_all add: buffer_ok_def cmd_buffer_len_def BUFSIZ_def)

lemma proc_inv_reset: "proc_inv h \<Longrightarrow> proc_inv (h\<lparr>m_proc_packet_error := e\<rparr>)"
  by (simp add: proc_inv_def)

lemma authenticated_reset [simp]: "authenticated (h\<lparr>m_proc_packet_error := e\<rparr>) = authenticated h"
  by (simp add: authenticated_def check_connection_state_def)

lemma process_step:
  assumes inv: "proc_inv h" and buf: "buffer_ok n" and p: "process n recvs h = Inr (r, h')"
  shows "r \<in> {0, -1} \<and> proc_inv h' \<and> (authenticated h \<longrightarrow> authenticated h') \<and>
    (\<exists>out. ops h' = ops h @ map Send_n out \<and> length out \<le> 1 \<and>
         ((\<exists>x \<in> set out. is_login_ack x) = (\<not> authenticated h \<and> authenticated h')))"
proof -
  let ?h = "h\<lparr>m_proc_packet_error := peNoPacketError\<rparr>"
  have inv': "proc_inv ?h" using inv by (rule proc_inv_reset)
  have "r \<in> {0, -1} \<and> h' = ?h \<or>
      (\<exists>req. length req \<le> constCommandBufferLength + n \<and> answer_request req ?h = (r, h'))"
    using process_loop_result [of "replicate n NUL" "[]" recvs ?h r h'] p buf
    by (simp add: process_def buffer_ok_def)
  then show ?thesis
  proof (elim disjE exE conjE)
    assume "r \<in> {0, -1}" "h' = ?h"
    with inv' show ?thesis by (intro conjI exI [of _ "[]"]) auto
  next
    fix req
    assume len: "length req \<le> constCommandBufferLength + n" and a: "answer_request req ?h = (r, h')"
    have "size_ok req"
      using len buf
      by (simp add: size_ok_def buffer_ok_def cmd_buffer_len_def constCommandBufferLength_def
          npos_def)
    from answer_request_step [OF inv' this a] show ?thesis
      by (auto intro: exI [of _ "[x]" for x])
  qed
qed

section \<open>The session of a connection\<close>

definition proc_sent :: "proc_handler \<Rightarrow> string list" where
  "proc_sent h = replies (ops h)"

lemma replies_map_Send_n [simp]: "replies (map Send_n xs) = xs"
  by (induction xs) auto

lemma process_login_session:
  assumes "buffer_ok n"
  shows "login_session (process n) proc_sent proc_inv authenticated is_login_ack"
proof unfold_locales
  fix h recvs r h' out
  assume a: "proc_inv h" "process n recvs h = Inr (r, h')"
  note step = process_step [OF a(1) assms a(2)]
  show "proc_inv h'" using step by blast
  show "\<exists>out. proc_sent h' = proc_sent h @ out \<and> length out \<le> 1"
    using step by (auto simp: proc_sent_def)
  show "authenticated h \<Longrightarrow> authenticated h'" using step by blast
  show "proc_sent h' = proc_sent h @ out \<Longrightarrow>
      (\<exists>x \<in> set out. is_login_ack x) = (\<not> authenticated h \<and> authenticated h')"
    using step by (auto simp: proc_sent_def)
qed

text \<open>The two buffers: that of \<open>handle_input\<close> and that of \<open>svc\<close>.\<close>

interpretation ps: login_session "process cmd_buffer_len" proc_sent proc_inv authenticated is_login_ack
  by (rule process_login_session [OF buffer_ok_used(1)])

interpretation sv: login_session "process BUFSIZ" proc_sent proc_inv authenticated is_login_ack
  by (rule process_login_session [OF buffer_ok_used(2)])

section \<open>Reassembly of a request\<close>

lemma read_fresh:
  assumes "no_nul c" "length c < n"
  shows "read_c_buffer (recv_into (replicate n NUL) c) = Some c"
proof -
  obtain k where "n - length c = Suc k" using assms(2) by (metis Suc_diff_Suc)
  with assms show ?thesis by (simp add: read_c_buffer_def recv_into_def)
qed

lemma read_stale:
  assumes "no_nul c1" "no_nul c2" "length c1 < n" "length c2 < n" "4 \<le> n"
  shows "read_c_buffer (recv_into (clear4 (recv_into (replicate n NUL) c1)) c2) =
    Some (c2 @ (if 4 \<le> length c2 then drop (length c2) c1 else []))"
proof (cases "4 \<le> length c2")
  case True
  have "n - max (length c1) (length c2) > 0" using assms by simp
  then obtain k where k: "n - max (length c1) (length c2) = Suc k" by (meson gr0_implies_Suc)
  have tail: "drop (length c2) (replicate 4 NUL @ drop 4 (c1 @ replicate (n - length c1) NUL)) =
      drop (length c2) (c1 @ replicate (n - length c1) NUL)"
    using True by simp
  have "drop (length c2) (c1 @ replicate (n - length c1) NUL) =
      drop (length c2) c1 @ replicate (n - max (length c1) (length c2)) NUL"
    using assms by (simp add: max_def)
  with tail k have d: "drop (length c2) (clear4 (c1 @ replicate (n - length c1) NUL)) =
      drop (length c2) c1 @ NUL # replicate k NUL"
    by (simp add: clear4_def)
  have b1: "recv_into (replicate n NUL) c1 = c1 @ replicate (n - length c1) NUL"
    using assms by (simp add: recv_into_def)
  have "length (clear4 (c1 @ replicate (n - length c1) NUL)) = n"
    using assms by (simp add: length_clear4)
  then have buf: "recv_into (clear4 (recv_into (replicate n NUL) c1)) c2 =
      (c2 @ drop (length c2) c1) @ NUL # replicate k NUL"
    using assms by (simp add: recv_into_short d b1)
  have "no_nul (c2 @ drop (length c2) c1)"
    using assms by (auto simp: no_nul_def dest: in_set_dropD)
  then have "c_str ((c2 @ drop (length c2) c1) @ NUL # replicate k NUL) = c2 @ drop (length c2) c1"
    by (rule c_str_append_nul)
  with True show ?thesis unfolding buf by (simp add: read_c_buffer_def)
next
  case False
  then obtain k where k: "4 - length c2 = Suc k" by (metis Suc_diff_Suc not_le)
  have buf: "recv_into (clear4 (recv_into (replicate n NUL) c1)) c2 =
      c2 @ NUL # replicate k NUL @ drop 4 (recv_into (replicate n NUL) c1)"
    using False assms k by (simp add: recv_into_def clear4_def)
  with False assms show ?thesis unfolding buf by (simp add: read_c_buffer_def)
qed

definition plain :: "string \<Rightarrow> bool" where
  \<comment> \<open>text without NUL and without the two characters that end a session\<close>
  "plain s \<longleftrightarrow> s \<noteq> [] \<and> no_nul s \<and> CTRL_C \<notin> set s \<and> CTRL_Z \<notin> set s"

abbreviation reset_error :: "proc_handler \<Rightarrow> proc_handler" where
  "reset_error h \<equiv> h\<lparr>m_proc_packet_error := peNoPacketError\<rparr>"

lemma small_ok: "buffer_ok n \<Longrightarrow> length s \<le> constCommandBufferLength + 2 * n \<Longrightarrow> size_ok s"
  by (simp add: size_ok_def buffer_ok_def cmd_buffer_len_def constCommandBufferLength_def npos_def)

lemma process_one_read:
  assumes "plain c" "length c < n" "buffer_ok n"
    "LF \<in> set c \<or> length c > constCommandBufferLength"
  shows "process n (c # recvs) h = Inr (answer_request c (reset_error h))"
proof -
  have "size_ok c" using assms(2,3) small_ok [of n c] by simp
  with assms show ?thesis
    by (auto simp: process_def read_fresh plain_def str_find_char Let_def)
qed

lemma process_partial_read:
  assumes "plain c" "length c < n" "buffer_ok n" "LF \<notin> set c"
    "length c \<le> constCommandBufferLength"
  shows "process n (c # recvs) h =
    process_loop (clear4 (recv_into (replicate n NUL) c)) c recvs (reset_error h)"
proof -
  have "size_ok c" using assms(2,3) small_ok [of n c] by simp
  with assms show ?thesis
    by (simp add: process_def read_fresh plain_def str_find_char Let_def)
qed

lemma process_two_reads_stale:
  assumes c1: "plain c1" "length c1 < n" "LF \<notin> set c1" "length c1 \<le> constCommandBufferLength"
    and c2: "plain c2" "length c2 < n" "LF \<in> set c2" and n: "buffer_ok n"
  shows "process n (c1 # c2 # recvs) h =
    Inr (answer_request (c1 @ c2 @ (if 4 \<le> length c2 then drop (length c2) c1 else []))
          (reset_error h))"
proof -
  let ?seg = "c2 @ (if 4 \<le> length c2 then drop (length c2) c1 else [])"
  have ok: "size_ok (c1 @ ?seg)" using n c1 c2 by (intro small_ok) auto
  have seg: "read_c_buffer (recv_into (clear4 (recv_into (replicate n NUL) c1)) c2) = Some ?seg"
    using c1 c2 n by (intro read_stale) (simp_all add: plain_def buffer_ok_def)
  have "CTRL_C \<notin> set (c1 @ ?seg)" "CTRL_Z \<notin> set (c1 @ ?seg)"
    using c1 c2 by (auto simp: plain_def dest: in_set_dropD)
  moreover have "LF \<in> set (c1 @ ?seg)" using c2 by simp
  moreover have "c2 \<noteq> []" using c2 by (simp add: plain_def)
  ultimately show ?thesis
    using process_partial_read [OF c1(1,2) n c1(3,4), of "c2 # recvs" h] seg
      str_find_char [OF ok, of CTRL_C] str_find_char [OF ok, of CTRL_Z] str_find_char [OF ok, of LF]
    by (simp add: Let_def del: set_append)
qed

text \<open>The reads after which \<open>process\<close> still waits for the rest of a request.\<close>

definition still_reading :: "nat \<Rightarrow> string list \<Rightarrow> bool" where
  "still_reading n pre \<longleftrightarrow> [] \<notin> set pre \<and> read_request (replicate n NUL) [] pre = Nothing_Read"

lemma read_request_append:
  assumes "read_request b got pre = Nothing_Read" "[] \<notin> set pre" "4 \<le> length b"
  shows "\<exists>b' got'. length b' = length b \<and>
    (\<forall>cs. read_request b got (pre @ cs) = read_request b' got' cs)"
  using assms
proof (induction b got pre rule: read_request.induct)
  case (1 b got)
  then show ?case by auto
next
  case (2 b got chunk pre)
  from 2(2,3) obtain seg where seg: "chunk \<noteq> []" "read_c_buffer (recv_into b chunk) = Some seg"
    by (auto split: option.splits)
  let ?ctrl = "str_find (got @ seg) [CTRL_C] \<noteq> npos \<or> str_find (got @ seg) [CTRL_Z] \<noteq> npos"
  let ?more = "str_find (got @ seg) [LF] = npos \<and> length (got @ seg) \<le> constCommandBufferLength"
  have c: "\<not> ?ctrl"
  proof
    assume ?ctrl
    with 2(2) seg show False by simp
  qed
  then have m: ?more using 2(2) seg by (auto split: if_splits)
  with 2(2) seg c have "read_request (clear4 (recv_into b chunk)) (got @ seg) pre = Nothing_Read" by auto
  from 2(1) [OF seg c m this] 2(3,4) obtain b' got' where "length b' = length b"
    "\<forall>cs. read_request (clear4 (recv_into b chunk)) (got @ seg) (pre @ cs) = read_request b' got' cs"
    by (auto simp: length_clear4)
  moreover have "read_request b got ((chunk # pre) @ cs) =
      read_request (clear4 (recv_into b chunk)) (got @ seg) (pre @ cs)" for cs
    using seg c m by auto
  ultimately show ?case by auto
qed

lemma full_read:
  assumes "still_reading n pre" "4 \<le> n" "n \<le> length c"
  shows "NUL \<notin> set (take n c) \<Longrightarrow> process n (pre @ c # post) h = Inl Overread"
    and "NUL \<in> set (take n c) \<Longrightarrow> \<exists>r h'. process n (pre @ [c]) h = Inr (r, h')"
proof -
  obtain b' got' where b: "length b' = n"
    "\<And>cs. read_request (replicate n NUL) [] (pre @ cs) = read_request b' got' cs"
    using read_request_append [of "replicate n NUL" "[]" pre] assms(1,2) by (auto simp: still_reading_def)
  have r: "recv_into b' c = take n c" using assms(3) b(1) by (simp add: recv_into_def)
  have "c \<noteq> []" using assms by auto
  then show "NUL \<notin> set (take n c) \<Longrightarrow> process n (pre @ c # post) h = Inl Overread"
    by (simp add: process_def process_loop_outcome b(2) r read_c_buffer_def)
  have "read_request b' got' [c] \<noteq> Read_Overrun" if "NUL \<in> set (take n c)"
    using that by (auto simp: r read_c_buffer_def)
  then show "NUL \<in> set (take n c) \<Longrightarrow> \<exists>r h'. process n (pre @ [c]) h = Inr (r, h')"
    by (auto simp: process_def process_loop_outcome b(2) split: read_outcome.splits)
      (metis surj_pair)
qed

text \<open>
  A full read that contains a NUL is not the end of it: what it leaves in the buffer can make a
  later read run past the end although it does not fill the buffer itself.
\<close>

lemma full_read_overreads_later:
  assumes "4 \<le> m" "c \<noteq> NUL"
  shows "process (Suc m) [NUL # replicate m c, replicate 4 c] h = Inl Overread"
proof -
  let ?b = "NUL # replicate m c"
  have r: "recv_into (replicate (Suc m) NUL) ?b = ?b" by (simp add: recv_into_def)
  have cl: "clear4 ?b = replicate 4 NUL @ replicate (m - 3) c"
    by (simp add: clear4_def drop_Cons numeral_eq_Suc)
  have "recv_into (clear4 ?b) (replicate 4 c) = replicate 4 c @ replicate (m - 3) c"
    unfolding cl by (simp add: recv_into_def)
  then have "NUL \<notin> set (recv_into (clear4 ?b) (replicate 4 c))" using assms(2) by auto
  then have later: "read_c_buffer (recv_into (clear4 ?b) (replicate 4 c)) = None"
    by (simp add: read_c_buffer_def)
  have first: "read_c_buffer ?b = Some []" by (simp add: read_c_buffer_def c_str_def)
  have none: "str_find [] [x] = npos" for x by (simp add: str_find_def search_single)
  have "read_request (replicate (Suc m) NUL) [] [?b, replicate 4 c] = Read_Overrun"
    using later by (simp add: r first none del: replicate.simps)
  then show ?thesis by (simp add: process_def process_loop_outcome del: replicate.simps read_request.simps)
qed

lemma process_loop_no_fault:
  assumes "\<forall>c \<in> set recvs. length c < length rdbuf" "rdbuf \<noteq> []" "last rdbuf = NUL"
    "4 < length rdbuf"
  shows "\<exists>r h'. process_loop rdbuf ostr recvs h = Inr (r, h')"
  using assms
proof (induction recvs arbitrary: rdbuf ostr)
  case Nil
  then show ?case by simp
next
  case (Cons c recvs)
  let ?b = "recv_into rdbuf c"
  have b: "?b \<noteq> []" "last ?b = NUL" "length ?b = length rdbuf"
    using Cons.prems by (auto simp: recv_into_def)
  then have "NUL \<in> set ?b" by (metis last_in_set)
  then obtain seg where seg: "read_c_buffer ?b = Some seg" by (simp add: read_c_buffer_def)
  have b4: "clear4 ?b \<noteq> []" "last (clear4 ?b) = NUL" "length (clear4 ?b) = length rdbuf"
    using b Cons.prems(4) by (simp_all add: clear4_def)
  obtain r h' where rest: "process_loop (clear4 ?b) (ostr @ seg) recvs h = Inr (r, h')"
    using Cons.IH [of "clear4 ?b" "ostr @ seg"] b4 Cons.prems by auto
  obtain r2 h2 where "answer_request (ostr @ seg) h = (r2, h2)" by fastforce
  with rest seg show ?case by (simp add: Let_def)
qed

lemma process_no_fault:
  assumes "\<forall>c \<in> set recvs. length c < n" "4 < n"
  shows "\<exists>r h'. process n recvs h = Inr (r, h')"
  unfolding process_def
  by (rule process_loop_no_fault) (use assms in auto)

end
