(* ===== verification/Proc_Reactor.thy ===== *)
theory Proc_Reactor
  imports Proc_Facts "HOL-Library.Signed_Division"
begin

text \<open>
  The side of \<open>proc_handler\<close> that the ACE framework calls
  (cci_daemon/src/procs/proc_ace_handler.cpp): \<open>open\<close>, \<open>close\<close>, \<open>handle_input\<close>,
  \<open>handle_close\<close>, \<open>handle_timeout\<close>, \<open>svc\<close> and the destruction of the handler. What ACE
  answers to the calls a handler makes is an argument, the record \<open>ace_env\<close>. The thread
  of a connection, \<open>svc\<close>, loops for ever, so it is a partial function: \<open>None\<close> is a call
  that never returns.
\<close>

section \<open>The answers of ACE\<close>

record ace_env =
  e_schedule_timer :: int      \<comment> \<open>\<open>reactor()->schedule_timer\<close>: the timer token\<close>
  e_get_remote_addr :: int     \<comment> \<open>\<open>peer().get_remote_addr\<close>: 0, or -1\<close>
  e_addr_string :: string      \<comment> \<open>what \<open>addr.addr_to_string\<close> writes\<close>
  e_host_name :: string        \<comment> \<open>\<open>addr.get_host_name()\<close>\<close>
  e_register_handler :: int
  e_activate :: int
  e_enqueue :: int
  e_now :: int                 \<comment> \<open>\<open>timer_queue()->gettimeofday()\<close>, in microseconds\<close>
  e_self :: nat                \<comment> \<open>\<open>ACE_Thread::self()\<close>\<close>
  e_closes :: bool             \<comment> \<open>\<open>remove_handler\<close> without DONT_CALL calls \<open>handle_close\<close>\<close>

type_synonym handler_result = "fault + int \<times> proc_handler"

section \<open>Destruction\<close>

definition destructor :: "proc_handler \<Rightarrow> proc_handler" where
  "destructor h = log_op Peer_Close h"

definition destroy :: "proc_handler \<Rightarrow> fault + proc_handler" where
  "destroy h =
     (if deleted h then Inl Use_After_Free
      else let h = log_op (Remove_Handler True) h
           in Inr (destructor (log_op Delete_This h)\<lparr>deleted := True\<rparr>))"

definition close :: "proc_handler \<Rightarrow> handler_result" where
  "close h = (case destroy h of Inl f \<Rightarrow> Inl f | Inr h \<Rightarrow> Inr (0, h))"

section \<open>The accessors of the acceptor\<close>

definition concurrency :: "proc_handler \<Rightarrow> fault + concurrency_t" where
  "concurrency h =
     (case m_proc_acceptor h of None \<Rightarrow> Inl Null_Deref | Some c \<Rightarrow> Inr c)"

definition enqueue_self :: "ace_env \<Rightarrow> proc_handler \<Rightarrow> handler_result" where
  \<comment> \<open>\<open>thread_pool()->enqueue( this )\<close>\<close>
  "enqueue_self env h =
     (case m_proc_acceptor h of
        None \<Rightarrow> Inl Null_Deref
      | Some _ \<Rightarrow> Inr (e_enqueue env, log_op Pool_Enqueue h))"

definition client_addr :: "ace_env \<Rightarrow> string" where
  "client_addr env = c_str (e_addr_string env)"

section \<open>Opening a connection\<close>

definition void_ptr :: "16 word \<Rightarrow> 64 word" where
  \<comment> \<open>\<open>(void*) timer_id\<close>: the number itself becomes the address\<close>
  "void_ptr w = ucast w"

definition silent :: "bool \<Rightarrow> proc_handler \<Rightarrow> proc_handler" where
  "silent b h = h\<lparr>m_bSilent := b\<rparr>"

definition open_handler :: "ace_env \<Rightarrow> concurrency_t option \<Rightarrow> proc_handler \<Rightarrow> handler_result"
where
  "open_handler env accept h =
     (let h = output_boiler_plate h;
          h = map_commands h;
          h = silent False h;
          h = h\<lparr>m_proc_acceptor := accept\<rparr>;
          reschedule = time_value (tv_sec (m_maximumTimeToWait h) sdiv 60);
          h = log_op (Schedule_Timer (void_ptr timer_id) (m_maximumTimeToWait h) reschedule) h;
          h = h\<lparr>m_dwTimerToken := e_schedule_timer env\<rparr>
      in case concurrency h of
           Inl f \<Rightarrow> Inl f
         | Inr c \<Rightarrow>
             if c = thread_per_connection
             then Inr (e_activate env, log_op Activate_Detached h)
             else let h = log_op Set_Reactor h
                  in if e_get_remote_addr env = -1 then Inr (-1, h)
                     else let h = log_op Register_Handler h
                          in if e_register_handler env = -1 then Inr (-1, h)
                             else Inr (0, log_op (Log_Line (''connected with ''
                                    @ e_host_name env)) h))"

section \<open>Upcalls of the reactor\<close>

definition handle_close :: "ace_env \<Rightarrow> proc_handler \<Rightarrow> handler_result" where
  "handle_close env h =
     (if deleted h then Inl Use_After_Free
      else let h = stream ('' * goodbye '' @ client_addr env
                     @ ''......chromatic unvierse cci-daemon-dispatcher'' @ crlf) h;
               h = flush_stream_to_connector h
           in case destroy h of Inl f \<Rightarrow> Inl f | Inr h \<Rightarrow> Inr (0, h))"

definition remove_read :: "ace_env \<Rightarrow> proc_handler \<Rightarrow> fault + proc_handler" where
  \<comment> \<open>\<open>reactor()->remove_handler( this , READ_MASK )\<close>, with the upcall ACE makes\<close>
  "remove_read env h =
     (let h = log_op (Remove_Handler False) h
      in if e_closes env then map_sum id snd (handle_close env h) else Inr h)"

definition handle_timeout ::
    "ace_env \<Rightarrow> (64 word \<Rightarrow> 16 word option) \<Rightarrow> int \<Rightarrow> 64 word \<Rightarrow> proc_handler \<Rightarrow> handler_result"
where
  \<comment> \<open>\<open>mem\<close>: the 16-bit values in memory; \<open>act\<close>: the pointer given to schedule_timer\<close>
  "handle_timeout env mem now act h =
     (case (if act = 0 then None else mem act) of
        None \<Rightarrow> Inl Null_Deref
      | Some sui \<Rightarrow>
          if sui = timer_id
          then if now - m_lastActivityTime h \<ge> m_maximumTimeToWait h
               then let h = log_op (Log_Line (client_addr env @ '' timed out'')) h;
                        h = stream ('' autologout; idle for too long'' @ crlf) h;
                        h = flush_stream_to_connector h
                    in case remove_read env h of
                         Inl f \<Rightarrow> Inl f
                       | Inr h \<Rightarrow>
                           (case destroy h of Inl f \<Rightarrow> Inl f | Inr h \<Rightarrow> Inr (0, h))
               else Inr (0, h)
          else Inr (0, h))"

definition handle_input :: "ace_env \<Rightarrow> string list \<Rightarrow> proc_handler \<Rightarrow> handler_result" where
  \<comment> \<open>\<open>recvs\<close>: what the recv calls of \<open>process\<close> deliver\<close>
  "handle_input env recvs h =
     (let h = h\<lparr>m_lastActivityTime := e_now env\<rparr>
      in case concurrency h of
           Inl f \<Rightarrow> Inl f
         | Inr c \<Rightarrow>
             if c = thread_pool \<and> e_self env = creator h
             then enqueue_self env (log_op (Remove_Handler True) h)
             else (case process cmd_buffer_len recvs h of
                     Inl f \<Rightarrow> Inl f
                   | Inr (rval, h) \<Rightarrow>
                       if c = thread_pool \<and> rval \<noteq> -1
                       then Inr (rval, log_op Register_Handler h)
                       else Inr (rval, h)))"

section \<open>The thread of a connection\<close>

partial_function (option) svc_loop ::
    "(nat \<Rightarrow> string list) \<Rightarrow> nat \<Rightarrow> proc_handler \<Rightarrow> handler_result option" where
  "svc_loop inp i h =
     (case process BUFSIZ (inp i) h of
        Inl f \<Rightarrow> Some (Inl f)
      | Inr (r, h') \<Rightarrow> if r = -1 then Some (Inr (-1, h')) else svc_loop inp (Suc i) h')"

definition svc :: "(nat \<Rightarrow> string list) \<Rightarrow> proc_handler \<Rightarrow> handler_result option" where
  \<comment> \<open>\<open>inp i\<close>: what the recv calls of the i-th round deliver\<close>
  "svc inp h = svc_loop inp 0 h"

section \<open>A connection after open\<close>

definition greeting :: "string \<Rightarrow> string" where
  "greeting host = ''* OK cci-dispatch daemon speaking.... '' @ host
     @ '' chromatic universe 2017 all rights reserved  ready'' @ crlf"

lemma greeting_no_ack: "\<not> is_login_ack (greeting host)"
proof
  assume "is_login_ack (greeting host)"
  then show False
    by (auto simp: is_login_ack_def greeting_def suffix_to_prefix crlf_def)
qed

lemma open_handler_cases:
  assumes "open_handler env accept (new_proc_handler host self mx) = Inr (r, h)"
  shows "accept \<noteq> None \<and> proc_inv h \<and> \<not> authenticated h \<and> \<not> deleted h \<and>
    proc_sent h = [greeting (c_str host)] \<and> m_proc_acceptor h = accept \<and> creator h = self \<and>
    m_maximumTimeToWait h = mx \<and>
    Schedule_Timer (void_ptr timer_id) mx (time_value (tv_sec mx sdiv 60)) \<in> set (ops h)"
  using assms
  by (auto simp: open_handler_def output_boiler_plate_def map_commands_def silent_def
      new_proc_handler_def stream_def output_prompt_def flush_stream_to_connector_def
      concurrency_def proc_inv_def authenticated_def check_connection_state_def proc_sent_def
      greeting_def log_op_def Let_def split: option.splits if_splits)

section \<open>The thread of a connection and its session\<close>

lemma svc_loop_serve:
  "serve (process BUFSIZ) (map inp [i..<i + n]) h = Inr (True, h') \<Longrightarrow>
   svc_loop inp i h = Some (Inr (-1, h'))"
proof (induction n arbitrary: i h)
  case 0
  then show ?case by simp
next
  case (Suc n)
  have up: "[i..<i + Suc n] = i # [Suc i..<Suc i + n]" by (simp add: upt_conv_Cons)
  from Suc show ?case
    unfolding up by (subst svc_loop.simps) (auto split: sum.splits if_splits prod.splits)
qed

definition served :: "(nat \<Rightarrow> string list) \<Rightarrow> nat \<Rightarrow> proc_handler \<Rightarrow> handler_result \<Rightarrow> bool" where
  \<comment> \<open>some number of rounds from the i-th on ends with this result\<close>
  "served inp i h res \<longleftrightarrow>
     (\<exists>n. serve (process BUFSIZ) (map inp [i..<i + n]) h =
        (case res of Inl f \<Rightarrow> Inl f | Inr (_, h') \<Rightarrow> Inr (True, h'))) \<and>
     (\<forall>r h'. res = Inr (r, h') \<longrightarrow> r = -1)"

lemma served_now:
  "process BUFSIZ (inp i) h = Inl f \<Longrightarrow> served inp i h (Inl f)"
  "process BUFSIZ (inp i) h = Inr (-1, h') \<Longrightarrow> served inp i h (Inr (-1, h'))"
  unfolding served_def by (auto intro!: exI [of _ 1])

lemma served_later:
  assumes "process BUFSIZ (inp i) h = Inr (r, h1)" "r \<noteq> -1" "served inp (Suc i) h1 res"
  shows "served inp i h res"
proof -
  obtain n where n: "serve (process BUFSIZ) (map inp [Suc i..<Suc i + n]) h1 =
      (case res of Inl f \<Rightarrow> Inl f | Inr (_, h') \<Rightarrow> Inr (True, h'))"
    using assms(3) unfolding served_def by blast
  have up: "[i..<i + Suc n] = i # [Suc i..<Suc i + n]" by (simp add: upt_conv_Cons)
  have "serve (process BUFSIZ) (map inp [i..<i + Suc n]) h =
      (case res of Inl f \<Rightarrow> Inl f | Inr (_, h') \<Rightarrow> Inr (True, h'))"
    unfolding up using n assms(1,2) by simp
  with assms(3) show ?thesis unfolding served_def by blast
qed

lemma svc_loop_ends:
  assumes "svc_loop inp i h = Some res"
  shows "served inp i h res"
proof (rule svc_loop.raw_induct [where P = served, OF _ assms])
  fix loop inp i h res
  assume IH: "\<And>i h b y. loop i h b = Some y \<Longrightarrow> served i h b y"
    and body: "(case process BUFSIZ (inp i) h of
        Inl f \<Rightarrow> Some (Inl f)
      | Inr (r, h') \<Rightarrow> if r = -1 then Some (Inr (-1, h')) else loop inp (Suc i) h') = Some res"
  show "served inp i h res"
  proof (cases "process BUFSIZ (inp i) h")
    case (Inl f)
    with body show ?thesis by (auto intro: served_now)
  next
    case (Inr p)
    obtain r h1 where p: "p = (r, h1)" by fastforce
    show ?thesis
    proof (cases "r = -1")
      case True
      with body Inr p show ?thesis by (auto intro: served_now)
    next
      case False
      with body Inr p have "loop inp (Suc i) h1 = Some res" by simp
      with Inr p False show ?thesis by (auto intro: served_later IH)
    qed
  qed
qed

section \<open>How a session ends\<close>

text \<open>
  process returns -1 only when one of the two control characters is in what was read: the
  logout branch is unreachable, because no command sets it.
\<close>

definition control :: "string list \<Rightarrow> bool" where
  "control recvs \<longleftrightarrow> (\<exists>c \<in> set recvs. CTRL_C \<in> set c \<or> CTRL_Z \<in> set c)"

lemma read_c_buffer_set: "read_c_buffer buf = Some seg \<Longrightarrow> set seg \<subseteq> set buf"
  by (auto simp: read_c_buffer_def c_str_def dest: in_set_takeWhileI split: if_splits)

lemma recv_into_set: "set (recv_into buf c) \<subseteq> set buf \<union> set c"
  by (auto simp: recv_into_def dest: in_set_takeD in_set_dropD)

lemma clear4_set: "set (clear4 buf) \<subseteq> insert NUL (set buf)"
  by (auto simp: clear4_def dest: in_set_dropD)

lemma process_loop_control:
  assumes "process_loop rdbuf ostr recvs h = Inr (-1, h')" "proc_inv h" "4 \<le> length rdbuf"
    "length rdbuf \<le> cmd_buffer_len" "length ostr \<le> constCommandBufferLength"
    "CTRL_C \<notin> set rdbuf \<union> set ostr" "CTRL_Z \<notin> set rdbuf \<union> set ostr"
  shows "control recvs"
  using assms
proof (induction recvs arbitrary: rdbuf ostr)
  case Nil
  then show ?case by simp
next
  case (Cons c recvs)
  show ?case
  proof (rule ccontr)
    assume nc: "\<not> control (c # recvs)"
    then have c: "CTRL_C \<notin> set c" "CTRL_Z \<notin> set c" "\<not> control recvs"
      by (simp_all add: control_def)
    let ?b = "recv_into rdbuf c"
    have ne: "c \<noteq> []" using Cons.prems(1) by auto
    with Cons.prems(1) obtain seg where seg: "read_c_buffer ?b = Some seg"
      by (auto simp: Let_def split: option.splits)
    let ?o = "ostr @ seg"
    have clean: "CTRL_C \<notin> set ?b \<union> set ?o" "CTRL_Z \<notin> set ?b \<union> set ?o"
      using Cons.prems(6,7) c read_c_buffer_set [OF seg] recv_into_set [of rdbuf c] by auto
    have len: "length seg \<le> length rdbuf" using read_c_buffer_length [OF seg] by simp
    with Cons.prems(4,5) have ok: "size_ok ?o"
      by (simp add: size_ok_def cmd_buffer_len_def constCommandBufferLength_def npos_def)
    have noctrl: "str_find ?o [CTRL_C] = npos" "str_find ?o [CTRL_Z] = npos"
      using clean str_find_char [OF ok] by auto
    show False
    proof (cases "str_find ?o [LF] = npos \<and> length ?o \<le> constCommandBufferLength")
      case True
      with Cons.prems(1) ne seg noctrl
      have "process_loop (clear4 ?b) ?o recvs h = Inr (-1, h')" by (simp add: Let_def)
      moreover have "CTRL_C \<notin> set (clear4 ?b)" "CTRL_Z \<notin> set (clear4 ?b)"
        using clear4_set [of ?b] clean by auto
      ultimately have "control recvs"
        using Cons.IH [of "clear4 ?b" ?o] Cons.prems(2,3,4) True clean
        by (simp add: length_clear4)
      with c show False by simp
    next
      case False
      with Cons.prems(1) ne seg noctrl have "answer_request ?o h = (-1, h')"
        by (auto simp: Let_def)
      from answer_request_step [OF Cons.prems(2) ok this] show False by simp
    qed
  qed
qed

lemma process_control:
  assumes "process n recvs h = Inr (-1, h')" "proc_inv h" "buffer_ok n"
  shows "control recvs"
proof -
  have "process_loop (replicate n NUL) [] recvs (reset_error h) = Inr (-1, h')"
    using assms(1) by (simp add: process_def)
  then show ?thesis
    by (rule process_loop_control)
      (use assms in \<open>auto simp: buffer_ok_def intro: proc_inv_reset\<close>)
qed

lemma serve_control:
  "\<lbrakk>serve (process n) rs h = Inr (True, h'); proc_inv h; buffer_ok n\<rbrakk> \<Longrightarrow> \<exists>r \<in> set rs. control r"
proof (induction rs arbitrary: h)
  case Nil
  then show ?case by simp
next
  case (Cons i rs)
  from Cons.prems(1) obtain r t where t: "process n i h = Inr (r, t)"
    by (auto split: sum.splits)
  show ?case
  proof (cases "r = -1")
    case True
    with t Cons.prems process_control show ?thesis by auto
  next
    case False
    with t Cons.prems(1) have "serve (process n) rs t = Inr (True, h')" by simp
    moreover have "proc_inv t" using process_step [OF Cons.prems(2,3) t] by simp
    ultimately show ?thesis using Cons.IH Cons.prems(3) by auto
  qed
qed

section \<open>A concrete environment\<close>

definition sample_env :: ace_env where
  "sample_env = \<lparr>e_schedule_timer = 7, e_get_remote_addr = 0, e_addr_string = ''10.0.0.9:4711'',
     e_host_name = ''client'', e_register_handler = 0, e_activate = 0, e_enqueue = 0,
     e_now = 0, e_self = 1, e_closes = True\<rparr>"

end
