(* ===== verification/Proc_Spec.thy ===== *)
theory Proc_Spec
  imports Proc_Facts
begin

text \<open>
  An abstract specification of the dispatcher protocol and the proof that the handler
  implements it. The abstract state of a connection is the last token a client sent and
  whether it has logged in; a request is judged by its words alone, without positions,
  buffers or the multimap of parts.
\<close>

section \<open>The specification\<close>

definition words_of :: "string \<Rightarrow> (string \<times> string) option" where
  \<comment> \<open>the text before and after the first space\<close>
  "words_of s =
     (case dropWhile (\<lambda>c. c \<noteq> SPACE) s of
        [] \<Rightarrow> None
      | _ # rest \<Rightarrow> Some (takeWhile (\<lambda>c. c \<noteq> SPACE) s, rest))"

definition strip_end :: "string \<Rightarrow> string" where
  \<comment> \<open>drops a final line feed with the character before it\<close>
  "strip_end s = (if s \<noteq> [] \<and> last s = LF \<and> length s > 1 then butlast (butlast s) else s)"

definition command_word :: "string \<Rightarrow> string" where
  "command_word s = (case words_of s of None \<Rightarrow> strip_end s | Some (w, _) \<Rightarrow> w)"

definition judge :: "string \<Rightarrow> string \<Rightarrow> bool \<Rightarrow> string \<times> proc_packet_error option" where
  \<comment> \<open>the token the connection keeps, and the error, if the request is refused\<close>
  "judge req tok authed =
     (if req = [] then (tok, Some peInvalidPayload)
      else case words_of req of
        None \<Rightarrow> (tok, Some peNoCommand)
      | Some (t, rest) \<Rightarrow>
          if length t > constMaxTokenLength then (tok, Some peTokenTooLong)
          else if rest = [] then (t, Some peInvalidSyntax)
          else if map tolower (command_word rest) \<noteq> ''login'' then (t, Some peUnrecognizedCommand)
          else (t, if authed then Some peAlreadyAuthenticated else None))"

definition spec_step :: "string \<Rightarrow> string \<times> bool \<Rightarrow> string \<times> (string \<times> bool)" where
  "spec_step req st =
     (let (tok, authed) = st; (tok', verdict) = judge req tok authed
      in (if short_line req then []
          else case verdict of None \<Rightarrow> login_reply tok' | Some e \<Rightarrow> error_reply tok' e,
          (tok', authed \<or> verdict = None)))"

definition spec_of :: "proc_handler \<Rightarrow> string \<times> bool" where
  "spec_of h = (m_strToken h, authenticated h)"

section \<open>Positions and words\<close>

lemma first_index_takeWhile:
  "first_index P s =
     (if \<exists>x \<in> set s. P x then Some (length (takeWhile (\<lambda>c. \<not> P c) s)) else None)"
  by (induction s) auto

lemma words_of_None: "words_of s = None \<longleftrightarrow> SPACE \<notin> set s"
proof -
  have "words_of s = None \<longleftrightarrow> dropWhile (\<lambda>c. c \<noteq> SPACE) s = []"
    by (cases "dropWhile (\<lambda>c. c \<noteq> SPACE) s")
      (simp_all add: words_of_def del: dropWhile_eq_Nil_conv)
  then show ?thesis by (auto simp: dropWhile_eq_Nil_conv)
qed

lemma words_of_Some: "words_of s = Some (w, r) \<longleftrightarrow> s = w @ SPACE # r \<and> SPACE \<notin> set w"
proof
  assume a: "words_of s = Some (w, r)"
  then obtain c where d: "dropWhile (\<lambda>c. c \<noteq> SPACE) s = c # r"
      and w: "w = takeWhile (\<lambda>c. c \<noteq> SPACE) s"
    by (auto simp: words_of_def split: list.splits)
  have "c = SPACE" using hd_dropWhile [of "\<lambda>c. c \<noteq> SPACE" s] d by simp
  moreover have "s = w @ c # r" using takeWhile_dropWhile_id [of "\<lambda>c. c \<noteq> SPACE" s] d w by simp
  moreover have "SPACE \<notin> set w" unfolding w by (auto dest: set_takeWhileD)
  ultimately show "s = w @ SPACE # r \<and> SPACE \<notin> set w" by simp
next
  assume "s = w @ SPACE # r \<and> SPACE \<notin> set w"
  then show "words_of s = Some (w, r)"
    by (auto simp: words_of_def dropWhile_append takeWhile_append2 split: list.splits)
qed

lemma strip_end_rtrimlast: "size_ok s \<Longrightarrow> rtrimlast s [LF] = strip_end s"
proof (cases "s \<noteq> [] \<and> last s = LF")
  case False
  assume "size_ok s"
  with False show ?thesis
    by (cases "s = []") (simp_all add: strip_end_def rtrimlast_not_last, simp add: rtrimlast_def)
next
  case True
  assume ok: "size_ok s"
  from True obtain a where a: "s = a @ [LF]" by (metis append_butlast_last_id)
  show ?thesis
  proof (cases a rule: rev_cases)
    case Nil
    with a show ?thesis by (simp add: strip_end_def rtrimlast_def find_last_of_def c_str_def
        substr_def)
  next
    case (snoc b x)
    with a ok rtrimlast_LF [of b x] show ?thesis by (simp add: strip_end_def butlast_append)
  qed
qed

lemma parse_rest_command_word:
  "size_ok s \<Longrightarrow> mm_find parts ppCommand = None \<Longrightarrow>
   mm_find (snd (parse_rest s parts h)) ppCommand = Some (command_word s)"
proof (cases "words_of s")
  case None
  assume ok: "size_ok s" and new: "mm_find parts ppCommand = None"
  have "find_first_of s [SPACE] = npos"
    using None by (intro find_space_none) (simp add: words_of_None)
  with None ok new show ?thesis
    by (simp add: parse_rest_def space_literal strip_end_rtrimlast command_word_def
        mm_find_insert_new Let_def)
next
  case (Some p)
  assume ok: "size_ok s" and new: "mm_find parts ppCommand = None"
  obtain w r where p: "p = (w, r)" by fastforce
  with Some have s: "s = w @ SPACE # r" "SPACE \<notin> set w" by (simp_all add: words_of_Some)
  have "length w \<noteq> npos" using ok s by (simp add: size_ok_def)
  with s find_space_append [OF s(2), of r] Some p new show ?thesis
    by (simp add: parse_rest_def space_literal command_word_def Let_def substr_def
        mm_find_insert_new mm_find_insert_other)
qed

section \<open>The handler implements the specification\<close>

text \<open>What the parser leaves behind, in the words of the specification.\<close>

lemma parse_command_judge:
  assumes "size_ok req" "req \<noteq> []" and p: "parse_command req [] h = (h1, parts)"
  shows "case words_of req of
      None \<Rightarrow> h1 = h\<lparr>m_proc_packet_error := peNoCommand\<rparr>
    | Some (t, rest) \<Rightarrow>
        if length t > constMaxTokenLength then h1 = h\<lparr>m_proc_packet_error := peTokenTooLong\<rparr>
        else if rest = [] then h1 = h\<lparr>m_strToken := t, m_proc_packet_error := peInvalidSyntax\<rparr>
        else mm_find parts ppCommand = Some (command_word rest) \<and>
          (\<exists>c. h1 = h\<lparr>m_strToken := t, m_strCommand := c, m_proc_packet_error := peNoPacketError\<rparr>)"
proof (cases "words_of req")
  case None
  then have "find_first_of req [SPACE] = npos"
    by (intro find_space_none) (simp add: words_of_None)
  with None assms(2) p show ?thesis by (simp add: parse_command_def space_literal)
next
  case (Some w)
  obtain t rest where w: "w = (t, rest)" by fastforce
  with Some have req: "req = t @ SPACE # rest" "SPACE \<notin> set t" by (simp_all add: words_of_Some)
  have "length t \<noteq> npos" and ok_rest: "size_ok rest"
    using assms(1) req by (simp_all add: size_ok_def)
  then have pc: "parse_command req [] h =
      (if length t > constMaxTokenLength then (h\<lparr>m_proc_packet_error := peTokenTooLong\<rparr>, [])
       else if rest = []
       then (h\<lparr>m_strToken := t, m_proc_packet_error := peInvalidSyntax\<rparr>, [(ppToken, t)])
       else parse_rest rest [(ppToken, t)] (h\<lparr>m_strToken := t\<rparr>))"
    using req(1) find_space_append [OF req(2), of rest]
    by (simp add: parse_command_def space_literal substr_def substr_from_def Let_def)
  let ?r = "parse_rest rest [(ppToken, t)] (h\<lparr>m_strToken := t\<rparr>)"
  have "\<exists>c. fst ?r = h\<lparr>m_strToken := t, m_strCommand := c, m_proc_packet_error := peNoPacketError\<rparr>"
    using parse_rest_frame by fastforce
  moreover have "mm_find (snd ?r) ppCommand = Some (command_word rest)"
    by (rule parse_rest_command_word [OF ok_rest]) (simp add: mm_find_def)
  ultimately show ?thesis using Some w p pc by auto
qed

lemma perform_judge:
  assumes "m_command_map h = [''login'' \<mapsto> Some On_login]" and ok: "size_ok req"
    and j: "judge req (m_strToken h) (authenticated h) = (tok, v)"
  shows "m_strToken (perform req h) = tok \<and>
    (case v of
       None \<Rightarrow> m_proc_packet_error (perform req h) = peNoPacketError \<and>
         m_ostr (perform req h) = m_ostr h @ login_reply tok
     | Some e \<Rightarrow> m_proc_packet_error (perform req h) = e \<and> e \<noteq> peNoPacketError \<and>
         m_ostr (perform req h) = m_ostr h) \<and>
    authenticated (perform req h) = (authenticated h \<or> v = None)"
proof (cases "req = []")
  case True
  with j show ?thesis by (auto simp: judge_def perform_def)
next
  case ne: False
  obtain h1 parts where p: "parse_command req [] h = (h1, parts)" by fastforce
  note pj = parse_command_judge [OF ok ne p]
  show ?thesis
  proof (cases "words_of req")
    case None
    with pj p ne j show ?thesis
      by (auto simp: judge_def perform_def authenticated_def check_connection_state_def)
  next
    case (Some w)
    obtain t rest where w: "w = (t, rest)" by fastforce
    show ?thesis
    proof (cases "length t > constMaxTokenLength \<or> rest = []")
      case True
      with pj p ne j Some w show ?thesis
        by (auto simp: judge_def perform_def authenticated_def check_connection_state_def
            split: if_splits)
    next
      case False
      then obtain c where h1: "h1 = h\<lparr>m_strToken := t, m_strCommand := c,
          m_proc_packet_error := peNoPacketError\<rparr>"
          and cmd: "mm_find parts ppCommand = Some (command_word rest)"
        using pj Some w by auto
      have "perform req h = (if lcase (command_word rest) = ''login''
          then snd (on_login (case mm_find parts ppPayload of Some p \<Rightarrow> p | None \<Rightarrow> []) h1)
          else h1\<lparr>m_proc_packet_error := peUnrecognizedCommand\<rparr>)"
        using ne p assms(1) cmd h1 by (simp add: perform_def)
      with j Some w ne False show ?thesis
        by (auto simp: judge_def lower.is_map on_login_cases h1 authenticated_def
            check_connection_state_def split: if_splits)
    qed
  qed
qed

lemma spec_of_reset [simp]: "spec_of (reset_error h) = spec_of h"
  by (simp add: spec_of_def)

lemma token_send [simp]: "m_strToken (send_reply x h) = m_strToken h"
  by (simp add: send_reply_def)

lemma spec_of_send [simp]: "spec_of (send_reply x h) = spec_of h"
  by (simp add: spec_of_def)

lemma perform_frame:
  assumes "proc_inv h"
  shows "\<not> m_bSilent (perform req h) \<and> m_current_command (perform req h) \<noteq> proc_logout \<and>
    ops (perform req h) = ops h"
proof -
  have "refused h (perform req h) \<or> logged_in h (perform req h)"
    using perform_cases [of h req] assms by (auto simp: proc_inv_def)
  with assms show ?thesis
    by (auto simp: proc_inv_def elim!: refusedE logged_inE)
qed

lemma short_line_refused: "short_line req \<Longrightarrow> proc_inv h \<Longrightarrow> refused h (perform req h)"
  using perform_cases [of h req] by (auto simp: proc_inv_def short_line_def)

lemma answer_request_refines:
  assumes inv: "proc_inv h" and ok: "size_ok req"
  shows "\<exists>h'. answer_request req h = (0, h') \<and>
    ops h' = ops h @ [Send_n (fst (spec_step req (spec_of h)))] \<and>
    spec_of h' = snd (spec_step req (spec_of h))"
proof -
  obtain tok v where j: "judge req (m_strToken h) (authenticated h) = (tok, v)" by fastforce
  let ?h = "perform req h"
  have q: "m_ostr h = []" using inv by (simp add: proc_inv_def)
  have "m_command_map h = [''login'' \<mapsto> Some On_login]" using inv by (simp add: proc_inv_def)
  note pj = perform_judge [OF this ok j]
  have fr: "\<not> m_bSilent ?h" "m_current_command ?h \<noteq> proc_logout" "ops ?h = ops h"
    using perform_frame [OF inv, of req] by simp_all
  have st: "spec_of ?h = snd (spec_step req (spec_of h))"
    using j pj by (simp add: spec_of_def spec_step_def)
  show ?thesis
  proof (cases "short_line req")
    case True
    have "m_ostr ?h = []" using refused_sel [OF short_line_refused [OF True inv]] q by simp
    from answer_short [OF ok True refl fr(1) this] True st fr(3) show ?thesis
      by (simp add: spec_step_def split_beta)
  next
    case False
    show ?thesis
    proof (cases v)
      case None
      with answer_ok [OF ok False refl fr(1,2)] pj False j q st fr(3) show ?thesis
        by (simp add: spec_step_def spec_of_def)
    next
      case (Some e)
      then have "m_ostr ?h = []" "m_proc_packet_error ?h = e" "e \<noteq> peNoPacketError"
        using pj q by auto
      with answer_error [OF ok False refl fr(1) _ fr(2)] Some pj False j st fr(3) show ?thesis
        by (simp add: spec_step_def spec_of_def authenticated_def check_connection_state_def)
    qed
  qed
qed

end
