(* ===== verification/Proc_Properties.thy ===== *)
theory Proc_Properties
  imports Proc_Reactor Proc_Spec
begin

text \<open>
  The properties of the dispatcher's connection handler, over the definitions of
  Proc_Handler and Proc_Reactor, each with an application to a concrete connection.
\<close>

section \<open>A concrete connection\<close>

definition sample_new :: proc_handler where
  "sample_new = new_proc_handler ''node1'' 1 (time_value max_client_timeout)"

definition sample_handler :: proc_handler where
  \<comment> \<open>a connection of a reactive acceptor after \<open>open\<close>\<close>
  "sample_handler = snd (projr (open_handler sample_env (Some single_threaded) sample_new))"

lemma sample_opened:
  "open_handler sample_env (Some single_threaded) sample_new = Inr (0, sample_handler)"
  by (simp add: sample_handler_def sample_env_def sample_new_def open_handler_def
      concurrency_def Let_def output_boiler_plate_def map_commands_def silent_def
      new_proc_handler_def stream_def output_prompt_def flush_stream_to_connector_def)

lemmas sample_open = sample_opened [unfolded sample_new_def]

lemma sample_inv: "proc_inv sample_handler" "\<not> authenticated sample_handler"
  "proc_sent sample_handler = [greeting (c_str ''node1'')]"
  using open_handler_cases [OF sample_open] by simp_all

lemma sample_fields: "m_strToken sample_handler = []" "m_lastActivityTime sample_handler = 0"
  "m_proc_acceptor sample_handler = Some single_threaded"
  "m_maximumTimeToWait sample_handler = time_value max_client_timeout"
  "\<not> deleted sample_handler" "\<not> m_bSilent sample_handler"
  by (simp_all add: sample_handler_def sample_env_def sample_new_def open_handler_def
      concurrency_def Let_def output_boiler_plate_def map_commands_def silent_def
      new_proc_handler_def stream_def output_prompt_def flush_stream_to_connector_def)

definition login_line :: string where
  "login_line = ''a1 Login'' @ crlf"

lemma login_line_ok: "plain login_line" "LF \<in> set login_line" "length login_line < cmd_buffer_len"
  by (simp_all add: login_line_def plain_def no_nul_def crlf_def char_defs cmd_buffer_len_def)

section \<open>Sessions\<close>

definition spec_run :: "string list \<Rightarrow> string \<times> bool \<Rightarrow> string list \<times> (string \<times> bool)" where
  "spec_run reqs st =
     fold (\<lambda>req (out, st). let (x, st') = spec_step req st in (out @ [x], st')) reqs ([], st)"

lemma spec_run_Cons: "spec_run (req # reqs) st =
    (let (x, st1) = spec_step req st; (out, st2) = spec_run reqs st1 in (x # out, st2))"
proof -
  have "fold (\<lambda>req (out, st). let (x, st') = spec_step req st in (out @ [x], st')) reqs (o1 @ o2, s) =
      (let (out, st2) =
         fold (\<lambda>req (out, st). let (x, st') = spec_step req st in (out @ [x], st')) reqs (o2, s)
       in (o1 @ out, st2))" for o1 o2 s
    by (induction reqs arbitrary: o2 s) (simp_all add: split_beta Let_def)
  from this [of "[x]" "[]" for x] show ?thesis
    by (simp add: spec_run_def split_beta Let_def)
qed

lemma process_whole_request:
  assumes inv: "proc_inv h" and req: "plain req" "LF \<in> set req" "length req < n" "buffer_ok n"
  shows "\<exists>h'. process n (req # recvs) h = Inr (0, h') \<and> proc_inv h' \<and>
    proc_sent h' = proc_sent h @ [fst (spec_step req (spec_of h))] \<and>
    spec_of h' = snd (spec_step req (spec_of h))"
proof -
  have ok: "size_ok req" using req(3,4) small_ok [of n req] by simp
  obtain h' where h': "answer_request req (reset_error h) = (0, h')"
      "ops h' = ops h @ [Send_n (fst (spec_step req (spec_of h)))]"
      "spec_of h' = snd (spec_step req (spec_of h))"
    using answer_request_refines [OF proc_inv_reset [OF inv] ok, of peNoPacketError] by auto
  have p: "process n (req # recvs) h = Inr (0, h')"
    using process_one_read [OF req(1,3,4) disjI1 [OF req(2)]] h'(1) by simp
  show ?thesis
    using p h' process_step [OF inv req(4) p] by (auto simp: proc_sent_def)
qed

lemma serve_whole_requests:
  assumes "proc_inv h" "\<forall>req \<in> set reqs. plain req \<and> LF \<in> set req \<and> length req < n" "buffer_ok n"
  shows "\<exists>h'. serve (process n) (map (\<lambda>req. [req]) reqs) h = Inr (False, h') \<and>
    proc_sent h' = proc_sent h @ fst (spec_run reqs (spec_of h)) \<and>
    spec_of h' = snd (spec_run reqs (spec_of h))"
  using assms
proof (induction reqs arbitrary: h)
  case Nil
  then show ?case by (simp add: spec_run_def)
next
  case (Cons req reqs)
  then obtain h1 where h1: "process n [req] h = Inr (0, h1)" "proc_inv h1"
      "proc_sent h1 = proc_sent h @ [fst (spec_step req (spec_of h))]"
      "spec_of h1 = snd (spec_step req (spec_of h))"
    using process_whole_request [of h req n "[]"] by auto
  with Cons.IH [OF h1(2)] Cons.prems show ?case
    by (auto simp: spec_run_Cons split_beta Let_def)
qed

text \<open>
  C1. Refinement of a whole session. After \<open>open\<close>, however many requests arrive, each in one
  read, the handler sends the greeting and then exactly the replies of the abstract
  protocol machine of Proc_Spec, one for each request, and ends in a state that abstracts
  to the machine's.
\<close>

theorem session_refines_spec:
  assumes "open_handler env accept (new_proc_handler host self mx) = Inr (r, h)"
    and "\<forall>req \<in> set reqs. plain req \<and> LF \<in> set req \<and> length req < cmd_buffer_len"
  shows "\<exists>h'. serve (process cmd_buffer_len) (map (\<lambda>req. [req]) reqs) h = Inr (False, h') \<and>
    proc_sent h' = greeting (c_str host) # fst (spec_run reqs (m_strToken h, False)) \<and>
    spec_of h' = snd (spec_run reqs (m_strToken h, False))"
proof -
  have o: "proc_inv h" "\<not> authenticated h" "proc_sent h = [greeting (c_str host)]"
    using open_handler_cases [OF assms(1)] by simp_all
  then have "spec_of h = (m_strToken h, False)" by (simp add: spec_of_def)
  with serve_whole_requests [OF o(1) assms(2) buffer_ok_used(1)] o(3) show ?thesis by simp
qed

theorem session_refines_spec_witness:
  "\<exists>h'. serve (process cmd_buffer_len) (map (\<lambda>req. [req]) [login_line, login_line]) sample_handler
       = Inr (False, h') \<and>
     proc_sent h' = [greeting (c_str ''node1''), login_reply ''a1'',
       error_reply ''a1'' peAlreadyAuthenticated]"
proof -
  have w: "words_of login_line = Some (''a1'', ''Login'' @ crlf)"
    by (simp add: words_of_Some login_line_def char_defs crlf_def)
  have "words_of (''Login'' @ crlf) = None"
    by (simp add: words_of_None char_defs crlf_def)
  then have "command_word (''Login'' @ crlf) = ''Login''"
    by (simp add: command_word_def strip_end_def crlf_def)
  moreover have "map tolower ''Login'' = ''login''" by code_simp
  ultimately have "map tolower (command_word (''Login'' @ crlf)) = ''login''" by (simp only:)
  with w have s: "spec_step login_line (t, b) =
      (if b then error_reply ''a1'' peAlreadyAuthenticated else login_reply ''a1'', (''a1'', True))"
    for t b
    by (simp add: spec_step_def judge_def constMaxTokenLength_def short_line_def)
       (simp add: login_line_def crlf_def)
  show ?thesis
    using session_refines_spec [OF sample_open, of "[login_line, login_line]"] login_line_ok
    by (simp add: spec_run_Cons s) (auto simp: spec_run_def)
qed

text \<open>
  C4. A login is acknowledged exactly once. Whatever the client sends, in whatever pieces,
  a session that does not fault sends the greeting and at most one message for each call of
  \<open>process\<close>; one of them is a login acknowledgement exactly when the session ended up
  authenticated, and there is never a second.
\<close>

theorem session_login_once:
  assumes "open_handler env accept (new_proc_handler host self mx) = Inr (r, h)"
    and "serve (process cmd_buffer_len) inputs h = Inr (b, h')"
  shows "\<exists>out. proc_sent h' = greeting (c_str host) # out \<and> length out \<le> length inputs \<and>
    length (filter is_login_ack out) = (if authenticated h' then 1 else 0)"
proof -
  have o: "proc_inv h" "\<not> authenticated h" "proc_sent h = [greeting (c_str host)]"
    using open_handler_cases [OF assms(1)] by simp_all
  obtain out where "proc_sent h' = proc_sent h @ out" "length out \<le> length inputs"
    using ps.sent_serve [OF o(1) assms(2)] by blast
  with ps.acks_serve [OF o(1) assms(2)] o show ?thesis by (intro exI [of _ out]) simp
qed

theorem session_login_once_witness:
  "\<exists>b h' out. serve (process cmd_buffer_len) [[login_line], [login_line]] sample_handler = Inr (b, h') \<and>
     proc_sent h' = greeting (c_str ''node1'') # out \<and> length out \<le> 2 \<and>
     length (filter is_login_ack out) = (if authenticated h' then 1 else 0)"
proof -
  obtain h' where "serve (process cmd_buffer_len) [[login_line], [login_line]] sample_handler = Inr (False, h')"
    using serve_whole_requests [OF sample_inv(1) _ buffer_ok_used(1), of "[login_line, login_line]"]
      login_line_ok by auto
  from this session_login_once [OF sample_open this] show ?thesis by auto
qed

section \<open>The parser\<close>

text \<open>
  C17. Round trip of the packet parser. A request line printed from a token, a command and
  parameters is parsed back into exactly these three parts, the token and the command are
  stored in the handler and the error is cleared.
\<close>

theorem parse_request_line:
  assumes "SPACE \<notin> set tok" "length tok \<le> constMaxTokenLength" "SPACE \<notin> set cmd"
    "LF \<notin> set params" "size_ok (request_line tok cmd params)"
    and "parse_command (request_line tok cmd params) [] h = (h', parts)"
  shows "mm_find parts ppToken = Some tok \<and> mm_find parts ppCommand = Some cmd \<and>
    mm_find parts ppPayload = Some params \<and> m_strToken h' = tok \<and> m_strCommand h' = cmd \<and>
    m_proc_packet_error h' = peNoPacketError"
  using assms by (auto simp: parse_command_line mm_find_def)

theorem parse_request_line_witness:
  "\<exists>h' parts. parse_command (request_line ''a1'' ''login'' ''bill secret'') [] sample_handler
       = (h', parts) \<and> mm_find parts ppPayload = Some ''bill secret'' \<and>
     m_proc_packet_error h' = peNoPacketError"
proof -
  obtain h' parts where p: "parse_command (request_line ''a1'' ''login'' ''bill secret'') []
      sample_handler = (h', parts)" by fastforce
  have "size_ok (request_line ''a1'' ''login'' ''bill secret'')"
    by (simp add: size_ok_def request_line_def crlf_def npos_def)
  from parse_request_line [OF _ _ _ _ this p] p show ?thesis
    by (simp add: char_defs constMaxTokenLength_def)
qed

text \<open>
  C16. The error of the packet parser, for every packet: an empty packet and a token with
  nothing behind its space are invalid syntax, a packet without a space has no command, a
  token of more than ten characters is too long, and every other packet is accepted.
\<close>

theorem parse_command_verdict:
  assumes "size_ok packet"
  shows "m_proc_packet_error (fst (parse_command packet [] h)) =
    (if packet = [] then peInvalidSyntax
     else case words_of packet of
       None \<Rightarrow> peNoCommand
     | Some (tok, rest) \<Rightarrow>
         if length tok > constMaxTokenLength then peTokenTooLong
         else if rest = [] then peInvalidSyntax else peNoPacketError)"
proof (cases "words_of packet")
  case None
  then have "first_index (\<lambda>c. c = SPACE) packet = None"
    by (auto simp: words_of_None first_index_None)
  with None parse_command_error [OF assms, of "[]" h] show ?thesis by simp
next
  case (Some p)
  obtain tok rest where p: "p = (tok, rest)" by fastforce
  with Some have "packet = tok @ SPACE # rest" "SPACE \<notin> set tok" by (simp_all add: words_of_Some)
  moreover from this have "first_index (\<lambda>c. c = SPACE) packet = Some (length tok)"
    by (auto intro: first_index_append)
  ultimately show ?thesis using Some p parse_command_error [OF assms, of "[]" h] by simp
qed

theorem parse_command_verdict_witness:
  "m_proc_packet_error (fst (parse_command ''a-token-that-is-long login'' [] sample_handler))
     = peTokenTooLong"
proof -
  have w: "words_of ''a-token-that-is-long login'' = Some (''a-token-that-is-long'', ''login'')"
    by (simp add: words_of_Some char_defs)
  have "size_ok ''a-token-that-is-long login''" by (simp add: size_ok_def npos_def)
  from parse_command_verdict [OF this, of sample_handler] w show ?thesis
    by (simp add: constMaxTokenLength_def)
qed

section \<open>Reassembly of a request from several reads\<close>

text \<open>
  C18. A request that arrives in two reads. The request that is answered is the two pieces
  followed by what the second read left of the first one in the buffer: only the first
  four bytes of the buffer are cleared between two reads. The request is the concatenation
  of its pieces exactly when the second piece is at least as long as the first one or
  shorter than four bytes.
\<close>

theorem request_in_two_reads:
  assumes "plain c1" "LF \<notin> set c1" "length c1 \<le> constCommandBufferLength" "length c1 < n"
    and "plain c2" "LF \<in> set c2" "length c2 < n" "buffer_ok n"
  shows "\<exists>stale. process n [c1, c2] h = Inr (answer_request (c1 @ c2 @ stale) (reset_error h)) \<and>
    stale = (if 4 \<le> length c2 then drop (length c2) c1 else []) \<and>
    (stale = [] \<longleftrightarrow> length c2 < 4 \<or> length c1 \<le> length c2)"
  using process_two_reads_stale [of c1 n c2 "[]" h] assms by auto

theorem request_in_two_reads_witness:
  "\<exists>stale. process BUFSIZ [''a1 log'', ''in'' @ crlf] sample_handler =
      Inr (answer_request (''a1 log'' @ (''in'' @ crlf) @ stale) (reset_error sample_handler)) \<and>
    stale = ''og''"
proof -
  have "plain ''a1 log''" "LF \<notin> set ''a1 log''" "plain (''in'' @ crlf)" "LF \<in> set (''in'' @ crlf)"
    by (simp_all add: plain_def no_nul_def crlf_def char_defs)
  from request_in_two_reads [OF this(1,2) _ _ this(3,4) _ buffer_ok_used(2), of sample_handler]
  show ?thesis by (simp add: constCommandBufferLength_def BUFSIZ_def crlf_def)
qed

text \<open>
  A login that arrives in two unfavourable pieces is refused: "a1 log" followed by
  "in" and the line terminator is answered with "command unrecognized" and leaves the
  connection unauthenticated, although the same bytes in one read log the client in.
\<close>

theorem split_login_refused:
  assumes "proc_inv h" "\<not> authenticated h"
  shows "(\<exists>h'. process cmd_buffer_len [''a1 log'', ''in'' @ crlf] h = Inr (0, h') \<and>
      \<not> authenticated h' \<and>
      proc_sent h' = proc_sent h @ [error_reply ''a1'' peUnrecognizedCommand]) \<and>
    (\<exists>h'. process cmd_buffer_len [''a1 login'' @ crlf] h = Inr (0, h') \<and> authenticated h' \<and>
      proc_sent h' = proc_sent h @ [login_reply ''a1''])"
proof (rule conjI)
  have chunks: "plain ''a1 log''" "LF \<notin> set ''a1 log''" "plain (''in'' @ crlf)"
      "LF \<in> set (''in'' @ crlf)" "plain (''a1 login'' @ crlf)" "LF \<in> set (''a1 login'' @ crlf)"
    by (simp_all add: plain_def no_nul_def crlf_def char_defs)
  let ?req = "''a1 log'' @ (''in'' @ crlf) @ ''og''"
  have w: "words_of ?req = Some (''a1'', ''login'' @ crlf @ ''og'')"
    by (simp add: words_of_Some char_defs crlf_def)
  have "words_of (''login'' @ crlf @ ''og'') = None"
    by (simp add: words_of_None char_defs crlf_def)
  then have "command_word (''login'' @ crlf @ ''og'') = ''login'' @ crlf @ ''og''"
    by (simp add: command_word_def strip_end_def char_defs)
  then have "length (map tolower (command_word (''login'' @ crlf @ ''og''))) = 9"
    by (simp add: crlf_def)
  then have "map tolower (command_word (''login'' @ crlf @ ''og'')) \<noteq> ''login''" by force
  with w have s: "spec_step ?req (t, b) = (error_reply ''a1'' peUnrecognizedCommand, (''a1'', b))" for t b
    by (simp add: spec_step_def judge_def constMaxTokenLength_def short_line_def)
  have ok: "size_ok ?req" by (simp add: size_ok_def crlf_def npos_def)
  have p: "process cmd_buffer_len [''a1 log'', ''in'' @ crlf] h =
      Inr (answer_request ?req (reset_error h))"
    using process_two_reads_stale [OF chunks(1) _ chunks(2) _ chunks(3) _ chunks(4)
        buffer_ok_used(1), of "[]" h]
    by (simp add: constCommandBufferLength_def cmd_buffer_len_def crlf_def)
  with answer_request_refines [OF proc_inv_reset [OF assms(1)] ok, of peNoPacketError] s assms(2)
  show "\<exists>h'. process cmd_buffer_len [''a1 log'', ''in'' @ crlf] h = Inr (0, h') \<and>
      \<not> authenticated h' \<and>
      proc_sent h' = proc_sent h @ [error_reply ''a1'' peUnrecognizedCommand]"
    by (auto simp: spec_of_def proc_sent_def)
next
  let ?req = "''a1 login'' @ crlf"
  have w: "words_of ?req = Some (''a1'', ''login'' @ crlf)"
    by (simp add: words_of_Some char_defs crlf_def)
  have "words_of (''login'' @ crlf) = None" by (simp add: words_of_None char_defs crlf_def)
  then have "command_word (''login'' @ crlf) = ''login''"
    by (simp add: command_word_def strip_end_def crlf_def)
  moreover have "map tolower ''login'' = ''login''" by code_simp
  ultimately have "map tolower (command_word (''login'' @ crlf)) = ''login''" by (simp only:)
  with w assms(2) have s: "spec_step ?req (spec_of h) = (login_reply ''a1'', (''a1'', True))"
    by (simp add: spec_step_def judge_def constMaxTokenLength_def short_line_def spec_of_def)
  have "plain ?req" "LF \<in> set ?req" "length ?req < cmd_buffer_len"
    by (simp_all add: plain_def no_nul_def crlf_def char_defs cmd_buffer_len_def)
  from process_whole_request [OF assms(1) this buffer_ok_used(1), of "[]"] s
  show "\<exists>h'. process cmd_buffer_len [?req] h = Inr (0, h') \<and> authenticated h' \<and>
      proc_sent h' = proc_sent h @ [login_reply ''a1'']"
    by (auto simp: spec_of_def)
qed

theorem split_login_refused_witness:
  "\<exists>h'. process cmd_buffer_len [''a1 log'', ''in'' @ crlf] sample_handler = Inr (0, h') \<and>
     proc_sent h' = [greeting (c_str ''node1''), error_reply ''a1'' peUnrecognizedCommand]"
  using split_login_refused [OF sample_inv(1,2)] sample_inv(3) by auto

text \<open>
  C13. Memory safety of the read loop. If no read fills the buffer, \<open>process\<close> neither faults
  nor runs past the buffer: it returns 0 or -1 and leaves the handler in its invariant. It is
  safe up to that: at any point at which it still waits for the rest of a request, a read
  that fills the buffer makes it read past the end exactly if there is no NUL in it.
\<close>

theorem process_memory_safe:
  assumes "buffer_ok n" "4 < n" "proc_inv h"
  shows "((\<forall>c \<in> set recvs. length c < n) \<longrightarrow>
      (\<exists>r h'. process n recvs h = Inr (r, h') \<and> r \<in> {0, -1} \<and> proc_inv h')) \<and>
    (still_reading n pre \<and> n \<le> length c \<longrightarrow>
      (process n (pre @ [c]) h = Inl Overread) = (NUL \<notin> set (take n c)) \<and>
      (NUL \<notin> set (take n c) \<longrightarrow> process n (pre @ c # post) h = Inl Overread))"
proof (intro conjI impI)
  assume "\<forall>c \<in> set recvs. length c < n"
  then obtain r h' where p: "process n recvs h = Inr (r, h')"
    using process_no_fault assms(2) by blast
  from process_step [OF assms(3,1) p] p
  show "\<exists>r h'. process n recvs h = Inr (r, h') \<and> r \<in> {0, -1} \<and> proc_inv h'" by blast
next
  assume "still_reading n pre \<and> n \<le> length c"
  then have s: "still_reading n pre" "4 \<le> n" "n \<le> length c" using assms(2) by simp_all
  then show "(process n (pre @ [c]) h = Inl Overread) = (NUL \<notin> set (take n c))"
    using full_read [OF s, where h = h] by fastforce
  show "NUL \<notin> set (take n c) \<Longrightarrow> process n (pre @ c # post) h = Inl Overread"
    by (rule full_read(1) [OF s])
qed

theorem process_memory_safe_witness:
  "(\<exists>r h'. process BUFSIZ [login_line] sample_handler = Inr (r, h') \<and> r \<in> {0, -1} \<and> proc_inv h') \<and>
   process BUFSIZ [''a1 lo'', replicate BUFSIZ CHR ''x''] sample_handler = Inl Overread \<and>
   process BUFSIZ [''a1 lo'', replicate BUFSIZ NUL] sample_handler \<noteq> Inl Overread"
proof -
  have "read_c_buffer (recv_into (replicate BUFSIZ NUL) ''a1 lo'') = Some ''a1 lo''"
    by (rule read_fresh) (simp_all add: no_nul_def BUFSIZ_def char_defs)
  then have s: "still_reading BUFSIZ [''a1 lo'']"
    by (simp add: still_reading_def str_find_def search_single Let_def npos_def char_defs
        constCommandBufferLength_def)
  have x: "NUL \<noteq> CHR ''x''" by (simp add: char_defs)
  note safe = process_memory_safe [OF buffer_ok_used(2) _ sample_inv(1)]
  show ?thesis
    using safe [of "[login_line]" "[''a1 lo'']" "replicate BUFSIZ CHR ''x''" "[]"]
      safe [of "[login_line]" "[''a1 lo'']" "replicate BUFSIZ NUL" "[]"] s x
    by (simp add: BUFSIZ_def login_line_def crlf_def)
qed

section \<open>The thread of a connection\<close>

lemma serve_no_fault:
  assumes "\<forall>recvs \<in> set rs. \<forall>c \<in> set recvs. length c < n" "4 < n" "serve (process n) rs h = Inl f"
  shows False
  using assms
proof (induction rs arbitrary: h)
  case Nil
  then show ?case by simp
next
  case (Cons i rs)
  obtain r h' where "process n i h = Inr (r, h')"
    using process_no_fault [of i n h] Cons.prems by auto
  with Cons show ?case by (auto split: if_splits)
qed

text \<open>
  C11. The only way the thread of a connection ends. If \<open>svc\<close> returns, it returns -1 and the
  client has sent one of the two control characters; neither a logout nor an error nor the
  end of the connection ends it.
\<close>

theorem svc_returns_only_on_control:
  assumes "proc_inv h" "svc inp h = Some (Inr (r, h'))"
  shows "r = -1 \<and> (\<exists>i. control (inp i)) \<and> proc_inv h'"
proof -
  have s: "served inp 0 h (Inr (r, h'))"
    using svc_loop_ends assms(2) by (simp add: svc_def)
  then obtain n where n: "serve (process BUFSIZ) (map inp [0..<0 + n]) h = Inr (True, h')"
    by (auto simp: served_def)
  from serve_control [OF this assms(1) buffer_ok_used(2)] have "\<exists>i. control (inp i)" by auto
  moreover have "proc_inv h'" by (rule sv.inv_serve [OF assms(1) n])
  ultimately show ?thesis using s by (simp add: served_def)
qed

theorem svc_returns_only_on_control_witness:
  "\<exists>r h'. svc (\<lambda>i. if i = 0 then [login_line] else [[CTRL_C]]) sample_handler = Some (Inr (r, h'))
     \<and> r = -1 \<and> proc_inv h'"
proof -
  let ?inp = "\<lambda>i::nat. if i = 0 then [login_line] else [[CTRL_C]]"
  obtain h1 where p: "process BUFSIZ [login_line] sample_handler = Inr (0, h1)"
    using process_whole_request [OF sample_inv(1) login_line_ok(1,2) _ buffer_ok_used(2), of "[]"]
    by (auto simp: login_line_def crlf_def BUFSIZ_def)
  have "read_c_buffer (recv_into (replicate BUFSIZ NUL) [CTRL_C]) = Some [CTRL_C]"
    by (rule read_fresh) (simp_all add: no_nul_def BUFSIZ_def char_defs)
  then have "process BUFSIZ [[CTRL_C]] h1 = Inr (-1, reset_error h1)"
    by (simp add: process_def str_find_def search_single Let_def npos_def)
  with p have "serve (process BUFSIZ) (map ?inp [0..<0 + 2]) sample_handler = Inr (True, reset_error h1)"
    by (simp add: numeral_2_eq_2)
  from svc_loop_serve [OF this]
  have "svc ?inp sample_handler = Some (Inr (-1, reset_error h1))" by (simp add: svc_def)
  from svc_returns_only_on_control [OF sample_inv(1) this] this show ?thesis by blast
qed

text \<open>
  C35. The thread of a closed connection is never given back. When reads never fill the
  buffer and no control character comes, \<open>svc\<close> does not return; in particular it does not
  when the peer has closed the connection, after which every read returns 0.
\<close>

theorem svc_never_returns:
  assumes "proc_inv h" "\<And>i. \<not> control (inp i)"
    and "\<And>i c. c \<in> set (inp i) \<Longrightarrow> length c < BUFSIZ"
  shows "svc inp h = None"
proof (rule ccontr)
  assume "svc inp h \<noteq> None"
  then obtain res where s: "svc inp h = Some res" by blast
  then have sv: "served inp 0 h res" by (simp add: svc_def svc_loop_ends)
  show False
  proof (cases res)
    case (Inl f)
    with sv obtain n where "serve (process BUFSIZ) (map inp [0..<0 + n]) h = Inl f"
      by (auto simp: served_def)
    from serve_no_fault [OF _ _ this] assms(3) show False by (auto simp: BUFSIZ_def)
  next
    case (Inr p)
    with sv obtain n h' where "serve (process BUFSIZ) (map inp [0..<0 + n]) h = Inr (True, h')"
      by (auto simp: served_def split: prod.splits)
    from serve_control [OF this assms(1) buffer_ok_used(2)] assms(2) show False by auto
  qed
qed

theorem svc_never_returns_witness:
  "svc (\<lambda>i. if i = 0 then [login_line] else [[]]) sample_handler = None"
proof (rule svc_never_returns [OF sample_inv(1)])
  show "\<not> control (if i = 0 then [login_line] else [[]])" for i
    using login_line_ok(1) by (simp add: control_def plain_def)
  show "c \<in> set (if i = 0 then [login_line] else [[]]) \<Longrightarrow> length c < BUFSIZ" for i c
    by (auto simp: login_line_def crlf_def BUFSIZ_def split: if_splits)
qed

section \<open>Idle connections\<close>

text \<open>
  The idle timer crashes the daemon. \<open>open\<close> schedules a timer whose act is the timer
  number 0 turned into an address, so the first expiry dereferences a null pointer,
  whatever happened on the connection in between.
\<close>

theorem idle_timer_null_deref:
  assumes "open_handler env accept (new_proc_handler host self mx) = Inr (r, h)"
  shows "\<exists>act. Schedule_Timer act mx (time_value (tv_sec mx sdiv 60)) \<in> set (ops h) \<and>
    (\<forall>env' mem now h'. handle_timeout env' mem now act h' = Inl Null_Deref)"
proof -
  have "void_ptr timer_id = 0" by (simp add: void_ptr_def timer_id_def)
  with open_handler_cases [OF assms] show ?thesis
    by (intro exI [of _ "void_ptr timer_id"]) (simp add: handle_timeout_def)
qed

theorem idle_timer_null_deref_witness:
  "\<exists>act. Schedule_Timer act (time_value max_client_timeout)
      (time_value (tv_sec (time_value max_client_timeout) sdiv 60)) \<in> set (ops sample_handler) \<and>
    (\<forall>env' mem now h'. handle_timeout env' mem now act h' = Inl Null_Deref)"
  using idle_timer_null_deref [OF sample_open] .

text \<open>
  Even with a readable act the automatic logout destroys the handler twice: the
  handler is taken out of the reactor without DONT_CALL, the reactor calls \<open>handle_close\<close>,
  which destroys it, and \<open>handle_timeout\<close> then destroys it again. If the reactor made no
  such call, the client would be sent the logout line and the handler destroyed once. An
  upcall before the idle time has passed does nothing.
\<close>

theorem idle_timeout_destroys_twice:
  assumes "act \<noteq> 0" "mem act = Some timer_id" "\<not> deleted h" "\<not> m_bSilent h" "m_ostr h = []"
  shows "if now - m_lastActivityTime h < m_maximumTimeToWait h
    then handle_timeout env mem now act h = Inr (0, h)
    else if e_closes env then handle_timeout env mem now act h = Inl Use_After_Free
    else \<exists>h'. handle_timeout env mem now act h = Inr (0, h') \<and> deleted h' \<and>
      proc_sent h' = proc_sent h @ ['' autologout; idle for too long'' @ crlf]"
  using assms
  by (auto simp: handle_timeout_def remove_read_def handle_close_def destroy_def destructor_def
      stream_def flush_stream_to_connector_def log_op_def proc_sent_def Let_def)

theorem idle_timeout_destroys_twice_witness:
  "handle_timeout sample_env (\<lambda>a. if a = 8 then Some timer_id else None)
     (time_value max_client_timeout) 8 sample_handler = Inl Use_After_Free"
  using idle_timeout_destroys_twice [of 8 "\<lambda>a. if a = 8 then Some timer_id else None"
      sample_handler "time_value max_client_timeout" sample_env]
  by (simp add: sample_fields sample_inv(1) [unfolded proc_inv_def] sample_env_def)

section \<open>Handing a connection to the pool\<close>

text \<open>
  \<open>handle_input\<close> under the thread pool strategy. In the thread that created the handler
  it reads nothing: it leaves the reactor and puts itself on the pool's queue. In a worker
  it answers one request and registers for the next one, unless the session has ended.
\<close>

theorem handle_input_pool:
  assumes "m_proc_acceptor h = Some thread_pool" "proc_inv h"
    and "\<forall>c \<in> set recvs. length c < cmd_buffer_len"
  shows "if e_self env = creator h
    then \<exists>h'. handle_input env recvs h = Inr (e_enqueue env, h') \<and>
      ops h' = ops h @ [Remove_Handler True, Pool_Enqueue]
    else \<exists>r h' out. handle_input env recvs h = Inr (r, h') \<and> length out \<le> 1 \<and>
      ops h' = ops h @ map Send_n out @ (if r = -1 then [] else [Register_Handler])"
proof (cases "e_self env = creator h")
  case True
  with assms show ?thesis
    by (simp add: handle_input_def concurrency_def enqueue_self_def)
next
  case False
  let ?h = "h\<lparr>m_lastActivityTime := e_now env\<rparr>"
  have inv: "proc_inv ?h" using assms(2) by (simp add: proc_inv_def)
  have buf: "4 < cmd_buffer_len" by (simp add: cmd_buffer_len_def)
  obtain r h1 where p: "process cmd_buffer_len recvs ?h = Inr (r, h1)"
    using process_no_fault [OF assms(3), of ?h] buf by blast
  then obtain out where "ops h1 = ops h @ map Send_n out" "length out \<le> 1"
    using process_step [OF inv buffer_ok_used(1) p] by auto
  with False p assms(1) show ?thesis
    by (simp add: handle_input_def concurrency_def) blast
qed

theorem handle_input_pool_witness:
  "\<exists>h'. handle_input sample_env [login_line] (sample_handler\<lparr>m_proc_acceptor := Some thread_pool\<rparr>)
      = Inr (0, h') \<and>
    ops h' = ops sample_handler @ [Remove_Handler True, Pool_Enqueue]"
proof -
  let ?h = "sample_handler\<lparr>m_proc_acceptor := Some thread_pool\<rparr>"
  have "proc_inv ?h" using sample_inv(1) by (simp add: proc_inv_def)
  moreover have "creator sample_handler = 1"
    using open_handler_cases [OF sample_open] by simp
  ultimately show ?thesis
    using handle_input_pool [of ?h "[login_line]" sample_env] login_line_ok(3)
    by (simp add: sample_env_def)
qed

end
