(* ===== verification/Auth_Handler.thy ===== *)
theory Auth_Handler
  imports Proc_Reactor
begin

text \<open>
  The connection handler of the authentication manager
  (cci_daemon/src/manager/auth_mgr_handler.cpp, include/auth_ace_manager.h). The class is
  a relative of the dispatcher's handler with its own copies of the parser and of the
  string helpers, without the silent flag, the parameter map and the connection state, and
  with a login command that only records that it was called. Its names carry the prefix
  \<open>auth_\<close>. Buffers, replies and the answers of ACE are those of Proc_Handler and
  Proc_Reactor.
\<close>

section \<open>Types\<close>

text \<open>
  The enumerations of the two headers that have the same enumerators in the same order are
  one type; \<open>auth_command\<close> differs.
\<close>

type_synonym auth_packet_error = proc_packet_error

datatype auth_command =
    auth_login | auth_logout | auth_authenticate | auth_no_command | auth_error

datatype auth_command_fn = Auth_on_login

record auth_mgr_protocol_data =
  m_dwPort_a :: "64 word"
  m_dw_threads :: "64 word"
  m_allow_remote :: bool

definition new_auth_mgr_protocol_data :: "string \<Rightarrow> auth_mgr_protocol_data" where
  "new_auth_mgr_protocol_data nametag =
     \<lparr>m_dwPort_a = 7082, m_dw_threads = 10, m_allow_remote = False\<rparr>"

record auth_mgr_handler =
  m_auth_mgr_acceptor :: "concurrency_t option"
  m_auth_packet_error :: auth_packet_error
  m_dw_timer_token :: int
  m_maximum_time_to_wait :: int
  m_last_activity_time :: int
  m_str_computer_name :: string
  m_str_command :: string
  m_current_command_a :: auth_command
  m_str_token :: string
  m_ostr_a :: string
  m_command_map_a :: "string \<rightharpoonup> auth_command_fn option"
  creator_a :: nat
  ops_a :: "peer_op list"
  deleted_a :: bool

definition auth_log_op :: "peer_op \<Rightarrow> auth_mgr_handler \<Rightarrow> auth_mgr_handler" where
  "auth_log_op x h = h\<lparr>ops_a := ops_a h @ [x]\<rparr>"

section \<open>String helpers\<close>

definition auth_chomp :: "string \<Rightarrow> string \<Rightarrow> string" where
  "auth_chomp str tok =
     (if str = [] then str
      else let idx = str_find str tok
           in if idx \<noteq> npos then substr str 0 (dec_pos idx) else str)"

primrec auth_lcase :: "string \<Rightarrow> string" where
  "auth_lcase [] = []"
| "auth_lcase (c # s) = tolower c # auth_lcase s"

definition auth_rtrimlast :: "string \<Rightarrow> string \<Rightarrow> string" where
  "auth_rtrimlast str tok =
     (if str = [] then str
      else let idx = find_last_of str (c_str tok)
           in if idx \<noteq> length str - 1 then str
              else if idx \<noteq> npos then substr str 0 (dec_pos idx) else str)"

section \<open>Construction\<close>

definition new_auth_mgr_handler :: "string \<Rightarrow> nat \<Rightarrow> int \<Rightarrow> auth_mgr_handler" where
  \<comment> \<open>\<open>hostname\<close>: the buffer gethostname filled; \<open>self\<close>: the constructing thread\<close>
  "new_auth_mgr_handler hostname self max_inactivity =
     \<lparr>m_auth_mgr_acceptor = None, m_auth_packet_error = peNoPacketError,
      m_dw_timer_token = 0, m_maximum_time_to_wait = max_inactivity, m_last_activity_time = 0,
      m_str_computer_name = c_str hostname, m_str_command = [],
      m_current_command_a = auth_no_command, m_str_token = [], m_ostr_a = [],
      m_command_map_a = Map.empty, creator_a = self, ops_a = [], deleted_a = False\<rparr>"

definition auth_map_commands :: "auth_mgr_handler \<Rightarrow> auth_mgr_handler" where
  \<comment> \<open>\<open>std::map::insert\<close> leaves an existing entry\<close>
  "auth_map_commands h =
     (case m_command_map_a h ''login'' of
        Some _ \<Rightarrow> h
      | None \<Rightarrow> h\<lparr>m_command_map_a := (m_command_map_a h)(''login'' \<mapsto> Some Auth_on_login)\<rparr>)"

section \<open>Output\<close>

definition auth_stream :: "string \<Rightarrow> auth_mgr_handler \<Rightarrow> auth_mgr_handler" where
  \<comment> \<open>\<open>stream() << s\<close>, also \<open>stream_out( s )\<close>\<close>
  "auth_stream s h = h\<lparr>m_ostr_a := m_ostr_a h @ s\<rparr>"

definition auth_stream_out_len :: "string \<Rightarrow> nat \<Rightarrow> auth_mgr_handler \<Rightarrow> auth_mgr_handler" where
  "auth_stream_out_len s len h = auth_stream (substr s 0 len) h"

definition auth_stream_out_bytes :: "string \<Rightarrow> nat \<Rightarrow> auth_mgr_handler \<Rightarrow> auth_mgr_handler" where
  \<comment> \<open>\<open>stream_out( const byte_ptr& , unsigned long )\<close>: a todo in the source, nothing happens\<close>
  "auth_stream_out_bytes bytes len h = h"

definition auth_output_prompt :: "bool \<Rightarrow> auth_mgr_handler \<Rightarrow> string" where
  "auth_output_prompt btoken h = (if btoken then m_str_token h @ [NUL] else [])"

definition auth_flush_stream_to_connector :: "auth_mgr_handler \<Rightarrow> auth_mgr_handler" where
  "auth_flush_stream_to_connector h =
     (auth_log_op (Send_n (m_ostr_a h)) h)\<lparr>m_ostr_a := []\<rparr>"

definition auth_flush_binary_stream_to_connector ::
    "string \<Rightarrow> nat \<Rightarrow> auth_mgr_handler \<Rightarrow> auth_mgr_handler" where
  "auth_flush_binary_stream_to_connector buf len h =
     auth_log_op (Send (take len buf)) h"

definition auth_flush_immediate :: "string \<Rightarrow> auth_mgr_handler \<Rightarrow> auth_mgr_handler" where
  "auth_flush_immediate atom h = auth_flush_stream_to_connector (auth_stream atom h)"

definition auth_output_boiler_plate :: "auth_mgr_handler \<Rightarrow> auth_mgr_handler" where
  "auth_output_boiler_plate h =
     (let h = auth_stream (''* OK authentication manager speaking.... '' @ m_str_computer_name h
                @ '' chromatic universe 2017 all rights reserved  ready'') h;
          h = auth_stream crlf h;
          h = auth_stream (auth_output_prompt False h) h
      in auth_flush_stream_to_connector h)"

definition auth_output_ok_response :: "string \<Rightarrow> auth_mgr_handler \<Rightarrow> auth_mgr_handler" where
  "auth_output_ok_response ack h = auth_stream (m_str_token h @ '' '' @ ''OK '' @ ack @ crlf) h"

primrec auth_packet_error_text :: "auth_packet_error \<Rightarrow> string" where
  "auth_packet_error_text peNoToken = ''no token supplied - expected''"
| "auth_packet_error_text peTokenTooLong = ''token too long''"
| "auth_packet_error_text peNoCommand = ''no command supplied - expected''"
| "auth_packet_error_text peCommandTooLong = ''buffer to large''"
| "auth_packet_error_text peTooManyParameters = ''too many parameters supplied''"
| "auth_packet_error_text peInvalidPayload = ''invalid buffer''"
| "auth_packet_error_text peInvalidSyntax = ''invalid syntax''"
| "auth_packet_error_text peUnrecognizedCommand = ''command unrecognized''"
| "auth_packet_error_text peSelectState = '' a target must be selected before a query''"
| "auth_packet_error_text peTooFewParameters = '' too few parameters - more''"
| "auth_packet_error_text peNoParametersExpectedGotSome = '' no parameters expected - got some''"
| "auth_packet_error_text peParametersExpectedGotNone = ''parameters expected - got none''"
| "auth_packet_error_text peFailure = ''a server operation within this context failed''"
| "auth_packet_error_text peInvalidObject = ''object does not exist''"
| "auth_packet_error_text peInvalidSpecification = ''invalid specification''"
| "auth_packet_error_text peNoSpecification = ''no specification''"
| "auth_packet_error_text peInvalidState = ''invalid state''"
| "auth_packet_error_text peAttributeNotSupported = ''attribute not supported''"
| "auth_packet_error_text peNotAuthenticated = ''please login''"
| "auth_packet_error_text peAlreadyAuthenticated = ''already logged in''"
| "auth_packet_error_text peNotEnoughPrivileges = ''not enough privileges''"
| "auth_packet_error_text peNoPacketError = ''''"

definition auth_format_packet_error :: "auth_packet_error \<Rightarrow> auth_mgr_handler \<Rightarrow> auth_mgr_handler" where
  "auth_format_packet_error pe h =
     (let h = h\<lparr>m_current_command_a := auth_error\<rparr>;
          h = auth_stream (auth_output_prompt True h) h;
          h = auth_stream '' NO '' h;
          h = auth_stream (auth_packet_error_text pe) h;
          h = auth_stream crlf h;
          h = auth_stream (auth_output_prompt False h) h
      in auth_flush_stream_to_connector h)"

section \<open>Parsing a packet\<close>

text \<open>
  \<open>parse_command\<close> stores the token in the handler and the parts in a multimap that the
  caller passes by reference; the parameter count it sets is never read.
\<close>

definition auth_parse_rest :: "string \<Rightarrow> map_of_parts \<Rightarrow> auth_mgr_handler \<Rightarrow> auth_mgr_handler \<times> map_of_parts"
where
  \<comment> \<open>the part of \<open>parse_command\<close> after the token has been cut off\<close>
  "auth_parse_rest str parts h =
     (let idx = find_first_of str '' ''
      in if idx = npos
         then let strcommand = auth_rtrimlast str [LF];
                  h = h\<lparr>m_str_command := strcommand\<rparr>;
                  parts = mm_insert ppCommand strcommand parts
              in (h\<lparr>m_auth_packet_error := peNoPacketError\<rparr>, parts)
         else let strcommand = substr str 0 idx;
                  h = h\<lparr>m_str_command := strcommand\<rparr>;
                  str = substr_from str (idx + 1);
                  parts = mm_insert ppCommand strcommand parts;
                  str = auth_chomp str [LF];
                  parts = mm_insert ppPayload str parts
              in (h\<lparr>m_auth_packet_error := peNoPacketError\<rparr>, parts))"

definition auth_parse_command ::
    "string \<Rightarrow> map_of_parts \<Rightarrow> auth_mgr_handler \<Rightarrow> auth_mgr_handler \<times> map_of_parts" where
  "auth_parse_command packet parts h =
     (if packet = [] then (h\<lparr>m_auth_packet_error := peInvalidSyntax\<rparr>, parts)
      else let str = packet; idx = find_first_of str '' ''
      in if idx \<noteq> npos
         then let strtoken = substr str 0 idx
              in if length strtoken > constMaxTokenLength
                 then (h\<lparr>m_auth_packet_error := peTokenTooLong\<rparr>, parts)
                 else let parts = mm_insert ppToken strtoken parts;
                          h = h\<lparr>m_str_token := strtoken\<rparr>;
                          str = substr_from str (idx + 1)
                      in if length str = 0
                         then (h\<lparr>m_auth_packet_error := peInvalidSyntax\<rparr>, parts)
                         else auth_parse_rest str parts h
         else (h\<lparr>m_auth_packet_error := peNoCommand\<rparr>, parts))"

section \<open>Commands\<close>

definition auth_on_login :: "string \<Rightarrow> auth_mgr_handler \<Rightarrow> int \<times> auth_mgr_handler" where
  "auth_on_login params h = (0, h\<lparr>m_current_command_a := auth_login\<rparr>)"

primrec auth_call_command :: "auth_command_fn \<Rightarrow> string \<Rightarrow> auth_mgr_handler \<Rightarrow> int \<times> auth_mgr_handler" where
  \<comment> \<open>\<open>( this->*ptr_func ) ( strPayload )\<close>\<close>
  "auth_call_command Auth_on_login params h = auth_on_login params h"

definition auth_perform :: "string \<Rightarrow> auth_mgr_handler \<Rightarrow> auth_mgr_handler" where
  "auth_perform str h =
     (if str = [] then h\<lparr>m_auth_packet_error := peInvalidPayload\<rparr>
      else let (h, parts) = auth_parse_command str [] h
      in if m_auth_packet_error h \<noteq> peNoPacketError then h
         else case mm_find parts ppCommand of
           None \<Rightarrow> h
         | Some cmd \<Rightarrow>
             let strcommand = auth_lcase cmd
             in (case m_command_map_a h strcommand of
                   None \<Rightarrow> h\<lparr>m_auth_packet_error := peUnrecognizedCommand\<rparr>
                 | Some None \<Rightarrow>
                     (let h = auth_stream (auth_output_prompt False h) h;
                          h = auth_stream (''NO no default action for this keyword'' @ crlf) h
                      in auth_flush_stream_to_connector h)
                 | Some (Some f) \<Rightarrow>
                     let strPayload =
                       (case mm_find parts ppPayload of Some p \<Rightarrow> p | None \<Rightarrow> [])
                     in snd (auth_call_command f strPayload h)))"

section \<open>Reading and answering a request\<close>

definition auth_answer_request :: "string \<Rightarrow> auth_mgr_handler \<Rightarrow> int \<times> auth_mgr_handler" where
  \<comment> \<open>the body of the read loop once a request is complete\<close>
  "auth_answer_request req h =
     (let h = auth_perform req h
      in if str_find req [LF] \<noteq> npos \<and> length req = 2
         then (0, auth_flush_stream_to_connector (auth_stream (auth_output_prompt False h) h))
         else if m_current_command_a h \<noteq> auth_logout
         then if m_auth_packet_error h \<noteq> peNoPacketError
              then (0, auth_format_packet_error (m_auth_packet_error h) h)
              else (0, auth_flush_stream_to_connector h)
         else (-1, auth_flush_stream_to_connector h))"

fun auth_process_loop ::
    "string \<Rightarrow> string \<Rightarrow> string list \<Rightarrow> auth_mgr_handler \<Rightarrow> fault + int \<times> auth_mgr_handler" where
  "auth_process_loop rdbuf ostr [] h = Inr (0, h)"
| "auth_process_loop rdbuf ostr (chunk # recvs) h =
     (if chunk = [] then Inr (0, h)
      else let rdbuf = recv_into rdbuf chunk
      in case read_c_buffer rdbuf of
           None \<Rightarrow> Inl Overread
         | Some seg \<Rightarrow>
             let ostr = ostr @ seg; rdbuf = clear4 rdbuf
             in if str_find ostr [CTRL_C] \<noteq> npos \<or> str_find ostr [CTRL_Z] \<noteq> npos
                then Inr (-1, h)
                else if str_find ostr [LF] = npos \<and> length ostr \<le> constCommandBufferLength
                then auth_process_loop rdbuf ostr recvs h
                else Inr (auth_answer_request ostr h))"

definition auth_process :: "nat \<Rightarrow> string list \<Rightarrow> auth_mgr_handler \<Rightarrow> fault + int \<times> auth_mgr_handler" where
  "auth_process rdbuf_len recvs h =
     auth_process_loop (replicate rdbuf_len NUL) [] recvs
       (h\<lparr>m_auth_packet_error := peNoPacketError\<rparr>)"

type_synonym auth_handler_result = "fault + int \<times> auth_mgr_handler"

section \<open>Destruction\<close>

definition auth_destructor :: "auth_mgr_handler \<Rightarrow> auth_mgr_handler" where
  "auth_destructor h = auth_log_op Peer_Close h"

definition auth_destroy :: "auth_mgr_handler \<Rightarrow> fault + auth_mgr_handler" where
  "auth_destroy h =
     (if deleted_a h then Inl Use_After_Free
      else let h = auth_log_op (Remove_Handler True) h
           in Inr (auth_destructor (auth_log_op Delete_This h)\<lparr>deleted_a := True\<rparr>))"

definition auth_close :: "auth_mgr_handler \<Rightarrow> auth_handler_result" where
  "auth_close h = (case auth_destroy h of Inl f \<Rightarrow> Inl f | Inr h \<Rightarrow> Inr (0, h))"

section \<open>The accessors of the acceptor\<close>

definition auth_concurrency :: "auth_mgr_handler \<Rightarrow> fault + concurrency_t" where
  "auth_concurrency h =
     (case m_auth_mgr_acceptor h of None \<Rightarrow> Inl Null_Deref | Some c \<Rightarrow> Inr c)"

definition auth_enqueue_self :: "ace_env \<Rightarrow> auth_mgr_handler \<Rightarrow> auth_handler_result" where
  \<comment> \<open>\<open>thread_pool()->enqueue( this )\<close>\<close>
  "auth_enqueue_self env h =
     (case m_auth_mgr_acceptor h of
        None \<Rightarrow> Inl Null_Deref
      | Some _ \<Rightarrow> Inr (e_enqueue env, auth_log_op Pool_Enqueue h))"

definition auth_client_addr :: "ace_env \<Rightarrow> string" where
  "auth_client_addr env = c_str (e_addr_string env)"

section \<open>Opening a connection\<close>

definition auth_open_handler :: "ace_env \<Rightarrow> concurrency_t option \<Rightarrow> auth_mgr_handler \<Rightarrow> auth_handler_result"
where
  "auth_open_handler env accept h =
     (let h = auth_output_boiler_plate h;
          h = auth_map_commands h;
          h = h\<lparr>m_auth_mgr_acceptor := accept\<rparr>;
          reschedule = time_value (tv_sec (m_maximum_time_to_wait h) sdiv 60);
          h = auth_log_op (Schedule_Timer (void_ptr timer_id) (m_maximum_time_to_wait h) reschedule) h;
          h = h\<lparr>m_dw_timer_token := e_schedule_timer env\<rparr>
      in case auth_concurrency h of
           Inl f \<Rightarrow> Inl f
         | Inr c \<Rightarrow>
             if c = thread_per_connection
             then Inr (e_activate env, auth_log_op Activate_Detached h)
             else let h = auth_log_op Set_Reactor h
                  in if e_get_remote_addr env = -1 then Inr (-1, h)
                     else let h = auth_log_op Register_Handler h
                          in if e_register_handler env = -1 then Inr (-1, h)
                             else Inr (0, auth_log_op (Log_Line (''connected with ''
                                    @ e_host_name env)) h))"

section \<open>Upcalls of the reactor\<close>

definition auth_handle_close :: "ace_env \<Rightarrow> auth_mgr_handler \<Rightarrow> auth_handler_result" where
  "auth_handle_close env h =
     (if deleted_a h then Inl Use_After_Free
      else let h = auth_stream ('' * goodbye '' @ auth_client_addr env
                     @ ''......chromatic auth-manager...'' @ crlf) h;
               h = auth_flush_stream_to_connector h
           in case auth_destroy h of Inl f \<Rightarrow> Inl f | Inr h \<Rightarrow> Inr (0, h))"

definition auth_remove_read :: "ace_env \<Rightarrow> auth_mgr_handler \<Rightarrow> fault + auth_mgr_handler" where
  \<comment> \<open>\<open>reactor()->remove_handler( this , READ_MASK )\<close>, with the upcall ACE makes\<close>
  "auth_remove_read env h =
     (let h = auth_log_op (Remove_Handler False) h
      in if e_closes env then map_sum id snd (auth_handle_close env h) else Inr h)"

definition auth_handle_timeout ::
    "ace_env \<Rightarrow> (64 word \<Rightarrow> 16 word option) \<Rightarrow> int \<Rightarrow> 64 word \<Rightarrow> auth_mgr_handler \<Rightarrow> auth_handler_result"
where
  \<comment> \<open>\<open>mem\<close>: the 16-bit values in memory; \<open>act\<close>: the pointer given to schedule_timer\<close>
  "auth_handle_timeout env mem now act h =
     (case (if act = 0 then None else mem act) of
        None \<Rightarrow> Inl Null_Deref
      | Some sui \<Rightarrow>
          if sui = timer_id
          then if now - m_last_activity_time h \<ge> m_maximum_time_to_wait h
               then let h = auth_log_op (Log_Line (auth_client_addr env @ '' timed out'')) h;
                        h = auth_stream ('' autologout; idle for too long'' @ crlf) h;
                        h = auth_flush_stream_to_connector h
                    in case auth_remove_read env h of
                         Inl f \<Rightarrow> Inl f
                       | Inr h \<Rightarrow>
                           (case auth_destroy h of Inl f \<Rightarrow> Inl f | Inr h \<Rightarrow> Inr (0, h))
               else Inr (0, h)
          else Inr (0, h))"

definition auth_handle_input :: "ace_env \<Rightarrow> string list \<Rightarrow> auth_mgr_handler \<Rightarrow> auth_handler_result" where
  \<comment> \<open>\<open>recvs\<close>: what the recv calls of \<open>process\<close> deliver\<close>
  "auth_handle_input env recvs h =
     (let h = h\<lparr>m_last_activity_time := e_now env\<rparr>
      in case auth_concurrency h of
           Inl f \<Rightarrow> Inl f
         | Inr c \<Rightarrow>
             if c = thread_pool \<and> e_self env = creator_a h
             then auth_enqueue_self env (auth_log_op (Remove_Handler True) h)
             else (case auth_process cmd_buffer_len recvs h of
                     Inl f \<Rightarrow> Inl f
                   | Inr (rval, h) \<Rightarrow>
                       if c = thread_pool \<and> rval \<noteq> -1
                       then Inr (rval, auth_log_op Register_Handler h)
                       else Inr (rval, h)))"

section \<open>The thread of a connection\<close>

partial_function (option) auth_svc_loop ::
    "(nat \<Rightarrow> string list) \<Rightarrow> nat \<Rightarrow> auth_mgr_handler \<Rightarrow> auth_handler_result option" where
  "auth_svc_loop inp i h =
     (case auth_process BUFSIZ (inp i) h of
        Inl f \<Rightarrow> Some (Inl f)
      | Inr (r, h') \<Rightarrow> if r = -1 then Some (Inr (-1, h')) else auth_svc_loop inp (Suc i) h')"

definition auth_svc :: "(nat \<Rightarrow> string list) \<Rightarrow> auth_mgr_handler \<Rightarrow> auth_handler_result option" where
  \<comment> \<open>\<open>inp i\<close>: what the recv calls of the i-th round deliver\<close>
  "auth_svc inp h = auth_svc_loop inp 0 h"

end
