(* ===== verification/Auth_Facts.thy ===== *)
theory Auth_Facts
  imports Auth_Handler Proc_Spec
begin

text \<open>
  What the authentication manager's handler shares with the dispatcher's, and where the two
  part: the parsers and the read loops agree on every input, and the replies follow the
  same specification except that a login succeeds silently, as often as it is sent.
\<close>

section \<open>The parsers agree\<close>

lemma auth_chomp_eq [simp]: "auth_chomp = chomp"
  by (intro ext) (simp add: auth_chomp_def chomp_def)

lemma auth_rtrimlast_eq [simp]: "auth_rtrimlast = rtrimlast"
  by (intro ext) (simp add: auth_rtrimlast_def rtrimlast_def)

lemma auth_lcase_eq [simp]: "auth_lcase s = lcase s"
  by (induction s) simp_all

lemma auth_packet_error_text_eq [simp]: "auth_packet_error_text e = packet_error_text e"
  by (cases e) simp_all

definition parser_view :: "auth_mgr_handler \<Rightarrow> proc_handler" where
  \<comment> \<open>the fields a parser reads and writes, as a handler of the dispatcher\<close>
  "parser_view a =
     (new_proc_handler [] 0 0)\<lparr>m_strToken := m_str_token a, m_strCommand := m_str_command a,
        m_proc_packet_error := m_auth_packet_error a\<rparr>"

lemma parser_view_sel [simp]:
  "m_strToken (parser_view a) = m_str_token a"
  "m_strCommand (parser_view a) = m_str_command a"
  "m_proc_packet_error (parser_view a) = m_auth_packet_error a"
  by (simp_all add: parser_view_def)

lemma parser_view_upd:
  "parser_view (a\<lparr>m_str_token := t\<rparr>) = (parser_view a)\<lparr>m_strToken := t\<rparr>"
  "parser_view (a\<lparr>m_str_command := c\<rparr>) = (parser_view a)\<lparr>m_strCommand := c\<rparr>"
  "parser_view (a\<lparr>m_auth_packet_error := e\<rparr>) = (parser_view a)\<lparr>m_proc_packet_error := e\<rparr>"
  by (simp_all add: parser_view_def new_proc_handler_def)

lemma auth_parse_rest_view:
  "parse_rest s ps (parser_view a) =
     (parser_view (fst (auth_parse_rest s ps a)), snd (auth_parse_rest s ps a))"
  by (simp add: parse_rest_def auth_parse_rest_def Let_def parser_view_upd)

lemma auth_parse_view:
  "parse_command p ps (parser_view a) =
     (parser_view (fst (auth_parse_command p ps a)), snd (auth_parse_command p ps a))"
  using auth_parse_rest_view [of _ _ "a\<lparr>m_str_token := t\<rparr>" for t]
  by (simp add: parse_command_def auth_parse_command_def Let_def parser_view_upd)

lemma auth_parse_rest_frame: "\<exists>c. fst (auth_parse_rest s ps a) =
    a\<lparr>m_str_command := c, m_auth_packet_error := peNoPacketError\<rparr>"
  by (cases "find_first_of s '' '' = npos")
    (simp_all add: auth_parse_rest_def Let_def, (rule exI, rule refl)+)

lemma frame_form:
  "x = a\<lparr>m_str_token := t, m_str_command := c, m_auth_packet_error := e\<rparr> \<Longrightarrow>
   x = a\<lparr>m_str_token := m_str_token x, m_str_command := m_str_command x,
         m_auth_packet_error := m_auth_packet_error x\<rparr>"
  by simp

lemma auth_parse_frame: "fst (auth_parse_command p ps a) =
    a\<lparr>m_str_token := m_str_token (fst (auth_parse_command p ps a)),
      m_str_command := m_str_command (fst (auth_parse_command p ps a)),
      m_auth_packet_error := m_auth_packet_error (fst (auth_parse_command p ps a))\<rparr>"
proof -
  have "\<exists>c. fst (auth_parse_rest s ps' (a\<lparr>m_str_token := t\<rparr>)) =
      a\<lparr>m_str_token := t, m_str_command := c, m_auth_packet_error := peNoPacketError\<rparr>" for s ps' t
    using auth_parse_rest_frame [of s ps' "a\<lparr>m_str_token := t\<rparr>"] by simp
  note rest = frame_form [OF someI_ex [OF this]]
  show ?thesis unfolding auth_parse_command_def Let_def by (auto intro: rest)
qed

lemma auth_parse_judge:
  assumes ok: "size_ok req" "req \<noteq> []" and p: "auth_parse_command req [] a = (a1, parts)"
  shows "case words_of req of
      None \<Rightarrow> m_str_token a1 = m_str_token a \<and> m_auth_packet_error a1 = peNoCommand
    | Some (t, rest) \<Rightarrow>
        if length t > constMaxTokenLength
        then m_str_token a1 = m_str_token a \<and> m_auth_packet_error a1 = peTokenTooLong
        else m_str_token a1 = t \<and>
          (if rest = [] then m_auth_packet_error a1 = peInvalidSyntax
           else m_auth_packet_error a1 = peNoPacketError \<and>
             mm_find parts ppCommand = Some (command_word rest))"
proof -
  have v: "parse_command req [] (parser_view a) = (parser_view a1, parts)"
    using auth_parse_view [of req "[]" a] p by simp
  have sel: "parser_view a1 = h \<Longrightarrow> m_str_token a1 = m_strToken h \<and>
      m_auth_packet_error a1 = m_proc_packet_error h" for h
    by auto
  show ?thesis
    using parse_command_judge [OF ok v]
    by (auto split: option.splits if_splits dest!: sel)
qed

section \<open>The read loops agree\<close>

lemma auth_process_loop_outcome:
  "auth_process_loop rdbuf got recvs h =
     (case read_request rdbuf got recvs of
        Nothing_Read \<Rightarrow> Inr (0, h)
      | Control_Read \<Rightarrow> Inr (-1, h)
      | Read_Overrun \<Rightarrow> Inl Overread
      | Request_Read req \<Rightarrow> Inr (auth_answer_request req h))"
  by (induction rdbuf got recvs rule: read_request.induct)
    (auto simp: Let_def split: option.splits)

abbreviation auth_reset_error :: "auth_mgr_handler \<Rightarrow> auth_mgr_handler" where
  "auth_reset_error a \<equiv> a\<lparr>m_auth_packet_error := peNoPacketError\<rparr>"

section \<open>The specification of the authentication manager\<close>

definition auth_spec_step :: "string \<Rightarrow> string \<Rightarrow> string \<times> string" where
  \<comment> \<open>request and last token to reply and token\<close>
  "auth_spec_step req tok =
     (let (tok', verdict) = judge req tok False
      in (if short_line req then []
          else case verdict of None \<Rightarrow> [] | Some e \<Rightarrow> error_reply tok' e, tok'))"

definition auth_inv :: "auth_mgr_handler \<Rightarrow> bool" where
  "auth_inv a \<longleftrightarrow> m_ostr_a a = [] \<and> m_command_map_a a = [''login'' \<mapsto> Some Auth_on_login] \<and>
     m_current_command_a a \<in> {auth_no_command, auth_login, auth_error}"

definition auth_sent :: "auth_mgr_handler \<Rightarrow> string list" where
  "auth_sent a = replies (ops_a a)"

lemma auth_perform_judge:
  assumes inv: "auth_inv a" and ok: "size_ok req"
    and j: "judge req (m_str_token a) False = (tok, v)"
  obtains a1 where "auth_perform req a = a1" "auth_inv a1" "ops_a a1 = ops_a a"
    "m_str_token a1 = tok"
    "m_auth_packet_error a1 = (case v of None \<Rightarrow> peNoPacketError | Some e \<Rightarrow> e)"
    "v \<noteq> Some peNoPacketError"
proof (cases "req = []")
  case True
  with j inv that [of "a\<lparr>m_auth_packet_error := peInvalidPayload\<rparr>"] show ?thesis
    by (auto simp: judge_def auth_perform_def auth_inv_def)
next
  case ne: False
  obtain a1 parts where p: "auth_parse_command req [] a = (a1, parts)" by fastforce
  note pj = auth_parse_judge [OF ok ne p]
  obtain t c e where fr: "a1 = a\<lparr>m_str_token := t, m_str_command := c, m_auth_packet_error := e\<rparr>"
    using auth_parse_frame [of req "[]" a] p by (metis fst_conv)
  have a1: "auth_inv (a1\<lparr>m_auth_packet_error := e\<rparr>)" "auth_inv (a1\<lparr>m_current_command_a := auth_login\<rparr>)"
      "auth_inv a1" "ops_a a1 = ops_a a" for e
    using inv by (simp_all add: auth_inv_def fr)
  have cm: "m_command_map_a a1 = [''login'' \<mapsto> Some Auth_on_login]"
    using a1(3) by (simp add: auth_inv_def)
  show ?thesis
  proof (cases "m_auth_packet_error a1 = peNoPacketError")
    case False
    then have "auth_perform req a = a1" using ne p by (simp add: auth_perform_def)
    with False pj j ne a1 that [of a1] show ?thesis
      by (auto simp: judge_def split: option.splits if_splits)
  next
    case True
    then obtain rest where w: "words_of req = Some (m_str_token a1, rest)"
        "length (m_str_token a1) \<le> constMaxTokenLength"
        "rest \<noteq> []" "mm_find parts ppCommand = Some (command_word rest)"
      using pj by (auto split: option.splits if_splits)
    have perf: "auth_perform req a = (if lcase (command_word rest) = ''login''
        then a1\<lparr>m_current_command_a := auth_login\<rparr>
        else a1\<lparr>m_auth_packet_error := peUnrecognizedCommand\<rparr>)"
      using ne p True w(4) cm by (simp add: auth_perform_def auth_on_login_def)
    show ?thesis
    proof (cases "lcase (command_word rest) = ''login''")
      case login: True
      with j w ne have "tok = m_str_token a1" "v = None" by (auto simp: judge_def lower.is_map)
      with that [OF perf] login a1 w True show ?thesis by simp
    next
      case False
      with j w ne have "tok = m_str_token a1" "v = Some peUnrecognizedCommand"
        by (auto simp: judge_def lower.is_map)
      with that [OF perf] False a1 w show ?thesis by simp
    qed
  qed
qed

lemma auth_answer_refines:
  assumes inv: "auth_inv a" and ok: "size_ok req"
  shows "\<exists>a'. auth_answer_request req a = (0, a') \<and> auth_inv a' \<and>
    ops_a a' = ops_a a @ [Send_n (fst (auth_spec_step req (m_str_token a)))] \<and>
    m_str_token a' = snd (auth_spec_step req (m_str_token a))"
proof -
  obtain tok v where j: "judge req (m_str_token a) False = (tok, v)" by fastforce
  from inv ok j obtain a1 where a1: "auth_perform req a = a1" "auth_inv a1" "ops_a a1 = ops_a a"
      "m_str_token a1 = tok"
      "m_auth_packet_error a1 = (case v of None \<Rightarrow> peNoPacketError | Some e \<Rightarrow> e)"
      "v \<noteq> Some peNoPacketError"
    by (rule auth_perform_judge)
  have sl: "(str_find req [LF] \<noteq> npos \<and> length req = 2) = short_line req"
    by (rule short_line_eq [OF ok])
  from a1 show ?thesis
    by (cases v) (auto simp: auth_answer_request_def sl auth_spec_step_def j auth_inv_def Let_def
        auth_flush_stream_to_connector_def auth_stream_def auth_output_prompt_def auth_log_op_def
        auth_format_packet_error_def error_reply_def)
qed

section \<open>Sessions of the authentication manager\<close>

lemma auth_process_step:
  assumes inv: "auth_inv a" and buf: "buffer_ok n" and p: "auth_process n recvs a = Inr (r, a')"
  shows "r \<in> {0, -1} \<and> auth_inv a' \<and>
    (\<exists>out. ops_a a' = ops_a a @ map Send_n out \<and> length out \<le> 1)"
proof -
  have inv': "auth_inv (auth_reset_error a)" using inv by (simp add: auth_inv_def)
  show ?thesis
  proof (cases "read_request (replicate n NUL) [] recvs")
    case (Request_Read req)
    have "length req \<le> constCommandBufferLength + n"
      using read_request_bound [OF Request_Read] buf by (simp add: buffer_ok_def)
    then have "size_ok req" using small_ok [OF buf] by simp
    from auth_answer_refines [OF inv' this] Request_Read p show ?thesis
      by (auto simp: auth_process_def auth_process_loop_outcome intro: exI [of _ "[x]" for x])
  qed (use p inv' in \<open>auto simp: auth_process_def auth_process_loop_outcome intro: exI [of _ "[]"]\<close>)
qed

interpretation au: reply_session "auth_process cmd_buffer_len" auth_sent auth_inv
proof unfold_locales
  fix a recvs r a'
  assume a: "auth_inv a" "auth_process cmd_buffer_len recvs a = Inr (r, a')"
  note step = auth_process_step [OF a(1) buffer_ok_used(1) a(2)]
  show "auth_inv a'" using step by blast
  show "\<exists>out. auth_sent a' = auth_sent a @ out \<and> length out \<le> 1"
    using step by (auto simp: auth_sent_def)
qed

definition auth_greeting :: "string \<Rightarrow> string" where
  "auth_greeting host = ''* OK authentication manager speaking.... '' @ host
     @ '' chromatic universe 2017 all rights reserved  ready'' @ crlf"

lemma auth_open_cases:
  assumes "auth_open_handler env accept (new_auth_mgr_handler host self mx) = Inr (r, a)"
  shows "accept \<noteq> None \<and> auth_inv a \<and> m_str_token a = [] \<and>
    auth_sent a = [auth_greeting (c_str host)] \<and>
    Schedule_Timer (void_ptr timer_id) mx (time_value (tv_sec mx sdiv 60)) \<in> set (ops_a a)"
  using assms
  by (auto simp: auth_open_handler_def auth_output_boiler_plate_def auth_map_commands_def
      new_auth_mgr_handler_def auth_stream_def auth_output_prompt_def
      auth_flush_stream_to_connector_def auth_concurrency_def auth_inv_def auth_sent_def
      auth_greeting_def auth_log_op_def Let_def split: option.splits if_splits)

end
