(* ===== verification/Auth_Properties.thy ===== *)
theory Auth_Properties
  imports Auth_Facts
begin

text \<open>
  The properties of the authentication manager's connection handler, stated against the
  dispatcher's where the two classes are meant to behave alike.
\<close>

section \<open>A concrete connection\<close>

definition sample_auth :: auth_mgr_handler where
  "sample_auth = auth_map_commands (new_auth_mgr_handler ''node1'' 1 (time_value max_client_timeout))"

lemma sample_auth_inv: "auth_inv sample_auth" "auth_sent sample_auth = []"
  by (simp_all add: sample_auth_def auth_map_commands_def new_auth_mgr_handler_def auth_inv_def
      auth_sent_def)

section \<open>Agreement with the dispatcher\<close>

text \<open>
  C29. The two packet parsers are equivalent. On every packet and every multimap the
  authentication manager's parser leaves the token, the command, the error and the parts
  that the dispatcher's leaves, and nothing else of its handler changes.
\<close>

theorem parsers_agree:
  "parse_command packet parts (parser_view a) =
     (parser_view (fst (auth_parse_command packet parts a)), snd (auth_parse_command packet parts a))
   \<and> (\<exists>t c e. fst (auth_parse_command packet parts a) =
        a\<lparr>m_str_token := t, m_str_command := c, m_auth_packet_error := e\<rparr>)"
  using auth_parse_view [of packet parts a] auth_parse_frame [of packet parts a] by blast

text \<open>
  The two read loops are equivalent. From the same bytes, in the same pieces, both
  \<open>process\<close> functions either find nothing, end the session, read past their buffer, or
  extract the same request and answer it.
\<close>

theorem readers_agree:
  "\<exists>outcome.
     process n recvs h = (case outcome of
        Nothing_Read \<Rightarrow> Inr (0, reset_error h) | Control_Read \<Rightarrow> Inr (-1, reset_error h)
      | Read_Overrun \<Rightarrow> Inl Overread
      | Request_Read req \<Rightarrow> Inr (answer_request req (reset_error h))) \<and>
     auth_process n recvs a = (case outcome of
        Nothing_Read \<Rightarrow> Inr (0, auth_reset_error a) | Control_Read \<Rightarrow> Inr (-1, auth_reset_error a)
      | Read_Overrun \<Rightarrow> Inl Overread
      | Request_Read req \<Rightarrow> Inr (auth_answer_request req (auth_reset_error a)))"
  unfolding process_def auth_process_def process_loop_outcome auth_process_loop_outcome
  by (rule exI [of _ "read_request (replicate n NUL) [] recvs"]) simp

section \<open>Sessions\<close>

definition auth_spec_run :: "string list \<Rightarrow> string \<Rightarrow> string list \<times> string" where
  "auth_spec_run reqs tok =
     foldr (\<lambda>req k tok. let (x, tok1) = auth_spec_step req tok; (out, tok2) = k tok1
                        in (x # out, tok2)) reqs (\<lambda>tok. ([], tok)) tok"

lemma auth_spec_run_simps [simp]:
  "auth_spec_run [] tok = ([], tok)"
  "auth_spec_run (req # reqs) tok =
     (let (x, tok1) = auth_spec_step req tok; (out, tok2) = auth_spec_run reqs tok1
      in (x # out, tok2))"
  by (simp_all add: auth_spec_run_def)

lemma auth_whole_request:
  assumes inv: "auth_inv a" and req: "plain req" "LF \<in> set req" "length req < n" "buffer_ok n"
  shows "\<exists>a'. auth_process n (req # recvs) a = Inr (0, a') \<and> auth_inv a' \<and>
    auth_sent a' = auth_sent a @ [fst (auth_spec_step req (m_str_token a))] \<and>
    m_str_token a' = snd (auth_spec_step req (m_str_token a))"
proof -
  have ok: "size_ok req" using req(3,4) small_ok [of n req] by simp
  have "auth_inv (auth_reset_error a)" using inv by (simp add: auth_inv_def)
  from auth_answer_refines [OF this ok] obtain a' where a':
    "auth_answer_request req (auth_reset_error a) = (0, a')" "auth_inv a'"
    "ops_a a' = ops_a a @ [Send_n (fst (auth_spec_step req (m_str_token a)))]"
    "m_str_token a' = snd (auth_spec_step req (m_str_token a))"
    by auto
  have "read_request (replicate n NUL) [] (req # recvs) = Request_Read req"
    using req ok by (simp add: read_fresh plain_def str_find_char)
  with a' show ?thesis by (simp add: auth_process_def auth_process_loop_outcome auth_sent_def
      del: read_request.simps auth_process_loop.simps)
qed

lemma auth_serve_requests:
  assumes "auth_inv a" "\<forall>req \<in> set reqs. plain req \<and> LF \<in> set req \<and> length req < n" "buffer_ok n"
  shows "\<exists>a'. serve (auth_process n) (map (\<lambda>req. [req]) reqs) a = Inr (False, a') \<and>
    auth_sent a' = auth_sent a @ fst (auth_spec_run reqs (m_str_token a))"
  using assms
proof (induction reqs arbitrary: a)
  case Nil
  then show ?case by simp
next
  case (Cons req reqs)
  then obtain a1 where a1: "auth_process n [req] a = Inr (0, a1)" "auth_inv a1"
      "auth_sent a1 = auth_sent a @ [fst (auth_spec_step req (m_str_token a))]"
      "m_str_token a1 = snd (auth_spec_step req (m_str_token a))"
    using auth_whole_request [of a req n "[]"] by auto
  with Cons.IH [OF a1(2)] Cons.prems show ?case by (auto simp: split_beta Let_def)
qed

text \<open>
  C25. Refinement of a whole session of the authentication manager. After \<open>open\<close> it sends
  its greeting and then, for each request that arrives in one read, the reply of its
  specification: the dispatcher's error texts for a refused request, and an empty message
  for every login, the first one as well as the following ones.
\<close>

theorem auth_session_refines_spec:
  assumes "auth_open_handler env accept (new_auth_mgr_handler host self mx) = Inr (r, a)"
    and "\<forall>req \<in> set reqs. plain req \<and> LF \<in> set req \<and> length req < cmd_buffer_len"
  shows "\<exists>a'. serve (auth_process cmd_buffer_len) (map (\<lambda>req. [req]) reqs) a = Inr (False, a') \<and>
    auth_sent a' = auth_greeting (c_str host) # fst (auth_spec_run reqs [])"
proof -
  have o: "auth_inv a" "m_str_token a = []" "auth_sent a = [auth_greeting (c_str host)]"
    using auth_open_cases [OF assms(1)] by simp_all
  with auth_serve_requests [OF o(1) assms(2) buffer_ok_used(1)] show ?thesis by simp
qed

definition auth_login_line :: string where
  "auth_login_line = ''a1 LOGIN'' @ crlf"

lemma auth_login_judged: "judge auth_login_line tok False = (''a1'', None)"
proof -
  have w: "words_of auth_login_line = Some (''a1'', ''LOGIN'' @ crlf)"
    by (simp add: words_of_Some auth_login_line_def char_defs crlf_def)
  have "words_of (''LOGIN'' @ crlf) = None" by (simp add: words_of_None char_defs crlf_def)
  then have "command_word (''LOGIN'' @ crlf) = ''LOGIN''"
    by (simp add: command_word_def strip_end_def crlf_def)
  moreover have "map tolower ''LOGIN'' = ''login''" by code_simp
  ultimately have "map tolower (command_word (''LOGIN'' @ crlf)) = ''login''" by (simp only:)
  with w show ?thesis by (simp add: judge_def constMaxTokenLength_def auth_login_line_def)
qed

lemma auth_login_ok: "plain auth_login_line" "LF \<in> set auth_login_line"
  "length auth_login_line < cmd_buffer_len" "\<not> short_line auth_login_line"
  by (simp_all add: auth_login_line_def plain_def no_nul_def crlf_def char_defs cmd_buffer_len_def
      short_line_def)

theorem auth_session_refines_spec_witness:
  "\<exists>r a a'. auth_open_handler sample_env (Some single_threaded)
      (new_auth_mgr_handler ''node1'' 1 0) = Inr (r, a) \<and>
    serve (auth_process cmd_buffer_len) [[auth_login_line], [auth_login_line]] a = Inr (False, a') \<and>
    auth_sent a' = [auth_greeting (c_str ''node1''), [], []]"
proof -
  obtain r a where o: "auth_open_handler sample_env (Some single_threaded)
      (new_auth_mgr_handler ''node1'' 1 0) = Inr (r, a)"
    by (auto simp: auth_open_handler_def auth_concurrency_def sample_env_def Let_def)
       (auto simp: auth_output_boiler_plate_def auth_map_commands_def new_auth_mgr_handler_def
        auth_stream_def auth_output_prompt_def auth_flush_stream_to_connector_def auth_log_op_def
        Let_def)
  have s: "auth_spec_step auth_login_line tok = ([], ''a1'')" for tok
    by (simp add: auth_spec_step_def auth_login_judged)
  from auth_session_refines_spec [OF o, of "[auth_login_line, auth_login_line]"] auth_login_ok o
  show ?thesis by (fastforce simp: s)
qed

end
