(* ===== verification/Pool.thy ===== *)
theory Pool
  imports Prelude "HOL-Library.Multiset"
begin

text \<open>
  The worker pool of the dispatcher (cci_daemon/src/procs/proc_ace_thread_pool.cpp and the
  guards of include/proc_ace_acceptor.h): a message queue of handler pointers, a null
  pointer asking a worker to end, worker threads in \<open>svc\<close>, and one thread in \<open>stop\<close>. One
  step of one thread is a function; the inductive relation \<open>pool_step\<close> interleaves them.
  The message queue, thread creation and cancellation are ACE's: their answers are
  arguments.
\<close>

section \<open>The state\<close>

datatype worker =
    Starting               \<comment> \<open>spawned, before testcancel\<close>
  | Waiting                \<comment> \<open>in \<open>getq\<close>\<close>
  | Got "nat option"       \<comment> \<open>holding a message: a handler or the null pointer\<close>
  | Done

datatype stop_state = Not_Stopping | Putting int | Polling | Stopped

record pool =
  active_threads :: int
  msg_queue :: "nat option list"
  live_blocks :: int            \<comment> \<open>message blocks allocated and not released\<close>
  workers :: "worker list"
  stopper :: stop_state
  put_log :: "nat option list"  \<comment> \<open>messages ever put, in order\<close>
  taken_log :: "nat option list"
  handled :: "nat list"         \<comment> \<open>handlers whose \<open>handle_input\<close> a worker called\<close>
  closed :: "nat list"          \<comment> \<open>handlers whose \<open>handle_close\<close> a worker called\<close>

definition new_pool :: pool where
  "new_pool = \<lparr>active_threads = 0, msg_queue = [], live_blocks = 0, workers = [],
     stopper = Not_Stopping, put_log = [], taken_log = [], handled = [], closed = []\<rparr>"

definition default_pool_size :: nat where "default_pool_size = 25"

section \<open>The guards\<close>

definition counter_guard :: "pool \<Rightarrow> pool" where
  "counter_guard p = p\<lparr>active_threads := active_threads p + 1\<rparr>"

definition counter_guard_dtor :: "pool \<Rightarrow> pool" where
  "counter_guard_dtor p = p\<lparr>active_threads := active_threads p - 1\<rparr>"

definition message_block_guard_dtor :: "pool \<Rightarrow> pool" where
  "message_block_guard_dtor p = p\<lparr>live_blocks := live_blocks p - 1\<rparr>"

section \<open>The operations\<close>

definition start :: "bool \<Rightarrow> int \<Rightarrow> pool \<Rightarrow> int \<times> pool" where
  \<comment> \<open>\<open>activate\<close>, True if the threads can be spawned\<close>
  "start spawn_ok pool_size p =
     (if spawn_ok then (0, p\<lparr>workers := workers p @ replicate (nat pool_size) Starting\<rparr>)
      else (-1, p))"

definition enqueue :: "bool \<Rightarrow> bool \<Rightarrow> nat option \<Rightarrow> pool \<Rightarrow> int \<times> pool" where
  \<comment> \<open>\<open>alloc_ok\<close>: the block was allocated; \<open>putq_ok\<close>: \<open>putq\<close> did not return -1\<close>
  "enqueue alloc_ok putq_ok v p =
     (if \<not> alloc_ok then (-1, p)
      else let p = p\<lparr>live_blocks := live_blocks p + 1\<rparr>
      in if \<not> putq_ok then (-1, p\<lparr>live_blocks := live_blocks p - 1\<rparr>)
         else (0, p\<lparr>msg_queue := msg_queue p @ [v], put_log := put_log p @ [v]\<rparr>))"

text \<open>
  The answers one step of a worker receives: \<open>testcancel\<close>, whether \<open>getq\<close> returns -1, and
  what the handler's \<open>handle_input\<close> returns.
\<close>

record svc_answers =
  a_cancelled :: bool
  a_getq_fails :: bool
  a_handle_input :: int

fun svc_step :: "svc_answers \<Rightarrow> worker \<Rightarrow> pool \<Rightarrow> (worker \<times> pool) option" where
  "svc_step a Starting p =
     (if a_cancelled a then Some (Done, p) else Some (Waiting, counter_guard p))"
| "svc_step a Waiting p =
     (if a_getq_fails a then Some (Done, counter_guard_dtor p)
      else case msg_queue p of
        [] \<Rightarrow> None
      | m # q \<Rightarrow> Some (Got m, p\<lparr>msg_queue := q, taken_log := taken_log p @ [m]\<rparr>))"
| "svc_step a (Got (Some h)) p =
     (let p = p\<lparr>handled := handled p @ [h]\<rparr>;
          p = (if a_handle_input a = -1 then p\<lparr>closed := closed p @ [h]\<rparr> else p)
      in Some (Waiting, message_block_guard_dtor p))"
| "svc_step a (Got None) p = Some (Done, counter_guard_dtor (message_block_guard_dtor p))"
| "svc_step a Done p = None"

definition stop_step :: "bool \<Rightarrow> bool \<Rightarrow> pool \<Rightarrow> pool option" where
  \<comment> \<open>one step of the thread in \<open>stop\<close>; in \<open>Polling\<close> it sleeps while a worker is active\<close>
  "stop_step alloc_ok putq_ok p =
     (case stopper p of
        Not_Stopping \<Rightarrow> Some (p\<lparr>stopper := Putting (active_threads p)\<rparr>)
      | Putting counter \<Rightarrow>
          if counter = 0 then Some (p\<lparr>stopper := Polling\<rparr>)
          else Some ((snd (enqueue alloc_ok putq_ok None p))\<lparr>stopper := Putting (counter - 1)\<rparr>)
      | Polling \<Rightarrow> if active_threads p \<noteq> 0 then Some p else Some (p\<lparr>stopper := Stopped\<rparr>)
      | Stopped \<Rightarrow> None)"

section \<open>All interleavings\<close>

text \<open>
  The parameter says whether ACE is well behaved: no allocation fails and the queue is
  never deactivated. \<open>start\<close> is called by \<open>open\<close> of the acceptor, hence not once \<open>stop\<close>
  has been called by its \<open>close\<close>; the reactor's thread may enqueue a handler at any time.
\<close>

inductive pool_step :: "bool \<Rightarrow> pool \<Rightarrow> pool \<Rightarrow> bool" for ok :: bool where
  Start: "stopper p = Not_Stopping \<Longrightarrow> pool_step ok p (snd (start b n p))"
| Enqueue: "ok \<longrightarrow> al \<and> pu \<Longrightarrow> pool_step ok p (snd (enqueue al pu (Some h) p))"
| Svc: "\<lbrakk>i < length (workers p); ok \<longrightarrow> \<not> a_getq_fails a;
     svc_step a (workers p ! i) p = Some (w, p')\<rbrakk> \<Longrightarrow>
   pool_step ok p (p'\<lparr>workers := (workers p')[i := w]\<rparr>)"
| Stop: "\<lbrakk>ok \<longrightarrow> al \<and> pu; stop_step al pu p = Some p'\<rbrakk> \<Longrightarrow> pool_step ok p p'"

inductive_cases pool_stepE: "pool_step ok p q"

inductive pool_steps :: "bool \<Rightarrow> pool \<Rightarrow> pool \<Rightarrow> bool" for ok :: bool where
  Here: "pool_steps ok p p"
| Then: "pool_steps ok p q \<Longrightarrow> pool_step ok q r \<Longrightarrow> pool_steps ok p r"

definition reachable :: "bool \<Rightarrow> pool \<Rightarrow> bool" where
  "reachable ok p \<longleftrightarrow> pool_steps ok new_pool p"

section \<open>Counting the threads and the blocks\<close>

fun is_active :: "worker \<Rightarrow> bool" where
  "is_active Waiting = True"
| "is_active (Got _) = True"
| "is_active _ = False"

fun is_got :: "worker \<Rightarrow> bool" where
  "is_got (Got _) = True"
| "is_got _ = False"

definition number :: "(worker \<Rightarrow> bool) \<Rightarrow> worker list \<Rightarrow> int" where
  "number P ws = int (length (filter P ws))"

lemma number_simps [simp]:
  "number P [] = 0"
  "number P (w # ws) = (if P w then 1 else 0) + number P ws"
  "number P (xs @ ys) = number P xs + number P ys"
  by (simp_all add: number_def)

lemma number_replicate [simp]: "\<not> P w \<Longrightarrow> number P (replicate n w) = 0"
  by (simp add: number_def)

lemma number_update: "i < length ws \<Longrightarrow> number P (ws[i := w]) =
    number P ws - (if P (ws ! i) then 1 else 0) + (if P w then 1 else 0)"
  by (induction ws arbitrary: i) (auto simp: nth_Cons split: nat.splits)

lemma number_nonneg [simp]: "0 \<le> number P ws"
  by (simp add: number_def)

lemma number_pos: "i < length ws \<Longrightarrow> P (ws ! i) \<Longrightarrow> 0 < number P ws"
  by (auto simp: number_def length_filter_conv_card card_gt_0_iff)

definition handlers :: "nat option list \<Rightarrow> nat multiset" where
  "handlers ms = mset (map the (filter (\<lambda>m. m \<noteq> None) ms))"

fun in_hand :: "worker \<Rightarrow> nat multiset" where
  "in_hand (Got (Some h)) = {#h#}"
| "in_hand _ = {#}"

definition in_hands :: "worker list \<Rightarrow> nat multiset" where
  "in_hands ws = sum_list (map in_hand ws)"

lemma handlers_simps [simp]:
  "handlers [] = {#}" "handlers (xs @ ys) = handlers xs + handlers ys"
  "handlers (None # xs) = handlers xs" "handlers (Some h # xs) = add_mset h (handlers xs)"
  by (simp_all add: handlers_def)

lemma in_hands_simps [simp]:
  "in_hands [] = {#}" "in_hands (w # ws) = in_hand w + in_hands ws"
  "in_hands (xs @ ys) = in_hands xs + in_hands ys"
  by (simp_all add: in_hands_def)

lemma in_hands_replicate [simp]: "in_hands (replicate n Starting) = {#}"
  by (induction n) simp_all

lemma in_hands_update: "i < length ws \<Longrightarrow>
    in_hands (ws[i := w]) + in_hand (ws ! i) = in_hands ws + in_hand w"
  by (induction ws arbitrary: i) (auto simp: nth_Cons split: nat.splits)

definition pool_inv :: "pool \<Rightarrow> bool" where
  "pool_inv p \<longleftrightarrow>
     active_threads p = number is_active (workers p) \<and>
     live_blocks p = int (length (msg_queue p)) + number is_got (workers p) \<and>
     put_log p = taken_log p @ msg_queue p \<and>
     handlers (taken_log p) = mset (handled p) + in_hands (workers p)"

lemma new_pool_inv: "pool_inv new_pool"
  by (simp add: pool_inv_def new_pool_def)

lemma start_inv: "pool_inv p \<Longrightarrow> pool_inv (snd (start b n p))"
  by (simp add: start_def pool_inv_def)

lemma enqueue_inv: "pool_inv p \<Longrightarrow> pool_inv (snd (enqueue al pu v p))"
  by (simp add: enqueue_def pool_inv_def Let_def)

lemma stop_inv: "pool_inv p \<Longrightarrow> stop_step al pu p = Some p' \<Longrightarrow> pool_inv p'"
  using enqueue_inv [of p al pu None]
  by (auto simp: stop_step_def pool_inv_def split: stop_state.splits if_splits)

lemmas guard_defs = counter_guard_def counter_guard_dtor_def message_block_guard_dtor_def

lemma svc_frame: "svc_step a w0 p = Some (w, p') \<Longrightarrow>
    stopper p' = stopper p \<and> put_log p' = put_log p \<and> workers p' = workers p"
  by (cases "(a, w0, p)" rule: svc_step.cases)
    (auto simp: guard_defs Let_def split: if_splits list.splits)

lemma svc_got_handler: "svc_step a (Got (Some h)) p = Some (w, p') \<Longrightarrow>
    w = Waiting \<and> active_threads p' = active_threads p \<and> taken_log p' = taken_log p"
  by (auto simp: guard_defs Let_def)

lemma svc_taken: "svc_step a w0 p = Some (w, p') \<Longrightarrow>
    set (taken_log p) \<subseteq> set (taken_log p') \<and> (\<forall>m. w = Got m \<longrightarrow> m \<in> set (taken_log p'))"
  by (cases "(a, w0, p)" rule: svc_step.cases)
    (auto simp: guard_defs Let_def split: if_splits list.splits)

lemma svc_inv:
  assumes inv: "pool_inv p" and i: "i < length (workers p)"
    and s: "svc_step a (workers p ! i) p = Some (w, p')"
  shows "pool_inv (p'\<lparr>workers := (workers p')[i := w]\<rparr>)"
proof -
  note num = number_update [OF i] and hands = in_hands_update [OF i, of w]
  show ?thesis
  proof (cases "workers p ! i")
    case Starting
    with inv s num hands show ?thesis
      by (auto simp: pool_inv_def guard_defs split: if_splits)
  next
    case Waiting
    show ?thesis
    proof (cases "a_getq_fails a")
      case True
      with Waiting inv s num hands show ?thesis by (auto simp: pool_inv_def guard_defs)
    next
      case False
      with Waiting s obtain m q where q: "msg_queue p = m # q" "w = Got m"
          "p' = p\<lparr>msg_queue := q, taken_log := taken_log p @ [m]\<rparr>"
        by (auto split: list.splits)
      have "in_hands ((workers p)[i := w]) = in_hands (workers p) + in_hand (Got m)"
        using hands Waiting q by simp
      with inv num Waiting q show ?thesis by (cases m) (auto simp: pool_inv_def)
    qed
  next
    case (Got m)
    show ?thesis
    proof (cases m)
      case None
      with Got inv s num hands show ?thesis by (auto simp: pool_inv_def guard_defs)
    next
      case (Some h)
      have "in_hands ((workers p)[i := w]) + {#h#} = in_hands (workers p)"
        using hands Got Some s by (auto simp: Let_def)
      then have "in_hands (workers p) = add_mset h (in_hands ((workers p)[i := w]))" by simp
      with inv num Got Some s show ?thesis
        by (auto simp: pool_inv_def guard_defs Let_def)
    qed
  next
    case Done
    with s show ?thesis by simp
  qed
qed

lemma pool_step_inv: "pool_step ok p p' \<Longrightarrow> pool_inv p \<Longrightarrow> pool_inv p'"
  by (induction rule: pool_step.induct) (auto intro: start_inv enqueue_inv svc_inv stop_inv)

lemma pool_steps_preserve:
  assumes "pool_steps ok p p'" "P p" "\<And>q r. pool_step ok q r \<Longrightarrow> P q \<Longrightarrow> P r"
  shows "P p'"
  using assms(1,2) by (induction rule: pool_steps.induct) (use assms(3) in blast)+

lemma pool_steps_inv: "pool_steps ok p p' \<Longrightarrow> pool_inv p \<Longrightarrow> pool_inv p'"
  by (rule pool_steps_preserve) (auto intro: pool_step_inv)

lemma reachable_inv: "reachable ok p \<Longrightarrow> pool_inv p"
  unfolding reachable_def using pool_steps_inv new_pool_inv by blast

section \<open>Stopping a pool whose workers have all started\<close>

text \<open>
  From the moment \<open>stop\<close> reads the counter, every worker still to end has its own null
  message, put or to be put. \<open>k\<close> is the counter that was read and \<open>before\<close> what had been
  put by then.
\<close>

fun nulls :: "nat option list \<Rightarrow> int" where
  "nulls [] = 0"
| "nulls (m # ms) = (if m = None then 1 else 0) + nulls ms"

lemma nulls_append [simp]: "nulls (xs @ ys) = nulls xs + nulls ys"
  by (induction xs) auto

lemma nulls_nonneg [simp]: "0 \<le> nulls xs"
  by (induction xs) auto

lemma nulls_0: "nulls xs = 0 \<longleftrightarrow> None \<notin> set xs"
proof (induction xs)
  case (Cons m xs)
  have "1 + nulls xs \<noteq> 0" using nulls_nonneg [of xs] by linarith
  with Cons show ?case by auto
qed simp

fun still_to_put :: "stop_state \<Rightarrow> int" where
  "still_to_put (Putting c) = c"
| "still_to_put _ = 0"

definition leaving :: "worker \<Rightarrow> bool" where
  "leaving w \<longleftrightarrow> w = Got None"

definition stopping_inv :: "int \<Rightarrow> nat option list \<Rightarrow> pool \<Rightarrow> bool" where
  "stopping_inv k before p \<longleftrightarrow>
     stopper p \<noteq> Not_Stopping \<and> Starting \<notin> set (workers p) \<and>
     0 \<le> still_to_put (stopper p) \<and>
     nulls (put_log p) + still_to_put (stopper p) = k \<and>
     active_threads p = k - nulls (taken_log p) + number leaving (workers p) \<and>
     (stopper p = Stopped \<longrightarrow> active_threads p = 0) \<and>
     None \<notin> set before \<and> (\<exists>after. put_log p = before @ after)"

lemma enqueue_stopping:
  assumes "stopping_inv k before p" "al" "pu"
  shows "stopping_inv k before (snd (enqueue al pu (Some h) p))"
  using assms by (auto simp: stopping_inv_def enqueue_def Let_def)

lemma stop_stopping:
  assumes "stopping_inv k before p" "al" "pu" "stop_step al pu p = Some p'"
  shows "stopping_inv k before p'"
proof (cases "stopper p")
  case (Putting c)
  show ?thesis
  proof (cases "c = 0")
    case True
    with assms Putting show ?thesis by (auto simp: stopping_inv_def stop_step_def)
  next
    case False
    with assms(2-4) Putting have p': "p' = p\<lparr>live_blocks := live_blocks p + 1,
        msg_queue := msg_queue p @ [None], put_log := put_log p @ [None],
        stopper := Putting (c - 1)\<rparr>"
      by (simp add: stop_step_def enqueue_def Let_def)
    have "0 \<le> c" using assms(1) Putting by (simp add: stopping_inv_def)
    with False assms(1) Putting show ?thesis unfolding p' by (auto simp: stopping_inv_def)
  qed
qed (use assms in \<open>auto simp: stopping_inv_def stop_step_def split: if_splits\<close>)

lemma svc_stopping:
  assumes inv: "pool_inv p" and st: "stopping_inv k before p" and i: "i < length (workers p)"
    and ok: "\<not> a_getq_fails a" and s: "svc_step a (workers p ! i) p = Some (w, p')"
  shows "stopping_inv k before (p'\<lparr>workers := (workers p')[i := w]\<rparr>)"
proof -
  have num: "number leaving ((workers p)[i := w]) = number leaving (workers p)
      - (if leaving (workers p ! i) then 1 else 0) + (if leaving w then 1 else 0)"
    by (rule number_update [OF i])
  have starting: "Starting \<notin> set (workers p)" using st by (simp add: stopping_inv_def)
  have upd: "Starting \<notin> set ((workers p)[i := w'])" if "w' \<noteq> Starting" for w'
    using starting that set_update_subset_insert [of "workers p" i w'] by auto
  have active: "0 < active_threads p" if "is_active (workers p ! i)"
    using number_pos [of i "workers p" is_active] i that inv by (simp add: pool_inv_def)
  show ?thesis
  proof (cases "workers p ! i")
    case Starting
    with i starting show ?thesis by (metis nth_mem)
  next
    case Waiting
    with ok s obtain m q where q: "msg_queue p = m # q" "w = Got m"
        "p' = p\<lparr>msg_queue := q, taken_log := taken_log p @ [m]\<rparr>"
      by (auto split: list.splits)
    with st num Waiting active upd [of "Got m"] show ?thesis
      by (cases m) (auto simp: stopping_inv_def leaving_def)
  next
    case (Got m)
    show ?thesis
    proof (cases m)
      case None
      with Got s st num active upd [of Done] show ?thesis
        by (auto simp: stopping_inv_def leaving_def guard_defs)
    next
      case (Some h)
      with s svc_got_handler [of a h p w p'] svc_frame [OF s] Got
      have "w = Waiting" "active_threads p' = active_threads p" "taken_log p' = taken_log p"
        "stopper p' = stopper p" "put_log p' = put_log p" "workers p' = workers p"
        by simp_all
      with Got Some st num active upd [of Waiting] show ?thesis
        by (auto simp: stopping_inv_def leaving_def)
    qed
  next
    case Done
    with s show ?thesis by simp
  qed
qed

lemma pool_step_stopping:
  "pool_step True p p' \<Longrightarrow> pool_inv p \<Longrightarrow> stopping_inv k before p \<Longrightarrow> stopping_inv k before p'"
proof (induction rule: pool_step.induct)
  case (Start p b n)
  then show ?case by (simp add: stopping_inv_def)
qed (auto intro: enqueue_stopping svc_stopping stop_stopping)

lemma pool_steps_stopping:
  "pool_steps True p p' \<Longrightarrow> pool_inv p \<Longrightarrow> stopping_inv k before p \<Longrightarrow>
   pool_inv p' \<and> stopping_inv k before p'"
  by (induction rule: pool_steps.induct) (auto intro: pool_step_inv pool_step_stopping)

text \<open>Before \<open>stop\<close> nothing but handlers is ever put.\<close>

lemma not_stopping_no_null:
  assumes "pool_step ok p p'" "stopper p = Not_Stopping \<longrightarrow> None \<notin> set (put_log p)"
  shows "stopper p' = Not_Stopping \<longrightarrow> None \<notin> set (put_log p')"
  using assms
proof (induction rule: pool_step.induct)
  case (Svc i p a w p')
  from svc_frame [OF Svc(3)] Svc(4) show ?case by simp
qed (auto simp: start_def enqueue_def stop_step_def Let_def split: stop_state.splits if_splits)

lemma reachable_no_null:
  assumes "reachable ok p" "stopper p = Not_Stopping"
  shows "None \<notin> set (put_log p)"
proof -
  have "stopper p = Not_Stopping \<longrightarrow> None \<notin> set (put_log p)"
    using assms(1) unfolding reachable_def
    by (rule pool_steps_preserve) (auto simp: new_pool_def dest: not_stopping_no_null)
  with assms(2) show ?thesis by simp
qed

text \<open>A message in a worker's hands has been taken from the queue.\<close>

definition hands_taken :: "pool \<Rightarrow> bool" where
  "hands_taken p \<longleftrightarrow> (\<forall>m. Got m \<in> set (workers p) \<longrightarrow> m \<in> set (taken_log p))"

lemma hands_taken_step:
  assumes "pool_step ok p p'" "hands_taken p"
  shows "hands_taken p'"
  using assms
proof (induction rule: pool_step.induct)
  case (Svc i p a w p')
  from svc_frame [OF Svc(3)] svc_taken [OF Svc(3)] Svc(4)
    set_update_subset_insert [of "workers p" i w]
  show ?case by (auto simp: hands_taken_def)
qed (auto simp: hands_taken_def start_def enqueue_def stop_step_def Let_def
    split: stop_state.splits if_splits)

lemma reachable_hands_taken: "reachable ok p \<Longrightarrow> hands_taken p"
  unfolding reachable_def
  by (erule pool_steps_preserve) (auto simp: new_pool_def hands_taken_def dest: hands_taken_step
      [unfolded hands_taken_def])

lemma stopping_starts:
  assumes "reachable True p" "stopper p = Not_Stopping" "Starting \<notin> set (workers p)"
    "stop_step al pu p = Some p'"
  shows "pool_inv p' \<and> stopping_inv (active_threads p) (put_log p) p'"
proof -
  have inv: "pool_inv p" by (rule reachable_inv [OF assms(1)])
  have nn: "None \<notin> set (put_log p)" by (rule reachable_no_null [OF assms(1,2)])
  then have nt: "None \<notin> set (taken_log p)" using inv by (auto simp: pool_inv_def)
  then have "Got None \<notin> set (workers p)"
    using reachable_hands_taken [OF assms(1)] by (auto simp: hands_taken_def)
  then have "number leaving (workers p) = 0"
    by (simp add: number_def leaving_def filter_empty_conv) metis
  moreover have "nulls (taken_log p) = 0" "nulls (put_log p) = 0" using nn nt by (simp_all add: nulls_0)
  moreover have "p' = p\<lparr>stopper := Putting (active_threads p)\<rparr>"
    using assms(2,4) by (simp add: stop_step_def)
  moreover have "0 \<le> active_threads p" using inv by (simp add: pool_inv_def)
  ultimately show ?thesis using inv nn assms(3) by (simp add: stopping_inv_def pool_inv_def)
qed

section \<open>Progress of stop\<close>

definition quiet_step :: "pool \<Rightarrow> pool \<Rightarrow> bool" where
  \<comment> \<open>a step of a worker or of \<open>stop\<close>: no handler arrives\<close>
  "quiet_step p p' \<longleftrightarrow> pool_step True p p' \<and> handlers (put_log p') = handlers (put_log p)"

fun phase :: "stop_state \<Rightarrow> nat" where
  "phase Not_Stopping = 3"
| "phase (Putting c) = 2"
| "phase Polling = 1"
| "phase Stopped = 0"

definition rank :: "pool \<Rightarrow> nat" where
  "rank p = 4 * nat (still_to_put (stopper p)) + 2 * length (msg_queue p) +
     length (filter is_got (workers p)) + phase (stopper p)"

lemma got_update: "i < length ws \<Longrightarrow>
    length (filter is_got (ws[i := w])) + (if is_got (ws ! i) then 1 else 0) =
    length (filter is_got ws) + (if is_got w then 1 else 0)"
  using number_update [of i ws is_got w] by (auto simp: number_def split: if_splits)

lemma svc_rank:
  assumes "i < length (workers p)" "Starting \<notin> set (workers p)" "\<not> a_getq_fails a"
    "svc_step a (workers p ! i) p = Some (w, p')"
  shows "rank (p'\<lparr>workers := (workers p')[i := w]\<rparr>) < rank p"
proof -
  note got = got_update [OF assms(1), of w]
  have "workers p ! i \<noteq> Starting" using assms(1,2) by (metis nth_mem)
  with assms got show ?thesis
    by (cases "(a, workers p ! i, p)" rule: svc_step.cases)
      (auto simp: rank_def guard_defs Let_def split: if_splits list.splits)
qed

lemma stop_rank:
  assumes "stop_step True True p = Some p'" "0 \<le> still_to_put (stopper p)"
    "stopper p \<noteq> Not_Stopping"
  shows "p' = p \<or> rank p' < rank p"
proof (cases "stopper p")
  case (Putting c)
  show ?thesis
  proof (cases "c = 0")
    case True
    with assms Putting show ?thesis by (auto simp: stop_step_def rank_def)
  next
    case False
    with assms Putting have "p' = p\<lparr>live_blocks := live_blocks p + 1,
        msg_queue := msg_queue p @ [None], put_log := put_log p @ [None],
        stopper := Putting (c - 1)\<rparr>" "0 < c"
      by (simp_all add: stop_step_def enqueue_def Let_def)
    moreover from this(2) have "nat c = Suc (nat (c - 1))" by linarith
    ultimately show ?thesis using Putting by (simp add: rank_def)
  qed
qed (use assms in \<open>auto simp: stop_step_def rank_def split: if_splits\<close>)

lemma quiet_step_rank:
  assumes "stopping_inv k before p" "quiet_step p p'"
  shows "p' = p \<or> rank p' < rank p"
proof -
  have st: "stopper p \<noteq> Not_Stopping" "Starting \<notin> set (workers p)" "0 \<le> still_to_put (stopper p)"
    using assms(1) by (simp_all add: stopping_inv_def)
  from assms(2) have "pool_step True p p'" "handlers (put_log p') = handlers (put_log p)"
    by (simp_all add: quiet_step_def)
  then show ?thesis
  proof (cases rule: pool_step.cases)
    case (Start b n)
    with st show ?thesis by simp
  next
    case (Enqueue al pu h)
    with \<open>handlers (put_log p') = handlers (put_log p)\<close> show ?thesis
      by (simp add: enqueue_def Let_def)
  next
    case (Svc i a w q)
    with svc_rank [OF Svc(2) st(2) _ Svc(4)] show ?thesis by simp
  next
    case (Stop al pu)
    with stop_rank st show ?thesis by simp
  qed
qed

lemma quiet_svc:
  assumes "i < length (workers p)" "\<not> a_getq_fails a"
    "svc_step a (workers p ! i) p = Some (w, p')"
  shows "quiet_step p (p'\<lparr>workers := (workers p')[i := w]\<rparr>)"
  using pool_step.Svc [OF assms(1) _ assms(3), of True] assms(2) svc_frame [OF assms(3)]
  by (simp add: quiet_step_def)

lemma quiet_stop: "stop_step True True p = Some p' \<Longrightarrow> quiet_step p p'"
  using pool_step.Stop [of True True True p p']
  by (auto simp: quiet_step_def stop_step_def enqueue_def Let_def split: stop_state.splits if_splits)

definition calm :: svc_answers where
  "calm = \<lparr>a_cancelled = False, a_getq_fails = False, a_handle_input = 0\<rparr>"

text \<open>A worker that is still active can always take a step: it has a message, or there is one.\<close>

lemma active_worker_moves:
  assumes inv: "pool_inv p" and st: "stopping_inv k before p" and ph: "stopper p = Polling"
    and act: "active_threads p \<noteq> 0"
  shows "\<exists>p'. quiet_step p p' \<and> rank p' < rank p"
proof -
  have starting: "Starting \<notin> set (workers p)" using st by (simp add: stopping_inv_def)
  have move: "\<exists>p'. quiet_step p p' \<and> rank p' < rank p"
    if "i < length (workers p)" "svc_step calm (workers p ! i) p = Some (w, q)" for i w q
    using quiet_svc [OF that(1) _ that(2)] svc_rank [OF that(1) starting _ that(2)]
    by (auto simp: calm_def)
  show ?thesis
  proof (cases "\<exists>i < length (workers p). is_got (workers p ! i)")
    case True
    then obtain i m where i: "i < length (workers p)" "workers p ! i = Got m"
      using is_got.elims(2) by metis
    then show ?thesis using move [OF i(1)] by (cases m) (auto simp: Let_def)
  next
    case False
    then have none: "\<not> is_got w" if "w \<in> set (workers p)" for w
      using that by (metis in_set_conv_nth)
    have "0 < number is_active (workers p)"
      using inv act by (auto simp: pool_inv_def number_def)
    then obtain i where i: "i < length (workers p)" "is_active (workers p ! i)"
      by (auto simp: number_def filter_empty_conv in_set_conv_nth)
    then have w: "workers p ! i = Waiting"
      using none [of "workers p ! i"] nth_mem [OF i(1)] by (cases "workers p ! i") auto
    have "number leaving (workers p) = 0"
      using none [of "Got None"] by (auto simp: number_def leaving_def filter_empty_conv)
    then have "nulls (taken_log p) \<noteq> nulls (put_log p)"
      using st ph act by (auto simp: stopping_inv_def)
    then have "msg_queue p \<noteq> []" using inv by (auto simp: pool_inv_def)
    then obtain m q where "msg_queue p = m # q" by (cases "msg_queue p") auto
    with w show ?thesis using move [OF i(1)] by (auto simp: calm_def)
  qed
qed

lemma stop_moves:
  assumes inv: "pool_inv p" and st: "stopping_inv k before p" and ph: "stopper p \<noteq> Stopped"
  shows "\<exists>p'. quiet_step p p' \<and> rank p' < rank p"
proof (cases "stopper p = Polling \<and> active_threads p \<noteq> 0")
  case True
  then show ?thesis using active_worker_moves [OF inv st] by simp
next
  case False
  have ns: "stopper p \<noteq> Not_Stopping" using st by (simp add: stopping_inv_def)
  have "stop_step True True p \<noteq> None"
    using ph by (cases "stopper p") (auto simp: stop_step_def)
  then obtain p' where p': "stop_step True True p = Some p'" by blast
  have "stopper p' \<noteq> stopper p"
    using p' False ph ns
    by (cases "stopper p") (auto simp: stop_step_def split: if_splits)
  then have "p' \<noteq> p" by auto
  with stop_rank [OF p' _ ns] quiet_stop [OF p'] st show ?thesis
    by (auto simp: stopping_inv_def)
qed

lemma stop_reached: "pool_inv p \<Longrightarrow> stopping_inv k before p \<Longrightarrow>
    \<exists>q. quiet_step\<^sup>*\<^sup>* p q \<and> stopper q = Stopped"
proof (induction "rank p" arbitrary: p rule: less_induct)
  case less
  show ?case
  proof (cases "stopper p = Stopped")
    case False
    obtain p' where p': "quiet_step p p'" "rank p' < rank p" using stop_moves [OF less.prems False] by blast
    then have "pool_step True p p'" by (simp add: quiet_step_def)
    from less.hyps [OF p'(2) pool_step_inv [OF this less.prems(1)] pool_step_stopping [OF this less.prems]] p'(1)
    show ?thesis by (blast intro: converse_rtranclp_into_rtranclp)
  qed blast
qed

end
