(* ===== verification/Pool_Properties.thy ===== *)
theory Pool_Properties
  imports Pool
begin

text \<open>The properties of the worker pool over all interleavings of its threads.\<close>

section \<open>Two concrete runs\<close>

text \<open>One worker has started and a handler has been put when \<open>stop\<close> is called.\<close>

definition busy_pool :: pool where
  "busy_pool = new_pool\<lparr>active_threads := 1, msg_queue := [Some 5], live_blocks := 1,
     workers := [Waiting], put_log := [Some 5]\<rparr>"

lemma started_worker: "pool_step ok new_pool (new_pool\<lparr>workers := [Starting]\<rparr>)"
  using pool_step.Start [of new_pool ok True 1] by (simp add: start_def new_pool_def)

lemma busy_reachable: "reachable ok busy_pool"
proof -
  let ?p1 = "new_pool\<lparr>workers := [Starting]\<rparr>"
  let ?p2 = "new_pool\<lparr>workers := [Waiting], active_threads := 1\<rparr>"
  have "pool_step ok ?p1 ?p2"
    using pool_step.Svc [of 0 ?p1 ok calm Waiting "counter_guard ?p1"]
    by (simp add: calm_def guard_defs new_pool_def)
  moreover have "pool_step ok ?p2 busy_pool"
    using pool_step.Enqueue [of ok True True ?p2 5]
    by (simp add: enqueue_def new_pool_def busy_pool_def Let_def)
  ultimately show ?thesis
    unfolding reachable_def
    using pool_steps.Then [OF pool_steps.Then [OF pool_steps.Then [OF pool_steps.Here started_worker]]]
    by blast
qed

lemma busy_stop:
  "stopper busy_pool = Not_Stopping" "Starting \<notin> set (workers busy_pool)"
  "stop_step True True busy_pool = Some (busy_pool\<lparr>stopper := Putting 1\<rparr>)"
  by (simp_all add: busy_pool_def new_pool_def stop_step_def)

section \<open>Bookkeeping\<close>

text \<open>
  C9. The guards keep their books. In every reachable state, whatever ACE answers, the
  counter of active threads is the number of workers inside the loop of \<open>svc\<close>, every
  message block that is allocated is in the queue or in the hands of one worker, messages
  leave the queue in the order they were put, and every handler ever put has been handled
  once, is being handled, or waits in the queue.
\<close>

theorem pool_bookkeeping:
  assumes "reachable ok p"
  shows "active_threads p = number is_active (workers p) \<and>
    live_blocks p = int (length (msg_queue p)) + number is_got (workers p) \<and>
    put_log p = taken_log p @ msg_queue p \<and>
    handlers (put_log p) = mset (handled p) + in_hands (workers p) + handlers (msg_queue p)"
  using reachable_inv [OF assms] by (simp add: pool_inv_def)

theorem pool_bookkeeping_witness:
  "active_threads busy_pool = number is_active [Waiting] \<and> handlers (put_log busy_pool) = {#5#}"
  using pool_bookkeeping [OF busy_reachable [of True]]
  by (simp add: busy_pool_def new_pool_def)

section \<open>Stopping\<close>

lemma idle_hands: "(\<And>w. w \<in> set ws \<Longrightarrow> \<not> is_active w) \<Longrightarrow> in_hands ws = {#}"
proof (induction ws)
  case (Cons w ws)
  have "\<not> is_active w" using Cons.prems by simp
  with Cons show ?case by (cases w) auto
qed simp

text \<open>
  C10. Stopping a started pool drains it. If \<open>stop\<close> is called when every worker has started, at
  least one of them is active and ACE is well behaved, then once it has returned no worker is
  in its loop and every handler that had been put before has been handled. Without these
  conditions it need not: \<open>stop_race\<close> below is a schedule in which a worker starts late.
\<close>

theorem stop_drains:
  assumes "reachable True p0" "stopper p0 = Not_Stopping" "Starting \<notin> set (workers p0)"
    and "active_threads p0 \<noteq> 0" "stop_step al pu p0 = Some p1"
    and "pool_steps True p1 p" "stopper p = Stopped"
  shows "active_threads p = 0 \<and> number is_active (workers p) = 0 \<and>
    handlers (put_log p0) \<subseteq># mset (handled p)"
proof -
  have p1: "pool_inv p1" "stopping_inv (active_threads p0) (put_log p0) p1"
    using stopping_starts [OF assms(1,2,3,5)] by simp_all
  then have inv: "pool_inv p" and st: "stopping_inv (active_threads p0) (put_log p0) p"
    using pool_steps_stopping [OF assms(6)] by simp_all
  have act: "active_threads p = 0" "number is_active (workers p) = 0"
    using st inv assms(7) by (simp_all add: stopping_inv_def pool_inv_def)
  then have idle: "\<not> is_active w" if "w \<in> set (workers p)" for w
    using that by (auto simp: number_def filter_empty_conv)
  then have "Got None \<notin> set (workers p)" by fastforce
  then have "number leaving (workers p) = 0"
    by (auto simp: number_def leaving_def filter_empty_conv)
  then have "nulls (taken_log p) \<noteq> 0" using st act assms(4) by (simp add: stopping_inv_def)
  then have null: "None \<in> set (taken_log p)" by (auto simp: nulls_0)
  obtain after where after: "put_log p = put_log p0 @ after" "None \<notin> set (put_log p0)"
    using st by (auto simp: stopping_inv_def)
  then have "taken_log p @ msg_queue p = put_log p0 @ after" using inv by (simp add: pool_inv_def)
  then consider us where "taken_log p @ us = put_log p0"
    | more where "taken_log p = put_log p0 @ more"
    by (auto simp: append_eq_append_conv2)
  then obtain more where "taken_log p = put_log p0 @ more"
  proof cases
    case (1 us)
    then have "set (taken_log p) \<subseteq> set (put_log p0)" by (metis Un_upper1 set_append)
    with null after(2) show ?thesis by blast
  next
    case (2 more)
    with that show ?thesis by blast
  qed
  moreover have "in_hands (workers p) = {#}"
    using idle by (intro idle_hands) blast
  ultimately have "mset (handled p) = handlers (put_log p0) + handlers more"
    using inv by (simp add: pool_inv_def)
  with act show ?thesis by simp
qed

text \<open>The rest of the concrete run, to the end of \<open>stop\<close>.\<close>

definition drained_pool :: pool where
  "drained_pool = new_pool\<lparr>workers := [Done], stopper := Stopped, handled := [5],
     put_log := [Some 5, None], taken_log := [Some 5, None]\<rparr>"

lemma busy_run: "pool_steps True (busy_pool\<lparr>stopper := Putting 1\<rparr>) drained_pool"
proof -
  note d = busy_pool_def drained_pool_def new_pool_def stop_step_def enqueue_def calm_def
    guard_defs Let_def
  let ?a = "busy_pool\<lparr>stopper := Putting 0, msg_queue := [Some 5, None], live_blocks := 2,
     put_log := [Some 5, None]\<rparr>"
  let ?b = "?a\<lparr>stopper := Polling\<rparr>"
  let ?c = "?b\<lparr>msg_queue := [None], taken_log := [Some 5], workers := [Got (Some 5)]\<rparr>"
  let ?d = "?c\<lparr>live_blocks := 1, handled := [5], workers := [Waiting]\<rparr>"
  let ?e = "?d\<lparr>msg_queue := [], taken_log := [Some 5, None], workers := [Got None]\<rparr>"
  let ?f = "?e\<lparr>live_blocks := 0, active_threads := 0, workers := [Done]\<rparr>"
  have "pool_step True (busy_pool\<lparr>stopper := Putting 1\<rparr>) ?a"
    using pool_step.Stop [of True True True "busy_pool\<lparr>stopper := Putting 1\<rparr>" ?a]
    by (simp add: d)
  note r = pool_steps.Then [OF pool_steps.Here this]
  have "pool_step True ?a ?b" using pool_step.Stop [of True True True ?a ?b] by (simp add: d)
  note r = pool_steps.Then [OF r this]
  have "pool_step True ?b ?c"
    using pool_step.Svc [of 0 ?b True calm "Got (Some 5)" "?c\<lparr>workers := [Waiting]\<rparr>"]
    by (simp add: d)
  note r = pool_steps.Then [OF r this]
  have "pool_step True ?c ?d"
    using pool_step.Svc [of 0 ?c True calm Waiting "?d\<lparr>workers := [Got (Some 5)]\<rparr>"]
    by (simp add: d)
  note r = pool_steps.Then [OF r this]
  have "pool_step True ?d ?e"
    using pool_step.Svc [of 0 ?d True calm "Got None" "?e\<lparr>workers := [Waiting]\<rparr>"]
    by (simp add: d)
  note r = pool_steps.Then [OF r this]
  have "pool_step True ?e ?f"
    using pool_step.Svc [of 0 ?e True calm Done "?f\<lparr>workers := [Got None]\<rparr>"]
    by (simp add: d)
  note r = pool_steps.Then [OF r this]
  have "pool_step True ?f drained_pool"
    using pool_step.Stop [of True True True ?f drained_pool] by (simp add: d)
  from pool_steps.Then [OF r this] show ?thesis .
qed

theorem stop_drains_witness: "{#5#} \<subseteq># mset (handled drained_pool)"
proof -
  have "active_threads busy_pool \<noteq> 0" "stopper drained_pool = Stopped"
    "handlers (put_log busy_pool) = {#5#}"
    by (simp_all add: busy_pool_def drained_pool_def new_pool_def)
  with stop_drains [OF busy_reachable busy_stop(1,2) _ busy_stop(3) busy_run] show ?thesis by simp
qed

text \<open>
  C30. Stopping a started pool does not get stuck. If every worker has started when \<open>stop\<close> is
  called, then as long as it has not returned some worker or \<open>stop\<close> itself can take a step
  that brings the end closer, and no step of theirs leads away from it: the rank only falls,
  unless the step leaves the state as it is (\<open>stop\<close> sleeping). From every state there are steps
  of theirs that let \<open>stop\<close> return. So it returns unless handlers keep arriving for ever. A
  worker that starts only after the call is outside of this, see \<open>stop_race\<close>.
\<close>

theorem stop_terminates:
  assumes "reachable True p0" "stopper p0 = Not_Stopping" "Starting \<notin> set (workers p0)"
    and "stop_step al pu p0 = Some p1" "pool_steps True p1 p"
  shows "(stopper p \<noteq> Stopped \<longrightarrow> (\<exists>p'. quiet_step p p' \<and> rank p' < rank p)) \<and>
    (\<forall>p'. quiet_step p p' \<longrightarrow> p' = p \<or> rank p' < rank p) \<and>
    (\<exists>q. quiet_step\<^sup>*\<^sup>* p q \<and> stopper q = Stopped)"
proof -
  have "pool_inv p1" "stopping_inv (active_threads p0) (put_log p0) p1"
    using stopping_starts [OF assms(1-4)] by simp_all
  then have "pool_inv p" "stopping_inv (active_threads p0) (put_log p0) p"
    using pool_steps_stopping [OF assms(5)] by simp_all
  then show ?thesis using stop_moves quiet_step_rank stop_reached by blast
qed

theorem stop_terminates_witness:
  "(\<exists>p'. quiet_step (busy_pool\<lparr>stopper := Putting 1\<rparr>) p' \<and>
     rank p' < rank (busy_pool\<lparr>stopper := Putting 1\<rparr>)) \<and>
   (\<exists>q. quiet_step\<^sup>*\<^sup>* (busy_pool\<lparr>stopper := Putting 1\<rparr>) q \<and> stopper q = Stopped)"
  using stop_terminates [OF busy_reachable busy_stop pool_steps.Here] by simp

text \<open>
  Stopping too early loses a worker. When \<open>stop\<close> is called before the only worker has
  started, it finds the counter at 0, puts no message and returns; the worker then starts
  and waits on an empty queue, from which no message will ever release it.
\<close>

theorem stop_race:
  "\<exists>p. reachable True p \<and> stopper p = Stopped \<and> workers p = [Waiting] \<and> active_threads p = 1 \<and>
     msg_queue p = [] \<and> Collect (quiet_step p) \<subseteq> {p}"
proof -
  note d = new_pool_def stop_step_def guard_defs calm_def
  let ?a = "new_pool\<lparr>workers := [Starting]\<rparr>"
  let ?b = "?a\<lparr>stopper := Putting 0\<rparr>" and ?c = "?a\<lparr>stopper := Polling\<rparr>"
  let ?e = "?a\<lparr>stopper := Stopped\<rparr>"
  let ?p = "?e\<lparr>workers := [Waiting], active_threads := 1\<rparr>"
  note r = pool_steps.Then [OF pool_steps.Here started_worker [of True]]
  have "pool_step True ?a ?b" using pool_step.Stop [of True True True ?a ?b] by (simp add: d)
  note r = pool_steps.Then [OF r this]
  have "pool_step True ?b ?c" using pool_step.Stop [of True True True ?b ?c] by (simp add: d)
  note r = pool_steps.Then [OF r this]
  have "pool_step True ?c ?e" using pool_step.Stop [of True True True ?c ?e] by (simp add: d)
  note r = pool_steps.Then [OF r this]
  have "pool_step True ?e ?p"
    using pool_step.Svc [of 0 ?e True calm Waiting "counter_guard ?e"] by (simp add: d)
  note r = pool_steps.Then [OF r this]
  have stuck: "p' = ?p" if "quiet_step ?p p'" for p'
  proof -
    from that have "pool_step True ?p p'" "handlers (put_log p') = handlers (put_log ?p)"
      by (simp_all add: quiet_step_def)
    then show ?thesis
      by (cases rule: pool_step.cases) (auto simp: d enqueue_def Let_def)
  qed
  show ?thesis
    by (rule exI [of _ ?p]) (use r stuck in \<open>auto simp: reachable_def new_pool_def\<close>)
qed

end
