(* ===== verification/Acceptor.thy ===== *)
theory Acceptor
  imports Pool Auth_Handler
begin

text \<open>
  The acceptors of the dispatcher (cci_daemon/src/procs/proc_ace_acceptor.cpp) and of the
  authentication manager (cci_daemon/src/manager/auth_mgr_acceptor.cpp), and the pool of
  the latter (auth_mgr_thread_pool.cpp), whose operations are those of the dispatcher's
  pool. The base class ACE_Acceptor answers by arguments; what an acceptor asks of it and
  of its pool is recorded.
\<close>

section \<open>The pool of the authentication manager\<close>

definition auth_default_pool_size :: nat where "auth_default_pool_size = 10"

definition new_auth_pool :: pool where
  "new_auth_pool = \<lparr>active_threads = 0, msg_queue = [], live_blocks = 0, workers = [],
     stopper = Not_Stopping, put_log = [], taken_log = [], handled = [], closed = []\<rparr>"

definition auth_counter_guard :: "pool \<Rightarrow> pool" where
  "auth_counter_guard p = p\<lparr>active_threads := active_threads p + 1\<rparr>"

definition auth_counter_guard_dtor :: "pool \<Rightarrow> pool" where
  "auth_counter_guard_dtor p = p\<lparr>active_threads := active_threads p - 1\<rparr>"

definition auth_message_block_guard_dtor :: "pool \<Rightarrow> pool" where
  "auth_message_block_guard_dtor p = p\<lparr>live_blocks := live_blocks p - 1\<rparr>"

definition auth_pool_start :: "bool \<Rightarrow> int \<Rightarrow> pool \<Rightarrow> int \<times> pool" where
  "auth_pool_start spawn_ok pool_size p =
     (if spawn_ok then (0, p\<lparr>workers := workers p @ replicate (nat pool_size) Starting\<rparr>)
      else (-1, p))"

definition auth_pool_enqueue :: "bool \<Rightarrow> bool \<Rightarrow> nat option \<Rightarrow> pool \<Rightarrow> int \<times> pool" where
  "auth_pool_enqueue alloc_ok putq_ok v p =
     (if \<not> alloc_ok then (-1, p)
      else let p = p\<lparr>live_blocks := live_blocks p + 1\<rparr>
      in if \<not> putq_ok then (-1, p\<lparr>live_blocks := live_blocks p - 1\<rparr>)
         else (0, p\<lparr>msg_queue := msg_queue p @ [v], put_log := put_log p @ [v]\<rparr>))"

fun auth_pool_svc_step :: "svc_answers \<Rightarrow> worker \<Rightarrow> pool \<Rightarrow> (worker \<times> pool) option" where
  "auth_pool_svc_step a Starting p =
     (if a_cancelled a then Some (Done, p) else Some (Waiting, auth_counter_guard p))"
| "auth_pool_svc_step a Waiting p =
     (if a_getq_fails a then Some (Done, auth_counter_guard_dtor p)
      else case msg_queue p of
        [] \<Rightarrow> None
      | m # q \<Rightarrow> Some (Got m, p\<lparr>msg_queue := q, taken_log := taken_log p @ [m]\<rparr>))"
| "auth_pool_svc_step a (Got (Some h)) p =
     (let p = p\<lparr>handled := handled p @ [h]\<rparr>;
          p = (if a_handle_input a = -1 then p\<lparr>closed := closed p @ [h]\<rparr> else p)
      in Some (Waiting, auth_message_block_guard_dtor p))"
| "auth_pool_svc_step a (Got None) p =
     Some (Done, auth_counter_guard_dtor (auth_message_block_guard_dtor p))"
| "auth_pool_svc_step a Done p = None"

definition auth_pool_stop_step :: "bool \<Rightarrow> bool \<Rightarrow> pool \<Rightarrow> pool option" where
  "auth_pool_stop_step alloc_ok putq_ok p =
     (case stopper p of
        Not_Stopping \<Rightarrow> Some (p\<lparr>stopper := Putting (active_threads p)\<rparr>)
      | Putting counter \<Rightarrow>
          if counter = 0 then Some (p\<lparr>stopper := Polling\<rparr>)
          else Some ((snd (auth_pool_enqueue alloc_ok putq_ok None p))
                 \<lparr>stopper := Putting (counter - 1)\<rparr>)
      | Polling \<Rightarrow> if active_threads p \<noteq> 0 then Some p else Some (p\<lparr>stopper := Stopped\<rparr>)
      | Stopped \<Rightarrow> None)"

lemma auth_guards_eq: "auth_counter_guard = counter_guard"
  "auth_counter_guard_dtor = counter_guard_dtor"
  "auth_message_block_guard_dtor = message_block_guard_dtor"
  by (intro ext; simp add: guard_defs auth_counter_guard_def auth_counter_guard_dtor_def
      auth_message_block_guard_dtor_def)+

lemma auth_pool_enqueue_eq: "auth_pool_enqueue al pu v p = enqueue al pu v p"
  by (simp add: auth_pool_enqueue_def enqueue_def)

lemma auth_pool_svc_step_eq: "auth_pool_svc_step a w p = svc_step a w p"
  by (cases "(a, w, p)" rule: svc_step.cases) (simp_all add: auth_guards_eq)

lemma auth_pool_stop_step_eq: "auth_pool_stop_step al pu p = stop_step al pu p"
  by (cases "stopper p") (simp_all add: auth_pool_stop_step_def stop_step_def auth_pool_enqueue_eq)

text \<open>
  The pool of the authentication manager is the dispatcher's. Each of its operations and
  each step of its threads has the same effect and the same result on every pool, so what
  holds of all interleavings of the one holds of the other.
\<close>

theorem auth_pool_agrees:
  "new_auth_pool = new_pool \<and> auth_pool_start b n p = start b n p \<and>
   auth_pool_enqueue al pu v p = enqueue al pu v p \<and>
   auth_pool_svc_step a w p = svc_step a w p \<and>
   auth_pool_stop_step al pu p = stop_step al pu p"
  by (simp add: new_auth_pool_def new_pool_def auth_pool_start_def start_def auth_pool_enqueue_eq
      auth_pool_svc_step_eq auth_pool_stop_step_eq)

section \<open>Acceptors\<close>

datatype acceptor_op = Pool_Start int | Pool_Stop | Pool_Close | Base_Open | Base_Close

record 'd acceptor =
  acc_concurrency :: concurrency_t
  thread_pool_is_private :: bool     \<comment> \<open>the pool is private_thread_pool_\<close>
  acc_thread_pool :: pool            \<comment> \<open>what the_thread_pool_ refers to\<close>
  m_instance_data :: "'d option"
  acceptor_ops :: "acceptor_op list"

definition acceptor_log :: "acceptor_op \<Rightarrow> 'd acceptor \<Rightarrow> 'd acceptor" where
  "acceptor_log x a = a\<lparr>acceptor_ops := acceptor_ops a @ [x]\<rparr>"

definition new_proc_acceptor :: "concurrency_t \<Rightarrow> proc_protocol_data acceptor" where
  "new_proc_acceptor c =
     \<lparr>acc_concurrency = c, thread_pool_is_private = True, acc_thread_pool = new_pool,
      m_instance_data = None, acceptor_ops = []\<rparr>"

definition new_proc_acceptor_shared :: "pool \<Rightarrow> proc_protocol_data acceptor" where
  "new_proc_acceptor_shared tp =
     \<lparr>acc_concurrency = thread_pool, thread_pool_is_private = False, acc_thread_pool = tp,
      m_instance_data = None, acceptor_ops = []\<rparr>"

definition proc_acceptor_dtor :: "proc_protocol_data acceptor \<Rightarrow> proc_protocol_data acceptor" where
  "proc_acceptor_dtor a =
     (if acc_concurrency a = thread_pool \<and> thread_pool_is_private a then acceptor_log Pool_Close a else a)"

definition proc_acceptor_open ::
    "bool \<Rightarrow> int \<Rightarrow> proc_protocol_data option \<Rightarrow> int \<Rightarrow> proc_protocol_data acceptor
     \<Rightarrow> int \<times> proc_protocol_data acceptor" where
  \<comment> \<open>\<open>spawn_ok\<close>: the workers can be spawned; \<open>base\<close>: the answer of the base class\<close>
  "proc_acceptor_open spawn_ok base instance_data pool_size a =
     (let a = a\<lparr>m_instance_data := instance_data\<rparr>;
          a = (if acc_concurrency a = thread_pool \<and> thread_pool_is_private a
               then (acceptor_log (Pool_Start pool_size) a)
                      \<lparr>acc_thread_pool := snd (start spawn_ok pool_size (acc_thread_pool a))\<rparr>
               else a)
      in (base, acceptor_log Base_Open a))"

definition proc_acceptor_close ::
    "int \<Rightarrow> proc_protocol_data acceptor \<Rightarrow> int \<times> proc_protocol_data acceptor" where
  "proc_acceptor_close base a =
     (let a = (if acc_concurrency a = thread_pool \<and> thread_pool_is_private a
               then acceptor_log Pool_Stop a else a)
      in (base, acceptor_log Base_Close a))"

definition new_auth_acceptor :: "concurrency_t \<Rightarrow> auth_mgr_protocol_data acceptor" where
  "new_auth_acceptor c =
     \<lparr>acc_concurrency = c, thread_pool_is_private = True, acc_thread_pool = new_auth_pool,
      m_instance_data = None, acceptor_ops = []\<rparr>"

definition new_auth_acceptor_shared :: "pool \<Rightarrow> auth_mgr_protocol_data acceptor" where
  "new_auth_acceptor_shared tp =
     \<lparr>acc_concurrency = thread_pool, thread_pool_is_private = False, acc_thread_pool = tp,
      m_instance_data = None, acceptor_ops = []\<rparr>"

definition auth_acceptor_dtor ::
    "auth_mgr_protocol_data acceptor \<Rightarrow> auth_mgr_protocol_data acceptor" where
  "auth_acceptor_dtor a =
     (if acc_concurrency a = thread_pool \<and> thread_pool_is_private a then acceptor_log Pool_Close a else a)"

definition auth_acceptor_open ::
    "bool \<Rightarrow> int \<Rightarrow> auth_mgr_protocol_data option \<Rightarrow> int \<Rightarrow> auth_mgr_protocol_data acceptor
     \<Rightarrow> int \<times> auth_mgr_protocol_data acceptor" where
  "auth_acceptor_open spawn_ok base instance_data pool_size a =
     (let a = a\<lparr>m_instance_data := instance_data\<rparr>;
          a = (if acc_concurrency a = thread_pool \<and> thread_pool_is_private a
               then (acceptor_log (Pool_Start pool_size) a)
                      \<lparr>acc_thread_pool := snd (auth_pool_start spawn_ok pool_size (acc_thread_pool a))\<rparr>
               else a)
      in (base, acceptor_log Base_Open a))"

definition auth_acceptor_close ::
    "int \<Rightarrow> auth_mgr_protocol_data acceptor \<Rightarrow> int \<times> auth_mgr_protocol_data acceptor" where
  "auth_acceptor_close base a =
     (let a = (if acc_concurrency a = thread_pool \<and> thread_pool_is_private a
               then acceptor_log Pool_Stop a else a)
      in (base, acceptor_log Base_Close a))"

section \<open>The life of an acceptor\<close>

text \<open>
  The life of an acceptor. Opened with \<open>n\<close> threads and closed, an acceptor with its own
  pool under the thread pool strategy starts \<open>n\<close> workers before it listens and stops them
  before it stops listening; any other acceptor never touches a pool. The answer of the
  base class is the result in every case, also when no worker could be spawned.
\<close>

theorem acceptor_life:
  assumes "proc_acceptor_open spawn_ok b1 data n a = (r1, a1)" "proc_acceptor_close b2 a1 = (r2, a2)"
    and "a = new_proc_acceptor c \<or> a = new_proc_acceptor_shared tp"
  shows "r1 = b1 \<and> r2 = b2 \<and> m_instance_data a2 = data \<and>
    (if a = new_proc_acceptor thread_pool
     then acceptor_ops a2 = [Pool_Start n, Base_Open, Pool_Stop, Base_Close] \<and>
       workers (acc_thread_pool a2) = (if spawn_ok then replicate (nat n) Starting else [])
     else acceptor_ops a2 = [Base_Open, Base_Close] \<and> acc_thread_pool a2 = acc_thread_pool a)"
  using assms
  by (auto simp: proc_acceptor_open_def proc_acceptor_close_def acceptor_log_def Let_def start_def
      new_proc_acceptor_def new_proc_acceptor_shared_def new_pool_def split: if_splits)

theorem acceptor_life_witness:
  "\<exists>a1 a2. proc_acceptor_open False 0 None 25 (new_proc_acceptor thread_pool) = (0, a1) \<and>
     proc_acceptor_close 0 a1 = (0, a2) \<and> workers (acc_thread_pool a2) = []"
proof -
  obtain r1 a1 where o: "proc_acceptor_open False 0 None 25 (new_proc_acceptor thread_pool) = (r1, a1)"
    by fastforce
  obtain r2 a2 where c: "proc_acceptor_close 0 a1 = (r2, a2)" by fastforce
  from acceptor_life [OF o c disjI1 [OF refl]] o c show ?thesis by simp
qed

end
