(* ===== verification/Os.thy ===== *)
theory Os
  imports Prelude "HOL-Library.Word" "HOL-Library.Monad_Syntax"
begin

text \<open>
  The operating system as the daemon's core uses it. A program is a computation of the
  State_Monad over a world that records every call in its trace. What a call returns is
  decided by two functions of the calls made so far, the parameter of every theorem: they
  stand for any kernel and C library. Constants are those of Linux on x86-64.
\<close>

section \<open>Calls\<close>

datatype (plugins only: code size) sys_call =
    Fork | Setsid | Exit_Process int        \<comment> \<open>\<open>_exit\<close>, \<open>exit\<close>\<close>
  | Abort
  | Umask int | Chdir string | Sysconf_Open_Max
  | Open string int int | Close int | Dup2 int int | Pipe
  | Stat string | Access string int
  | Fcntl_Getfd int | Fcntl_Setfd int int
  | Fcntl_Setlk int int int int int         \<comment> \<open>fd, type, whence, start, len\<close>
  | Ftruncate int int | Write int string | Remove string
  | Getpid | Errno | Getcwd | Getenv string
  | Fopen string string | Fclose int | Setbuf int
  | Fgets int nat | Fprint int string       \<comment> \<open>the FILE pointer first, 0 is NULL\<close>
  | Stderr string | Localtime | Strftime
  | Openlog string int | Syslog int string | Closelog
  | Sigaction_Hup | Signal_Term | Sleep int | Read_Hup_Flag | Clear_Hup_Flag
  | Out string                              \<comment> \<open>a line to the ostream the caller passed\<close>
  | Dlopen string | Dlerror | Dlsym int string | Dlclose int
  | Library_Call string                     \<comment> \<open>a function of a loaded library\<close>
  | Kernel_Ref                              \<comment> \<open>what \<open>make_kernel\<close> left in the context\<close>
  | Exception_Kind    \<comment> \<open>what it threw: 0 a \<open>runtime_error\<close>, 1 another \<open>std::exception\<close>\<close>
  | Sigterm_Delivered                       \<comment> \<open>nonzero: SIGTERM arrived during the last call\<close>
  | Backtrace nat | Backtrace_Symbol nat | Demangle string

record world =
  answer :: "sys_call list \<Rightarrow> sys_call \<Rightarrow> int"
  answer_text :: "sys_call list \<Rightarrow> sys_call \<Rightarrow> string option"
  trace :: "sys_call list"

type_synonym 'a os = "(world, 'a) state"

definition sys :: "sys_call \<Rightarrow> int os" where
  "sys c = State (\<lambda>w. (answer w (trace w) c, w\<lparr>trace := trace w @ [c]\<rparr>))"

definition sys_text :: "sys_call \<Rightarrow> string option os" where
  "sys_text c = State (\<lambda>w. (answer_text w (trace w) c, w\<lparr>trace := trace w @ [c]\<rparr>))"

primrec sys_all :: "sys_call list \<Rightarrow> unit os" where
  \<comment> \<open>calls whose answers are ignored\<close>
  "sys_all [] = ret ()"
| "sys_all (c # cs) = do { sys c; sys_all cs }"

section \<open>How a computation ends\<close>

datatype exception =
    Runtime_Error string
  | Std_Exception         \<comment> \<open>derived from \<open>std::exception\<close>, but no \<open>runtime_error\<close>\<close>
  | Other_Exception       \<comment> \<open>not derived from \<open>std::exception\<close>\<close>

datatype 'a run =
    Return 'a
  | Exits int
  | Aborts
  | Throws exception
  | Crashes fault

section \<open>Constants\<close>

definition EXIT_SUCCESS :: int where "EXIT_SUCCESS = 0"
definition EXIT_FAILURE :: int where "EXIT_FAILURE = 1"
definition STDIN_FILENO :: int where "STDIN_FILENO = 0"
definition STDOUT_FILENO :: int where "STDOUT_FILENO = 1"
definition STDERR_FILENO :: int where "STDERR_FILENO = 2"
definition O_RDWR :: int where "O_RDWR = 2"
definition O_RDWR_CREAT :: int where "O_RDWR_CREAT = 2 + 64"
definition S_IRUSR_IWUSR :: int where "S_IRUSR_IWUSR = 384"
definition R_W_OK :: int where "R_W_OK = 6"
definition F_WRLCK :: int where "F_WRLCK = 1"
definition SEEK_SET :: int where "SEEK_SET = 0"
definition FD_CLOEXEC :: "32 word" where "FD_CLOEXEC = 1"
definition EAGAIN :: int where "EAGAIN = 11"
definition EACCES :: int where "EACCES = 13"

section \<open>Running\<close>

lemma run_bind [os_simps]: "run_state (m \<bind> f) w = (let (a, w') = run_state m w in run_state (f a) w')"
  by (simp add: State_Monad.bind_def split_beta)

lemma run_ret [os_simps]: "run_state (ret a) w = (a, w)"
  by (simp add: State_Monad.return_def)

lemma run_sys [os_simps]:
  "run_state (sys c) w = (answer w (trace w) c, w\<lparr>trace := trace w @ [c]\<rparr>)"
  by (simp add: sys_def)

lemma run_sys_text [os_simps]:
  "run_state (sys_text c) w = (answer_text w (trace w) c, w\<lparr>trace := trace w @ [c]\<rparr>)"
  by (simp add: sys_text_def)

lemma run_if [os_simps]: "run_state (if b then m else n) w = (if b then run_state m w else run_state n w)"
  by simp

lemma run_sys_all [os_simps]: "run_state (sys_all cs) w = ((), w\<lparr>trace := trace w @ cs\<rparr>)"
  by (induction cs arbitrary: w) (simp_all add: os_simps)

text \<open>What a computation adds to the trace.\<close>

definition calls :: "'a os \<Rightarrow> world \<Rightarrow> sys_call list" where
  "calls m w = drop (length (trace w)) (trace (snd (run_state m w)))"

definition honest :: "'a os \<Rightarrow> bool" where
  \<comment> \<open>the computation only adds to the trace\<close>
  "honest m \<longleftrightarrow> (\<forall>w. \<exists>cs. snd (run_state m w) = w\<lparr>trace := trace w @ cs\<rparr>)"

lemma honestD: "honest m \<Longrightarrow> snd (run_state m w) = w\<lparr>trace := trace w @ calls m w\<rparr>"
proof -
  assume "honest m"
  then obtain cs where cs: "snd (run_state m w) = w\<lparr>trace := trace w @ cs\<rparr>"
    unfolding honest_def by blast
  then have "calls m w = cs" by (simp add: calls_def)
  with cs show ?thesis by simp
qed

lemma honest_ret [intro, simp]: "honest (ret a)"
  by (auto simp: honest_def os_simps intro: exI [of _ "[]"])

lemma honest_sys [intro, simp]: "honest (sys c)"
  by (auto simp: honest_def os_simps)

lemma honest_sys_text [intro, simp]: "honest (sys_text c)"
  by (auto simp: honest_def os_simps)

lemma honest_sys_all [intro, simp]: "honest (sys_all cs)"
  by (auto simp: honest_def os_simps)

lemma honest_bind [intro]: "honest m \<Longrightarrow> (\<And>a. honest (f a)) \<Longrightarrow> honest (m \<bind> f)"
  unfolding honest_def
proof
  fix w
  assume m: "\<forall>w. \<exists>cs. snd (run_state m w) = w\<lparr>trace := trace w @ cs\<rparr>"
    and f: "\<And>a. \<forall>w. \<exists>cs. snd (run_state (f a) w) = w\<lparr>trace := trace w @ cs\<rparr>"
  obtain a w1 where r: "run_state m w = (a, w1)" by fastforce
  with m obtain cs where cs: "w1 = w\<lparr>trace := trace w @ cs\<rparr>" by (metis snd_conv)
  from f [of a] obtain ds where "snd (run_state (f a) w1) = w1\<lparr>trace := trace w1 @ ds\<rparr>" by blast
  with r cs show "\<exists>cs. snd (run_state (m \<bind> f) w) = w\<lparr>trace := trace w @ cs\<rparr>"
    by (intro exI [of _ "cs @ ds"]) (simp add: os_simps)
qed

lemma honest_if [intro]: "honest m \<Longrightarrow> honest n \<Longrightarrow> honest (if b then m else n)"
  by simp

end
