(* ===== verification/Daemonize.thy ===== *)
theory Daemonize
  imports Os Cpp_String
begin

text \<open>
  Turning the process into a daemon: cci_daemon/src/core/cci_daemonize.cpp. \<open>daemonize_\<close> is
  a state machine over \<open>daemon_proc\<close>; the parent's branch of a fork ends the process, which
  is the value \<open>Exited\<close>. Its loop need not end, so it is a partial function.
\<close>

unbundle bit_operations_syntax

section \<open>Types and constants\<close>

datatype daemon_proc =
    dp_fork_background_proc | dp_fork_no_session_leader | dp_make_session_leader
  | dp_clear_file_create_mask | dp_change_to_root_dir | dp_close_all_open_files
  | dp_reopen_streams_dev_null | dp_daemonized | dp_error | dp_success

datatype 'a result = Value 'a | Exited int

definition bd_no_chdir :: nat where "bd_no_chdir = 1"
definition bd_no_close_files :: nat where "bd_no_close_files = 2"
definition bd_no_reopen_std_fds :: nat where "bd_no_reopen_std_fds = 4"
definition bd_no_umask_0 :: nat where "bd_no_umask_0 = 8"
definition bd_max_handles :: int where "bd_max_handles = 8192"
definition buffer_size :: nat where "buffer_size = 1024"
definition cpf_cloexec :: nat where "cpf_cloexec = 1"
definition path_pid :: string where "path_pid = ''/var/run/cci-daemon.pid''"

definition has_flag :: "'a::len word \<Rightarrow> nat \<Rightarrow> bool" where
  \<comment> \<open>\<open>flags & bit\<close> as a condition\<close>
  "has_flag flags b \<longleftrightarrow> flags AND of_nat b \<noteq> 0"

definition int_of_long :: "int \<Rightarrow> int" where
  \<comment> \<open>a long stored in an int: the low 32 bits, read with their sign\<close>
  "int_of_long x = sint (word_of_int x :: 32 word)"

section \<open>The state machine\<close>

definition close_fds :: "int \<Rightarrow> unit os" where
  "close_fds maxfd = sys_all (map (\<lambda>fd. Close (int fd)) [0..<nat maxfd])"

definition dp_step :: "64 word \<Rightarrow> daemon_proc \<Rightarrow> daemon_proc result os" where
  "dp_step flags dp =
     (case dp of
        dp_fork_background_proc \<Rightarrow> do {
          pid \<leftarrow> sys Fork;
          if pid = -1 then ret (Value dp_error)
          else if pid = 0 then ret (Value dp_make_session_leader)
          else do { sys (Exit_Process EXIT_SUCCESS); ret (Exited EXIT_SUCCESS) } }
      | dp_make_session_leader \<Rightarrow> do {
          r \<leftarrow> sys Setsid;
          ret (Value (if r = -1 then dp_error else dp_fork_no_session_leader)) }
      | dp_fork_no_session_leader \<Rightarrow> do {
          pid \<leftarrow> sys Fork;
          if pid = -1 then ret (Value dp_error)
          else if pid = 0 then ret (Value dp_clear_file_create_mask)
          else do { sys (Exit_Process EXIT_SUCCESS); ret (Exited EXIT_SUCCESS) } }
      | dp_clear_file_create_mask \<Rightarrow> do {
          (if \<not> has_flag flags bd_no_umask_0 then sys (Umask 0) else ret 0);
          ret (Value dp_change_to_root_dir) }
      | dp_change_to_root_dir \<Rightarrow> do {
          (if \<not> has_flag flags bd_no_chdir then sys (Chdir ''/'') else ret 0);
          ret (Value dp_close_all_open_files) }
      | dp_close_all_open_files \<Rightarrow>
          if \<not> has_flag flags bd_no_close_files
          then do {
            limit \<leftarrow> sys Sysconf_Open_Max;
            let maxfd = int_of_long limit;
            close_fds (if maxfd = -1 then bd_max_handles else maxfd);
            ret (Value dp_reopen_streams_dev_null) }
          else ret (Value dp_close_all_open_files)
      | dp_reopen_streams_dev_null \<Rightarrow>
          if \<not> has_flag flags bd_no_reopen_std_fds
          then do {
            sys (Close STDIN_FILENO);
            fd \<leftarrow> sys (Open ''/dev/null'' O_RDWR 0);
            if fd \<noteq> STDIN_FILENO then ret (Value dp_error)
            else do {
              a \<leftarrow> sys (Dup2 STDIN_FILENO STDOUT_FILENO);
              if a \<noteq> STDOUT_FILENO then ret (Value dp_error)
              else do {
                b \<leftarrow> sys (Dup2 STDIN_FILENO STDERR_FILENO);
                if b \<noteq> STDERR_FILENO then ret (Value dp_error)
                else ret (Value dp_daemonized) } } }
          else ret (Value dp_daemonized)
      | dp_daemonized \<Rightarrow> ret (Value dp)
      | dp_error \<Rightarrow> ret (Value dp)
      | dp_success \<Rightarrow> ret (Value dp))"

partial_function (option) daemonize_loop ::
    "64 word \<Rightarrow> daemon_proc \<Rightarrow> world \<Rightarrow> (int result \<times> world) option" where
  "daemonize_loop flags dp w =
     (if dp = dp_error then Some (Value (-1), w)
      else case run_state (dp_step flags dp) w of
        (Exited c, w') \<Rightarrow> Some (Exited c, w')
      | (Value dp', w') \<Rightarrow>
          if dp' = dp_daemonized then Some (Value 0, w') else daemonize_loop flags dp' w')"

definition daemonize :: "64 word \<Rightarrow> world \<Rightarrow> (int result \<times> world) option" where
  "daemonize flags w = daemonize_loop flags dp_fork_background_proc w"

section \<open>The single steps\<close>

definition make_session_leader :: "daemon_proc os" where
  "make_session_leader = do { r \<leftarrow> sys Setsid; ret (if r = -1 then dp_error else dp_success) }"

definition make_into_background :: "daemon_proc result os" where
  "make_into_background = do {
     pid \<leftarrow> sys Fork;
     if pid = -1 then ret (Value dp_error)
     else if pid = 0 then ret (Value dp_success)
     else do { sys (Exit_Process EXIT_SUCCESS); ret (Exited EXIT_SUCCESS) } }"

definition make_fork_no_session_leader :: "daemon_proc result os" where
  "make_fork_no_session_leader = do {
     pid \<leftarrow> sys Fork;
     if pid = -1 then ret (Value dp_error)
     else if pid = 0 then ret (Value dp_success)
     else do { sys (Exit_Process EXIT_SUCCESS); ret (Exited EXIT_SUCCESS) } }"

definition clear_file_create_mask :: "32 word \<Rightarrow> daemon_proc os" where
  "clear_file_create_mask flags =
     (if \<not> has_flag flags bd_no_umask_0 then do { sys (Umask 0); ret dp_success } else ret dp_error)"

definition close_all_open_files :: "32 word \<Rightarrow> daemon_proc os" where
  "close_all_open_files flags =
     (if has_flag flags bd_no_close_files then ret dp_success
      else do {
        limit \<leftarrow> sys Sysconf_Open_Max;
        let maxfd = int_of_long limit;
        close_fds (if maxfd = -1 then bd_max_handles else maxfd);
        ret dp_success })"

definition reopen_streams_to_dev_null :: "32 word \<Rightarrow> daemon_proc os" where
  \<comment> \<open>unlike the state machine it goes on after a failure\<close>
  "reopen_streams_to_dev_null flags =
     (if \<not> has_flag flags bd_no_reopen_std_fds
      then do {
        sys (Close STDIN_FILENO);
        fd \<leftarrow> sys (Open ''/dev/null'' O_RDWR 0);
        a \<leftarrow> sys (Dup2 STDIN_FILENO STDOUT_FILENO);
        b \<leftarrow> sys (Dup2 STDIN_FILENO STDERR_FILENO);
        ret (if fd \<noteq> STDIN_FILENO \<or> a \<noteq> STDOUT_FILENO \<or> b \<noteq> STDERR_FILENO
             then dp_error else dp_success) }
      else ret dp_success)"

definition cd_to_root :: "32 word \<Rightarrow> daemon_proc os" where
  "cd_to_root flags =
     (if \<not> has_flag flags bd_no_chdir
      then do { r \<leftarrow> sys (Chdir ''/''); ret (if r = 0 then dp_success else dp_error) }
      else ret dp_error)"

section \<open>The pid file\<close>

definition pid_line :: "int \<Rightarrow> string" where
  \<comment> \<open>\<open>snprintf\<close> writes at most \<open>buffer_size - 1\<close> bytes\<close>
  "pid_line pid = take (buffer_size - 1) (decimal_int pid @ [LF])"

definition lock_region :: "int \<Rightarrow> int \<Rightarrow> int \<Rightarrow> int \<Rightarrow> int \<Rightarrow> int os" where
  "lock_region fd type whence start len = sys (Fcntl_Setlk fd type whence start len)"

definition with_cloexec :: "int \<Rightarrow> int" where
  \<comment> \<open>\<open>flags |= FD_CLOEXEC\<close> on an int\<close>
  "with_cloexec flags = sint ((word_of_int flags :: 32 word) OR FD_CLOEXEC)"

definition set_cloexec :: "int \<Rightarrow> 32 word \<Rightarrow> string option os" where
  \<comment> \<open>the close-on-exec part of \<open>write_pid\<close>: the error it prints, if any\<close>
  "set_cloexec fd flags =
     (if has_flag flags cpf_cloexec
      then do {
        fl \<leftarrow> sys (Fcntl_Getfd fd);
        if fl = -1 then ret (Some ''could not get flags for pid file'')
        else do {
          r \<leftarrow> sys (Fcntl_Setfd fd (with_cloexec fl));
          ret (if r = -1 then Some ''could not set flags for pid file'' else None) } }
      else ret None)"

definition write_pid :: "string \<Rightarrow> 32 word \<Rightarrow> bool os" where
  "write_pid pid_file flags = do {
     st \<leftarrow> sys (Stat (c_str pid_file));
     if st \<noteq> -1 then do { sys (Out ''...pid file exists...aborting...''); ret False }
     else do {
       fd \<leftarrow> sys (Open (c_str pid_file) O_RDWR_CREAT S_IRUSR_IWUSR);
       if fd = -1 then do { sys (Out ''could not write pid file....''); ret False }
       else do {
         err \<leftarrow> set_cloexec fd flags;
         case err of
           Some e \<Rightarrow> do { sys (Out e); ret False }
         | None \<Rightarrow> do {
             lk \<leftarrow> lock_region fd F_WRLCK SEEK_SET 0 0;
             b \<leftarrow> (if lk = -1
                 then do {
                   en \<leftarrow> sys Errno;
                   sys (Out (if en = EAGAIN \<or> en = EACCES
                     then ''pid file is locked; probably daemon is already running''
                     else ''unable to lock pid file''));
                   ret False }
                 else do {
                   tr \<leftarrow> sys (Ftruncate fd 0);
                   if tr = -1 then do { sys (Out ''could not truncate pid file''); ret False }
                   else ret True });
             if b
             then do {
               sys (Out ''writing pid file....'');
               pid \<leftarrow> sys Getpid;
               n \<leftarrow> sys (Write fd (pid_line pid));
               if n \<noteq> int (length (pid_line pid))
               then do { sys (Out ''writing to pid file failed''); ret False }
               else ret True }
             else ret False } } } }"

definition remove_pid :: "string \<Rightarrow> bool os" where
  "remove_pid pid_file = do { r \<leftarrow> sys (Remove (c_str pid_file)); ret (\<not> r \<noteq> 0) }"

end
