(* ===== verification/Daemonize_Properties.thy ===== *)
theory Daemonize_Properties
  imports Daemonize
begin

text \<open>
  The properties of the daemon's start: when \<open>daemonize_\<close> returns and what it has done by
  then, and the pid file.
\<close>

lemmas dp_eval = dp_step_def os_simps

section \<open>The state machine returns\<close>

lemma loop_step: "dp \<noteq> dp_error \<Longrightarrow>
    daemonize_loop flags dp w = (case run_state (dp_step flags dp) w of
        (Exited c, w') \<Rightarrow> Some (Exited c, w')
      | (Value dp', w') \<Rightarrow>
          if dp' = dp_daemonized then Some (Value 0, w') else daemonize_loop flags dp' w')"
  by (subst daemonize_loop.simps) simp

lemma loop_error [simp]: "daemonize_loop flags dp_error w = Some (Value (-1), w)"
  by (subst daemonize_loop.simps) simp

definition reopen_calls :: "sys_call list" where
  "reopen_calls = [Close STDIN_FILENO, Open ''/dev/null'' O_RDWR 0,
     Dup2 STDIN_FILENO STDOUT_FILENO, Dup2 STDIN_FILENO STDERR_FILENO]"

definition fd_limit :: "int \<Rightarrow> int" where
  \<comment> \<open>from what \<open>sysconf\<close> answers\<close>
  "fd_limit limit = (if int_of_long limit = -1 then bd_max_handles else int_of_long limit)"

definition closing_calls :: "int \<Rightarrow> sys_call list" where
  "closing_calls limit = Sysconf_Open_Max # map (\<lambda>fd. Close (int fd)) [0..<nat (fd_limit limit)]"

text \<open>The calls of a daemonization that succeeds, in order.\<close>

definition first_calls :: "64 word \<Rightarrow> sys_call list" where
  "first_calls flags = [Fork, Setsid, Fork] @
     (if has_flag flags bd_no_umask_0 then [] else [Umask 0]) @
     (if has_flag flags bd_no_chdir then [] else [Chdir ''/''])"

definition daemon_calls :: "64 word \<Rightarrow> int \<Rightarrow> sys_call list" where
  "daemon_calls flags limit = first_calls flags @ closing_calls limit @
     (if has_flag flags bd_no_reopen_std_fds then [] else reopen_calls)"

definition on_dev_null :: "world \<Rightarrow> sys_call list \<Rightarrow> bool" where
  \<comment> \<open>after the calls \<open>tr\<close>, closing the first stream and opening /dev/null gives descriptor 0, and
    it is duplicated onto the other two\<close>
  "on_dev_null w tr \<longleftrightarrow>
     answer w (tr @ take 1 reopen_calls) (Open ''/dev/null'' O_RDWR 0) = STDIN_FILENO \<and>
     answer w (tr @ take 2 reopen_calls) (Dup2 STDIN_FILENO STDOUT_FILENO) = STDOUT_FILENO \<and>
     answer w (tr @ take 3 reopen_calls) (Dup2 STDIN_FILENO STDERR_FILENO) = STDERR_FILENO"

lemma reopen_state:
  "\<exists>res. daemonize_loop flags dp_reopen_streams_dev_null w = Some res \<and>
     (fst res = Value 0 \<longrightarrow>
        snd res = w\<lparr>trace := trace w @
          (if has_flag flags bd_no_reopen_std_fds then [] else reopen_calls)\<rparr> \<and>
        (has_flag flags bd_no_reopen_std_fds \<or> on_dev_null w (trace w))) \<and>
     (\<exists>r. fst res = Value r)"
  by (simp add: loop_step dp_eval reopen_calls_def on_dev_null_def Let_def)

lemma close_state:
  assumes "\<not> has_flag flags bd_no_close_files"
  shows "\<exists>res. daemonize_loop flags dp_close_all_open_files w = Some res \<and>
     (let before = trace w @ closing_calls (answer w (trace w) Sysconf_Open_Max)
      in fst res = Value 0 \<longrightarrow>
        snd res = w\<lparr>trace := before @
          (if has_flag flags bd_no_reopen_std_fds then [] else reopen_calls)\<rparr> \<and>
        (has_flag flags bd_no_reopen_std_fds \<or> on_dev_null w before))"
proof -
  let ?c = "closing_calls (answer w (trace w) Sysconf_Open_Max)"
  let ?w = "w\<lparr>trace := trace w @ ?c\<rparr>"
  have "run_state (dp_step flags dp_close_all_open_files) w = (Value dp_reopen_streams_dev_null, ?w)"
    using assms by (simp add: dp_eval close_fds_def fd_limit_def closing_calls_def Let_def)
  then have "daemonize_loop flags dp_close_all_open_files w =
      daemonize_loop flags dp_reopen_streams_dev_null ?w"
    by (simp add: loop_step)
  moreover obtain res where "daemonize_loop flags dp_reopen_streams_dev_null ?w = Some res"
      "fst res = Value 0 \<longrightarrow> snd res = ?w\<lparr>trace := trace ?w @
          (if has_flag flags bd_no_reopen_std_fds then [] else reopen_calls)\<rparr> \<and>
        (has_flag flags bd_no_reopen_std_fds \<or> on_dev_null ?w (trace ?w))"
    using reopen_state [of flags ?w] by blast
  ultimately show ?thesis by (intro exI [of _ res]) (simp add: on_dev_null_def Let_def)
qed

definition forked_twice :: "world \<Rightarrow> bool" where
  \<comment> \<open>the process is the child of both forks and leads its own session\<close>
  "forked_twice w \<longleftrightarrow> answer w (trace w) Fork = 0 \<and>
     answer w (trace w @ [Fork]) Setsid \<noteq> -1 \<and> answer w (trace w @ [Fork, Setsid]) Fork = 0"

definition before_close :: "64 word \<Rightarrow> world \<Rightarrow> world" where
  "before_close flags w = w\<lparr>trace := trace w @ first_calls flags\<rparr>"

abbreviation after_call :: "world \<Rightarrow> sys_call list \<Rightarrow> world" where
  "after_call w cs \<equiv> w\<lparr>trace := trace w @ cs\<rparr>"

lemma loop_fork: "daemonize_loop flags dp_fork_background_proc w =
    (if answer w (trace w) Fork = -1 then Some (Value (-1), after_call w [Fork])
     else if answer w (trace w) Fork = 0
     then daemonize_loop flags dp_make_session_leader (after_call w [Fork])
     else Some (Exited 0, after_call w [Fork, Exit_Process 0]))"
  by (subst loop_step) (simp_all add: dp_eval EXIT_SUCCESS_def Let_def)

lemma loop_session: "daemonize_loop flags dp_make_session_leader w =
    (if answer w (trace w) Setsid = -1 then Some (Value (-1), after_call w [Setsid])
     else daemonize_loop flags dp_fork_no_session_leader (after_call w [Setsid]))"
  by (subst loop_step) (simp_all add: dp_eval Let_def)

lemma loop_second_fork: "daemonize_loop flags dp_fork_no_session_leader w =
    (if answer w (trace w) Fork = -1 then Some (Value (-1), after_call w [Fork])
     else if answer w (trace w) Fork = 0
     then daemonize_loop flags dp_clear_file_create_mask (after_call w [Fork])
     else Some (Exited 0, after_call w [Fork, Exit_Process 0]))"
  by (subst loop_step) (simp_all add: dp_eval EXIT_SUCCESS_def Let_def)

lemma loop_mask: "daemonize_loop flags dp_clear_file_create_mask w =
    daemonize_loop flags dp_change_to_root_dir
      (after_call w (if has_flag flags bd_no_umask_0 then [] else [Umask 0]))"
  by (subst loop_step) (simp_all add: dp_eval Let_def)

lemma loop_chdir: "daemonize_loop flags dp_change_to_root_dir w =
    daemonize_loop flags dp_close_all_open_files
      (after_call w (if has_flag flags bd_no_chdir then [] else [Chdir ''/'']))"
  by (subst loop_step) (simp_all add: dp_eval Let_def)

lemmas front_eval = loop_fork loop_session loop_second_fork loop_mask loop_chdir

lemma daemonize_front:
  "forked_twice w \<Longrightarrow> daemonize flags w =
     daemonize_loop flags dp_close_all_open_files (before_close flags w)"
  by (simp add: daemonize_def forked_twice_def front_eval before_close_def first_calls_def)

lemma daemonize_early:
  "\<not> forked_twice w \<Longrightarrow> \<exists>r w'. daemonize flags w = Some (r, w') \<and> r \<noteq> Value 0"
  by (auto simp: daemonize_def forked_twice_def front_eval)

lemma close_state_loops: "has_flag flags bd_no_close_files \<Longrightarrow>
    daemonize_loop flags dp_close_all_open_files w = None"
proof (rule ccontr)
  assume f: "has_flag flags bd_no_close_files"
  assume "daemonize_loop flags dp_close_all_open_files w \<noteq> None"
  then obtain res where "daemonize_loop flags dp_close_all_open_files w = Some res" by blast
  moreover have "daemonize_loop flags dp w = Some res \<Longrightarrow> dp \<noteq> dp_close_all_open_files" for dp
  proof (rule daemonize_loop.raw_induct
      [where P = "\<lambda>flags dp w res. has_flag flags bd_no_close_files \<longrightarrow> dp \<noteq> dp_close_all_open_files",
       THEN mp, OF _ _ f])
    fix loop :: "64 word \<Rightarrow> daemon_proc \<Rightarrow> world \<Rightarrow> (int result \<times> world) option"
      and flags dp w res
    assume IH: "\<And>flags dp w res. loop flags dp w = Some res \<Longrightarrow>
        has_flag flags bd_no_close_files \<longrightarrow> dp \<noteq> dp_close_all_open_files"
      and body: "(if dp = dp_error then Some (Value (-1), w)
        else case run_state (dp_step flags dp) w of
          (Exited c, w') \<Rightarrow> Some (Exited c, w')
        | (Value dp', w') \<Rightarrow>
            if dp' = dp_daemonized then Some (Value 0, w') else loop flags dp' w') = Some res"
    show "has_flag flags bd_no_close_files \<longrightarrow> dp \<noteq> dp_close_all_open_files"
    proof (intro impI notI)
      assume "has_flag flags bd_no_close_files" "dp = dp_close_all_open_files"
      with body have "loop flags dp_close_all_open_files w = Some res" by (simp add: dp_eval)
      from IH [OF this] \<open>has_flag flags bd_no_close_files\<close> show False by simp
    qed
  qed
  ultimately show False by blast
qed

text \<open>
  C15. When daemonizing hangs. For every operating system, \<open>daemonize_\<close> returns, or ends the
  parent process, unless the caller asked not to close the open files and the process got
  through both forks: then its state machine stays in the closing state for ever.
\<close>

theorem daemonize_hangs_iff:
  "daemonize flags w = None \<longleftrightarrow> has_flag flags bd_no_close_files \<and> forked_twice w"
proof (cases "forked_twice w")
  case False
  with daemonize_early [of w flags] show ?thesis by auto
next
  case True
  show ?thesis
  proof (cases "has_flag flags bd_no_close_files")
    case f: True
    with daemonize_front [OF True] close_state_loops [OF f] True show ?thesis by simp
  next
    case False
    with daemonize_front [OF True] close_state [OF False, of "before_close flags w"] show ?thesis
      by auto
  qed
qed

text \<open>
  C14. What a successful daemonization has done. When \<open>daemonize_\<close> returns 0 the process is
  the grandchild of the caller in a session of its own, it was not asked to leave the files
  open, and the only calls made were, in this order, the two forks around \<open>setsid\<close>, the steps
  the flags ask for of clearing the file mask and changing to the root directory, the question
  for the limit of descriptors, the closing of every descriptor below the limit that was
  answered, as an int (8192 if that is -1), and, unless it was asked to leave the streams, the
  three standard streams reopened. Then /dev/null was opened as descriptor 0 and duplicated
  onto 1 and 2, each with success.
\<close>

theorem daemonize_success:
  assumes "daemonize flags w = Some (Value 0, w')"
  shows "forked_twice w \<and> \<not> has_flag flags bd_no_close_files \<and>
    (let limit = answer w (trace w @ first_calls flags) Sysconf_Open_Max
     in w' = w\<lparr>trace := trace w @ daemon_calls flags limit\<rparr> \<and>
        (\<not> has_flag flags bd_no_reopen_std_fds \<longrightarrow>
           on_dev_null w (trace w @ first_calls flags @ closing_calls limit)))"
proof -
  have t: "forked_twice w" using daemonize_early [of w flags] assms by fastforce
  have f: "\<not> has_flag flags bd_no_close_files"
    using daemonize_front [OF t] close_state_loops assms by auto
  from close_state [OF this, of "before_close flags w"] daemonize_front [OF t] assms t f
  show ?thesis by (auto simp: daemon_calls_def before_close_def on_dev_null_def Let_def)
qed

definition kind_world :: world where
  \<comment> \<open>an operating system where every call succeeds, with four descriptors\<close>
  "kind_world = \<lparr>answer = (\<lambda>t c. case c of Sysconf_Open_Max \<Rightarrow> 4 | Dup2 a b \<Rightarrow> b | Getpid \<Rightarrow> 321
       | Write fd s \<Rightarrow> int (length s) | Stat f \<Rightarrow> -1 | Open f fl m \<Rightarrow> (if fl = O_RDWR then 0 else 3)
       | _ \<Rightarrow> 0),
     answer_text = (\<lambda>t c. None), trace = []\<rparr>"

theorem daemonize_success_witness:
  "\<exists>w'. daemonize 0 kind_world = Some (Value 0, w') \<and>
    trace w' = [Fork, Setsid, Fork, Umask 0, Chdir ''/'', Sysconf_Open_Max,
      Close 0, Close 1, Close 2, Close 3] @ reopen_calls \<and>
    on_dev_null kind_world (take 10 (trace w'))"
proof -
  have f: "forked_twice kind_world" by (simp add: forked_twice_def kind_world_def)
  have "\<exists>w'. daemonize 0 kind_world = Some (Value 0, w')"
    unfolding daemonize_front [OF f]
    by (subst loop_step, simp, simp add: dp_eval has_flag_def kind_world_def before_close_def
        close_fds_def bd_no_close_files_def int_of_long_def Let_def)
      (subst loop_step, simp, simp add: dp_eval has_flag_def bd_no_reopen_std_fds_def
        STDIN_FILENO_def STDOUT_FILENO_def STDERR_FILENO_def O_RDWR_def Let_def)
  then obtain w' where w': "daemonize 0 kind_world = Some (Value 0, w')" by blast
  have flags: "\<not> has_flag (0 :: 64 word) n" for n by (simp add: has_flag_def)
  have lim: "fd_limit 4 = 4" by (simp add: fd_limit_def int_of_long_def)
  have fds: "[0..<4] = [0, 1, 2, 3 :: nat]" by (simp add: upt_rec)
  have "trace w' = [Fork, Setsid, Fork, Umask 0, Chdir ''/'', Sysconf_Open_Max,
      Close 0, Close 1, Close 2, Close 3] @ reopen_calls \<and>
    on_dev_null kind_world (take 10 (trace w'))"
    using daemonize_success [OF w']
    by (simp add: kind_world_def flags daemon_calls_def first_calls_def closing_calls_def lim fds Let_def)
  with w' show ?thesis by blast
qed

section \<open>The pid file\<close>

definition read_decimal :: "string \<Rightarrow> nat" where
  "read_decimal s = foldl (\<lambda>n c. 10 * n + (of_char c - 48)) 0 s"

lemma read_decimal_snoc: "read_decimal (s @ [c]) = 10 * read_decimal s + (of_char c - 48)"
  by (simp add: read_decimal_def)

lemma digit_char: "d < 10 \<Longrightarrow> (of_char (char_of (48 + d) :: char) :: nat) = 48 + d"
  by simp

lemma read_decimal_decimal: "read_decimal (decimal n) = n"
proof (induction n rule: decimal.induct)
  case (1 n)
  show ?case
  proof (cases "n < 10")
    case True
    then show ?thesis by (simp add: decimal.simps [of n] read_decimal_def)
  next
    case False
    have "n mod 10 < 10" by simp
    with False 1 show ?thesis
      by (simp add: decimal.simps [of n] read_decimal_snoc)
  qed
qed

lemma decimal_length: "n < 10 ^ k \<Longrightarrow> 0 < k \<Longrightarrow> length (decimal n) \<le> k"
proof (induction n arbitrary: k rule: decimal.induct)
  case (1 n)
  show ?case
  proof (cases "n < 10")
    case True
    with 1(3) show ?thesis by (simp add: decimal.simps [of n])
  next
    case False
    then have "k \<noteq> 1" using 1(2) by auto
    then obtain j where k: "k = Suc j" "0 < j" using 1(3) by (cases k) auto
    then have "n div 10 < 10 ^ j" using 1(2) by (simp add: less_mult_imp_div_less mult.commute)
    from 1(1) [OF False this k(2)] False k show ?thesis by (simp add: decimal.simps [of n])
  qed
qed

text \<open>
  Round trip of the pid file's content. For every pid a 64-bit long can hold, the line
  is written whole, its last character is a line feed, and reading the digits before it
  gives back the pid.
\<close>

theorem pid_line_roundtrip:
  assumes "0 \<le> pid" "pid < 2 ^ 63"
  shows "last (pid_line pid) = LF \<and> int (read_decimal (butlast (pid_line pid))) = pid \<and>
    length (pid_line pid) \<le> 20"
proof -
  have "nat pid < 10 ^ 19" using assms by (simp add: nat_less_iff)
  then have len: "length (decimal (nat pid)) \<le> 19" by (rule decimal_length) simp
  then have "pid_line pid = decimal (nat pid) @ [LF]"
    using assms(1) by (simp add: pid_line_def decimal_int_def buffer_size_def)
  with len assms(1) show ?thesis by (simp add: read_decimal_decimal)
qed

theorem pid_line_roundtrip_witness: "int (read_decimal (butlast (pid_line 321))) = 321"
  using pid_line_roundtrip [of 321] by simp

definition cloexec_calls :: "32 word \<Rightarrow> int \<Rightarrow> int \<Rightarrow> sys_call list" where
  "cloexec_calls flags fd fl = (if has_flag flags cpf_cloexec
     then [Fcntl_Getfd fd, Fcntl_Setfd fd (with_cloexec fl)] else [])"

lemma set_cloexec_ok: "run_state (set_cloexec fd flags) w = (None, w') \<Longrightarrow>
    let fl = answer w (trace w) (Fcntl_Getfd fd)
    in w' = after_call w (cloexec_calls flags fd fl) \<and>
      (has_flag flags cpf_cloexec \<longrightarrow> fl \<noteq> -1 \<and>
         answer w (trace w @ [Fcntl_Getfd fd]) (Fcntl_Setfd fd (with_cloexec fl)) \<noteq> -1)"
  by (auto simp: set_cloexec_def cloexec_calls_def os_simps Let_def split: if_splits)

text \<open>
  C34. A pid file is written only under the lock. When \<open>write_pid\<close> returns true, no file of
  that name existed, and it created it, set the descriptor's flag if it was asked to, locked
  the whole of it, truncated it and wrote the line of this process, the pid the system
  answered: each of these calls succeeded, the last wrote the whole line, and there was no
  other call in between but a message. The descriptor stays open, so the lock is kept.
\<close>

theorem write_pid_success:
  assumes "run_state (write_pid f flags) w = (True, w')"
  shows "let path = c_str f;
      opened = trace w @ [Stat path, Open path O_RDWR_CREAT S_IRUSR_IWUSR];
      fd = answer w (trace w @ [Stat path]) (Open path O_RDWR_CREAT S_IRUSR_IWUSR);
      fl = answer w opened (Fcntl_Getfd fd);
      unlocked = opened @ cloexec_calls flags fd fl;
      locked = unlocked @ [Fcntl_Setlk fd F_WRLCK SEEK_SET 0 0];
      truncated = locked @ [Ftruncate fd 0, Out ''writing pid file....''];
      line = pid_line (answer w truncated Getpid)
    in answer w (trace w) (Stat path) = -1 \<and> fd \<noteq> -1 \<and>
      (has_flag flags cpf_cloexec \<longrightarrow> fl \<noteq> -1 \<and>
         answer w (opened @ [Fcntl_Getfd fd]) (Fcntl_Setfd fd (with_cloexec fl)) \<noteq> -1) \<and>
      answer w unlocked (Fcntl_Setlk fd F_WRLCK SEEK_SET 0 0) \<noteq> -1 \<and>
      answer w locked (Ftruncate fd 0) \<noteq> -1 \<and>
      answer w (truncated @ [Getpid]) (Write fd line) = int (length line) \<and>
      w' = w\<lparr>trace := truncated @ [Getpid, Write fd line]\<rparr>"
proof -
  let ?path = "c_str f"
  let ?fd = "answer w (trace w @ [Stat ?path]) (Open ?path O_RDWR_CREAT S_IRUSR_IWUSR)"
  let ?w = "after_call w [Stat ?path, Open ?path O_RDWR_CREAT S_IRUSR_IWUSR]"
  let ?fl = "answer w (trace ?w) (Fcntl_Getfd ?fd)"
  obtain err w1 where c: "run_state (set_cloexec ?fd flags) ?w = (err, w1)" by fastforce
  have ok: "answer w (trace w) (Stat ?path) = -1" "?fd \<noteq> -1" "err = None"
    using assms c
    by (auto simp: write_pid_def os_simps Let_def split: if_splits option.splits)
  then have w1: "w1 = after_call ?w (cloexec_calls flags ?fd ?fl)" and
    cl: "has_flag flags cpf_cloexec \<longrightarrow> ?fl \<noteq> -1 \<and>
      answer w (trace ?w @ [Fcntl_Getfd ?fd]) (Fcntl_Setfd ?fd (with_cloexec ?fl)) \<noteq> -1"
    using set_cloexec_ok [of ?fd flags ?w w1] c by (simp_all add: Let_def)
  show ?thesis
    using assms ok c w1 cl
    by (auto simp: write_pid_def lock_region_def os_simps Let_def split: if_splits)
qed

theorem write_pid_success_witness:
  "\<exists>w'. run_state (write_pid path_pid 1) kind_world = (True, w') \<and>
    last (trace w') = Write 3 (pid_line 321)"
proof -
  have "has_flag (1 :: 32 word) cpf_cloexec" by (simp add: has_flag_def cpf_cloexec_def)
  then obtain w' where w': "run_state (write_pid path_pid 1) kind_world = (True, w')"
    by (simp add: write_pid_def set_cloexec_def lock_region_def os_simps kind_world_def Let_def
        O_RDWR_CREAT_def O_RDWR_def)
  have "last (trace w') = Write 3 (pid_line 321)"
    using write_pid_success [OF w']
    by (simp add: Let_def kind_world_def O_RDWR_CREAT_def O_RDWR_def)
  with w' show ?thesis by blast
qed

end
