(* ===== verification/Kernel.thy ===== *)
theory Kernel
  imports Prelude Cpp_String "HOL-Library.List_Lexorder" "HOL-Library.Char_ord"
begin

text \<open>
  The kernel of the daemon: the loader of shared libraries (cci_shared_lib.cpp,
  get_function_pointer), plugins (cci_daemon_plugin.cpp, .h), the base kernel's registry of
  plugins and its publish/subscribe server (cci_daemon_kernel.cpp, .h, cci_pub_and_sub.h),
  and the singleton that \<open>make_kernel\<close> and \<open>unmake_kernel\<close> hand out. What a library holds
  and what its functions do is an argument, the record \<open>loader\<close>; the functions of a plugin
  reach the kernel through \<open>get_pb_server\<close>, as those of the repository do.
\<close>

section \<open>Failures\<close>

datatype failure =
    Throw string     \<comment> \<open>a C++ exception with this text\<close>
  | Fault fault

type_synonym ('a, 's) attempt = "(failure + 'a) \<times> 's"

section \<open>The publish/subscribe server\<close>

record duplexer =
  dx_name :: string
  can_open_broker :: "string \<Rightarrow> bool"
  dx_open_broker :: "string \<Rightarrow> failure + string"   \<comment> \<open>the broker's moniker\<close>

definition add_publish_subscribe_duplexer :: "duplexer \<Rightarrow> duplexer list \<Rightarrow> duplexer list" where
  "add_publish_subscribe_duplexer d m_duplexers = m_duplexers @ [d]"

fun open_broker :: "string \<Rightarrow> duplexer list \<Rightarrow> failure + string" where
  "open_broker config [] = Inl (Throw ''invalid or unsupported duplexer type'')"
| "open_broker config (elem # elems) =
     (if can_open_broker elem config then dx_open_broker elem config else open_broker config elems)"

section \<open>State\<close>

record plugin =
  m_shared_lib :: int
  m_str_filename :: string
  get_engine_version_address :: bool    \<comment> \<open>False: the pointer is null\<close>
  register_plugin_address :: bool
  clear_context_address :: bool

record kernel =
  m_loaded_plugins :: "string \<rightharpoonup> plugin"
  m_pb_server :: "duplexer list"
  open_libs :: "int list"               \<comment> \<open>handles opened and not closed\<close>
  cerr_log :: "string list"

datatype symbol = Missing | Null_Symbol | Bound  \<comment> \<open>dlsym with dlerror set, or an address\<close>

record loader =
  ld_dlopen :: "string \<Rightarrow> int"          \<comment> \<open>0 is NULL\<close>
  ld_dlsym :: "int \<Rightarrow> string \<Rightarrow> symbol"
  ld_version :: "int \<Rightarrow> int"
  ld_register :: "int \<Rightarrow> duplexer list \<Rightarrow> duplexer list"
  ld_clear :: "int \<Rightarrow> duplexer list \<Rightarrow> duplexer list"

definition new_base_kernel :: kernel where
  "new_base_kernel = \<lparr>m_loaded_plugins = Map.empty, m_pb_server = [], open_libs = [], cerr_log = []\<rparr>"

definition cerr :: "string \<Rightarrow> kernel \<Rightarrow> kernel" where
  "cerr s k = k\<lparr>cerr_log := cerr_log k @ [s]\<rparr>"

section \<open>Shared libraries\<close>

definition path_with_extension :: "string \<Rightarrow> string" where
  \<comment> \<open>\<open>std::ends\<close> puts a NUL into the string\<close>
  "path_with_extension lib = ''lib'' @ lib @ ''.so'' @ [NUL]"

definition load :: "loader \<Rightarrow> string \<Rightarrow> kernel \<Rightarrow> (int, kernel) attempt" where
  "load ld lib k =
     (let path = path_with_extension lib; shared_object = ld_dlopen ld (c_str path)
      in if shared_object = 0
         then (Inl (Throw (''could not load '' @ [CHR 0x27] @ path @ [CHR 0x27])), k)
         else (Inr shared_object,
               cerr (''...loaded library....'' @ path @ ''...'')
                 (k\<lparr>open_libs := open_libs k @ [shared_object]\<rparr>)))"

definition unload :: "int \<Rightarrow> kernel \<Rightarrow> kernel" where
  "unload h k = (if h \<noteq> 0 then k\<lparr>open_libs := remove1 h (open_libs k)\<rparr> else k)"

definition get_function_pointer :: "loader \<Rightarrow> int \<Rightarrow> string \<Rightarrow> failure + bool" where
  \<comment> \<open>True: an address, False: a null pointer without an error\<close>
  "get_function_pointer ld h name =
     (if h = 0 then Inl (Fault Assert_Failed)
      else case ld_dlsym ld h name of
        Missing \<Rightarrow> Inl (Throw ''could not find exported function'')
      | Null_Symbol \<Rightarrow> Inr False
      | Bound \<Rightarrow> Inr True)"

section \<open>Plugins\<close>

definition new_plugin :: "loader \<Rightarrow> string \<Rightarrow> kernel \<Rightarrow> (plugin, kernel) attempt" where
  "new_plugin ld filename k =
     (case load ld filename k of
        (Inl e, k) \<Rightarrow> (Inl e, k)
      | (Inr h, k) \<Rightarrow>
          let caught = (\<lambda>k. (Inl (Throw ''..could not load plugin...''),
                 cerr ''exception in plugin load....'' (unload h k)))
          in case get_function_pointer ld h ''get_engine_version'' of
            Inl (Fault f) \<Rightarrow> (Inl (Fault f), k)
          | Inl (Throw _) \<Rightarrow> caught k
          | Inr v \<Rightarrow>
              let k = (if v then k else cerr ''could not retrieve version function addresss'' k)
              in case get_function_pointer ld h ''register_plugin'' of
                Inl (Fault f) \<Rightarrow> (Inl (Fault f), k)
              | Inl (Throw _) \<Rightarrow> caught k
              | Inr r \<Rightarrow>
                  let k = (if r then k else cerr ''could not retrieve register function address'' k)
                  in case get_function_pointer ld h ''clear_context'' of
                    Inl (Fault f) \<Rightarrow> (Inl (Fault f), k)
                  | Inl (Throw _) \<Rightarrow> caught k
                  | Inr c \<Rightarrow>
                      let k = (if c then k
                               else cerr ''could not retrieve clear context function address'' k)
                      in (Inr \<lparr>m_shared_lib = h, m_str_filename = filename,
                            get_engine_version_address = v, register_plugin_address = r,
                            clear_context_address = c\<rparr>, k))"

definition copy_plugin :: "plugin \<Rightarrow> plugin" where
  \<comment> \<open>the copy constructor leaves the file name empty\<close>
  "copy_plugin p = p\<lparr>m_str_filename := []\<rparr>"

definition get_engine_version :: "loader \<Rightarrow> plugin \<Rightarrow> failure + int" where
  "get_engine_version ld p =
     (if get_engine_version_address p then Inr (ld_version ld (m_shared_lib p))
      else Inl (Fault Null_Deref))"

definition register_plugin :: "loader \<Rightarrow> plugin \<Rightarrow> kernel \<Rightarrow> (unit, kernel) attempt" where
  "register_plugin ld p k =
     (if register_plugin_address p then (Inr (), k\<lparr>m_pb_server := ld_register ld (m_shared_lib p) (m_pb_server k)\<rparr>)
      else (Inl (Fault Null_Deref), k))"

definition clear_context :: "loader \<Rightarrow> plugin \<Rightarrow> kernel \<Rightarrow> (unit, kernel) attempt" where
  "clear_context ld p k =
     (if clear_context_address p then (Inr (), k\<lparr>m_pb_server := ld_clear ld (m_shared_lib p) (m_pb_server k)\<rparr>)
      else (Inl (Fault Null_Deref), k))"

section \<open>The registry\<close>

definition registered :: "string \<Rightarrow> kernel \<Rightarrow> bool" where
  "registered config k \<longleftrightarrow> m_loaded_plugins k config \<noteq> None"

definition plugin_count :: "kernel \<Rightarrow> nat" where
  "plugin_count k = card (dom (m_loaded_plugins k))"

definition load_plugin :: "loader \<Rightarrow> string \<Rightarrow> kernel \<Rightarrow> (unit, kernel) attempt" where
  "load_plugin ld config k =
     (if \<not> registered config k
      then case new_plugin ld config (cerr (''loading plugin...'' @ config @ ''...'') k) of
        (Inl e, k) \<Rightarrow> (Inl e, k)
      | (Inr cdp, k) \<Rightarrow>
          let p = copy_plugin cdp;
              k = k\<lparr>m_loaded_plugins := (m_loaded_plugins k)(config \<mapsto> p)\<rparr>
          in case register_plugin ld p k of
            (Inl e, k) \<Rightarrow> (Inl e, k)
          | (Inr _, k) \<Rightarrow>
              (case get_engine_version ld p of
                 Inl e \<Rightarrow> (Inl e, k)
               | Inr v \<Rightarrow> (Inr (), cerr (''...version is '' @ decimal_int v) k))
      else (Inr (), cerr ''...plugin already loaded...'' k))"

definition unload_plugin :: "loader \<Rightarrow> string \<Rightarrow> kernel \<Rightarrow> (unit, kernel) attempt" where
  "unload_plugin ld config k =
     (case m_loaded_plugins k config of
        Some p \<Rightarrow>
          let k = cerr (''...deregistering plugin...'' @ config) k;
              k = cerr ''...releasing local contexts..'' k
          in (case clear_context ld p k of
                (Inl e, k) \<Rightarrow> (Inl e, k)
              | (Inr _, k) \<Rightarrow> (Inr (), k\<lparr>m_loaded_plugins := (m_loaded_plugins k)(config := None)\<rparr>))
      | None \<Rightarrow> (Inr (), cerr ''...plugin not loaded...'' k))"

fun clear_all :: "loader \<Rightarrow> plugin list \<Rightarrow> kernel \<Rightarrow> (unit, kernel) attempt" where
  "clear_all ld [] k = (Inr (), k)"
| "clear_all ld (p # ps) k =
     (case clear_context ld p k of
        (Inl e, k) \<Rightarrow> (Inl e, k)
      | (Inr _, k) \<Rightarrow> clear_all ld ps k)"

definition destroy_contexts :: "loader \<Rightarrow> kernel \<Rightarrow> (unit, kernel) attempt" where
  \<comment> \<open>a std::map is traversed in the order of its keys\<close>
  "destroy_contexts ld k =
     (let m = m_loaded_plugins k
      in clear_all ld (map (\<lambda>c. the (m c)) (sorted_list_of_set (dom m)))
           (cerr ''...destroying plugin contexts....'' k))"

section \<open>What the kernel supports\<close>

definition m_dict_supported :: "string \<rightharpoonup> string" where
  "m_dict_supported = [''publish_subscribe'' \<mapsto>
     ''{ '' @ [DQUOTE] @ ''moniker'' @ [DQUOTE] @ '' : '' @ [DQUOTE] @ ''publish_and_subscribe''
     @ [DQUOTE]]"

definition base_supported_service :: "string \<Rightarrow> bool" where
  "base_supported_service key \<longleftrightarrow> m_dict_supported key \<noteq> None"

definition supported_service :: "string \<Rightarrow> bool" where
  \<comment> \<open>the override of \<open>cci_daemon_kernel\<close>\<close>
  "supported_service key \<longleftrightarrow> False"

definition kernel_strings :: "string set" where
  "kernel_strings = {''make_kernel'', ''unnmake_kernel'', ''mount_memroy_cache'',
     ''unmount_memory_cache''}"

definition version_string :: string where
  "version_string = ''1'' @ ''.'' @ ''1'' @ ''.'' @ ''2''"

section \<open>The singleton\<close>

text \<open>Kernel objects have numbers; \<open>live\<close> holds those not deleted.\<close>

record kernel_heap =
  m_instance :: "nat option"
  live :: "nat set"
  next_id :: nat

record kernel_context =
  kernel_ref :: "nat option"     \<comment> \<open>None: nullptr\<close>
  lib_ref :: int

definition instance_of :: "kernel_heap \<Rightarrow> nat \<times> kernel_heap" where
  "instance_of w =
     (case m_instance w of
        Some i \<Rightarrow> (i, w)
      | None \<Rightarrow> (next_id w, w\<lparr>m_instance := Some (next_id w), live := insert (next_id w) (live w),
                       next_id := Suc (next_id w)\<rparr>))"

definition dispose_instance :: "kernel_heap \<Rightarrow> kernel_heap" where
  "dispose_instance w =
     (case m_instance w of
        Some i \<Rightarrow> w\<lparr>live := live w - {i}, m_instance := None\<rparr>
      | None \<Rightarrow> w\<lparr>m_instance := None\<rparr>)"

definition make_kernel :: "kernel_context \<Rightarrow> kernel_heap \<Rightarrow> int \<times> kernel_context \<times> kernel_heap" where
  "make_kernel ctx w = (let (i, w) = instance_of w in (0, ctx\<lparr>kernel_ref := Some i\<rparr>, w))"

definition unmake_kernel :: "kernel_context \<Rightarrow> kernel_heap \<Rightarrow> int \<times> kernel_context \<times> kernel_heap" where
  "unmake_kernel ctx w =
     (if kernel_ref ctx \<noteq> None then (0, ctx, dispose_instance w) else (0, ctx, w))"

end
