(* ===== verification/Kernel_Properties.thy ===== *)
theory Kernel_Properties
  imports Kernel "HOL-Library.Multiset"
begin

text \<open>
  The contract of the kernel's plugin registry, as a locale interpreted on the kernel's
  operations, and the properties of the registry, the publish/subscribe server and the
  singleton.
\<close>

section \<open>The contract of a registry\<close>

locale plugin_registry =
  fixes has :: "'c \<Rightarrow> 'k \<Rightarrow> bool"
    and add :: "'c \<Rightarrow> 'k \<Rightarrow> bool \<times> 'k"    \<comment> \<open>True: no failure\<close>
    and del :: "'c \<Rightarrow> 'k \<Rightarrow> bool \<times> 'k"
  assumes add_has: "add c k = (True, k') \<Longrightarrow> has c k'"
    and add_other: "add c k = (b, k') \<Longrightarrow> d \<noteq> c \<Longrightarrow> has d k' \<longleftrightarrow> has d k"
    and del_has: "del c k = (True, k') \<Longrightarrow> \<not> has c k'"
    and del_other: "del c k = (b, k') \<Longrightarrow> d \<noteq> c \<Longrightarrow> has d k' \<longleftrightarrow> has d k"
begin

text \<open>A list of names loaded one after the other, stopping at the first failure.\<close>

fun add_list :: "'c list \<Rightarrow> 'k \<Rightarrow> bool \<times> 'k" where
  "add_list [] k = (True, k)"
| "add_list (c # cs) k = (case add c k of (True, k') \<Rightarrow> add_list cs k' | (False, k') \<Rightarrow> (False, k'))"

lemma add_list_other: "add_list cs k = (b, k') \<Longrightarrow> d \<notin> set cs \<Longrightarrow> has d k' \<longleftrightarrow> has d k"
proof (induction cs arbitrary: k)
  case (Cons c cs)
  obtain r k1 where a: "add c k = (r, k1)" by fastforce
  have "has d k1 \<longleftrightarrow> has d k" using add_other [OF a] Cons.prems(2) by simp
  with Cons a show ?case by (cases r) auto
qed simp

lemma add_list_has: "add_list cs k = (True, k') \<Longrightarrow> c \<in> set cs \<Longrightarrow> has c k'"
proof (induction cs arbitrary: k)
  case (Cons a cs)
  obtain r k1 where a: "add a k = (r, k1)" by fastforce
  with Cons.prems have r: "r" "add_list cs k1 = (True, k')" by (cases r; simp)+
  show ?case
  proof (cases "c \<in> set cs")
    case True
    with Cons.IH [OF r(2)] show ?thesis by blast
  next
    case False
    with Cons.prems(2) have "c = a" by simp
    with add_has [of a k k1] a r(1) have "has c k1" by simp
    with add_list_other [OF r(2) False] show ?thesis by simp
  qed
qed simp

lemma add_del: "add c k = (True, k1) \<Longrightarrow> del c k1 = (True, k2) \<Longrightarrow>
    \<not> has c k2 \<and> (\<forall>d. d \<noteq> c \<longrightarrow> (has d k2 \<longleftrightarrow> has d k))"
  using del_has add_other del_other by blast

end

section \<open>The kernel's registry\<close>

definition succeeded :: "('a, 's) attempt \<Rightarrow> bool \<times> 's" where
  "succeeded r = (case r of (Inl _, s) \<Rightarrow> (False, s) | (Inr _, s) \<Rightarrow> (True, s))"

lemma cerr_sel [simp]:
  "m_loaded_plugins (cerr s k) = m_loaded_plugins k" "m_pb_server (cerr s k) = m_pb_server k"
  "open_libs (cerr s k) = open_libs k"
  by (simp_all add: cerr_def)

lemma load_frame: "load ld lib k = (r, k') \<Longrightarrow>
    m_loaded_plugins k' = m_loaded_plugins k \<and> m_pb_server k' = m_pb_server k \<and>
    (case r of Inl _ \<Rightarrow> open_libs k' = open_libs k
     | Inr h \<Rightarrow> h \<noteq> 0 \<and> open_libs k' = open_libs k @ [h])"
  by (auto simp: load_def Let_def split: if_splits)

lemma unload_frame [simp]: "m_loaded_plugins (unload h k) = m_loaded_plugins k"
  "m_pb_server (unload h k) = m_pb_server k"
  by (simp_all add: unload_def)

lemma new_plugin_frame: "new_plugin ld lib k = (r, k') \<Longrightarrow>
    m_loaded_plugins k' = m_loaded_plugins k \<and> m_pb_server k' = m_pb_server k"
  by (auto simp: new_plugin_def Let_def split: prod.splits sum.splits failure.splits if_splits
      dest!: load_frame)

lemma new_plugin_ok: "new_plugin ld lib k = (Inr p, k') \<Longrightarrow>
    m_shared_lib p \<noteq> 0 \<and> open_libs k' = open_libs k @ [m_shared_lib p]"
  by (auto simp: new_plugin_def Let_def split: prod.splits sum.splits failure.splits if_splits
      dest!: load_frame)

lemma call_frame:
  "register_plugin ld p k = (r, k') \<Longrightarrow>
     m_loaded_plugins k' = m_loaded_plugins k \<and> open_libs k' = open_libs k"
  "clear_context ld p k = (r, k') \<Longrightarrow>
     m_loaded_plugins k' = m_loaded_plugins k \<and> open_libs k' = open_libs k"
  by (auto simp: register_plugin_def clear_context_def split: if_splits)

lemma load_plugin_frame: "load_plugin ld c k = (r, k') \<Longrightarrow>
    (\<forall>d. d \<noteq> c \<longrightarrow> m_loaded_plugins k' d = m_loaded_plugins k d) \<and>
    (\<forall>u. r = Inr u \<longrightarrow> m_loaded_plugins k' c \<noteq> None)"
  by (auto simp: load_plugin_def registered_def Let_def split: if_splits prod.splits sum.splits
      dest!: new_plugin_frame call_frame)

lemma unload_plugin_frame: "unload_plugin ld c k = (r, k') \<Longrightarrow>
    (\<forall>d. d \<noteq> c \<longrightarrow> m_loaded_plugins k' d = m_loaded_plugins k d) \<and>
    (\<forall>u. r = Inr u \<longrightarrow> m_loaded_plugins k' c = None) \<and> open_libs k' = open_libs k"
  by (auto simp: unload_plugin_def Let_def split: prod.splits sum.splits option.splits
      dest!: call_frame)

interpretation kr: plugin_registry registered "\<lambda>c k. succeeded (load_plugin ld c k)"
  "\<lambda>c k. succeeded (unload_plugin ld c k)" for ld
  by unfold_locales
    (auto simp: succeeded_def registered_def split: prod.splits sum.splits
      dest!: load_plugin_frame unload_plugin_frame)

section \<open>Loading, in detail\<close>

lemma unload_libs: "h \<noteq> 0 \<Longrightarrow> mset (open_libs (unload h k)) = mset (open_libs k) - {#h#}"
  by (simp add: unload_def)

definition plugin_symbols :: "string list" where
  "plugin_symbols = [''get_engine_version'', ''register_plugin'', ''clear_context'']"

lemma get_function_pointer_open: "h \<noteq> 0 \<Longrightarrow> get_function_pointer ld h s =
    (case ld_dlsym ld h s of Missing \<Rightarrow> Inl (Throw ''could not find exported function'')
     | Null_Symbol \<Rightarrow> Inr False | Bound \<Rightarrow> Inr True)"
  by (simp add: get_function_pointer_def)

lemma new_plugin_closed: "ld_dlopen ld (c_str (path_with_extension c)) = 0 \<Longrightarrow>
    \<exists>s. new_plugin ld c k = (Inl (Throw s), k)"
  by (simp add: new_plugin_def load_def Let_def)

lemma new_plugin_missing:
  assumes "ld_dlopen ld (c_str (path_with_extension c)) = h" "h \<noteq> 0"
    and "s \<in> set plugin_symbols" "ld_dlsym ld h s = Missing"
  shows "\<exists>k'. new_plugin ld c k = (Inl (Throw ''..could not load plugin...''), k') \<and>
    mset (open_libs k') = mset (open_libs k)"
  using assms by (auto simp: new_plugin_def load_def Let_def get_function_pointer_open unload_libs
      plugin_symbols_def split: symbol.splits)

lemma new_plugin_found:
  assumes "ld_dlopen ld (c_str (path_with_extension c)) = h" "h \<noteq> 0"
    and "\<forall>s \<in> set plugin_symbols. ld_dlsym ld h s \<noteq> Missing"
  shows "\<exists>k'. new_plugin ld c k = (Inr \<lparr>m_shared_lib = h, m_str_filename = c,
      get_engine_version_address = (ld_dlsym ld h ''get_engine_version'' = Bound),
      register_plugin_address = (ld_dlsym ld h ''register_plugin'' = Bound),
      clear_context_address = (ld_dlsym ld h ''clear_context'' = Bound)\<rparr>, k')"
  using assms by (auto simp: new_plugin_def load_def Let_def get_function_pointer_open
      plugin_symbols_def split: symbol.splits)

definition usable :: "loader \<Rightarrow> string \<Rightarrow> bool" where
  "usable ld c \<longleftrightarrow> (let h = ld_dlopen ld (c_str (path_with_extension c)) in h \<noteq> 0 \<and>
     (\<forall>s \<in> set plugin_symbols. ld_dlsym ld h s \<noteq> Missing))"

definition library_of :: "loader \<Rightarrow> string \<Rightarrow> int" where
  "library_of ld c = ld_dlopen ld (c_str (path_with_extension c))"

lemma new_plugin_unusable: "\<not> usable ld c \<Longrightarrow>
    \<exists>s k'. new_plugin ld c k = (Inl (Throw s), k') \<and> mset (open_libs k') = mset (open_libs k)"
  unfolding usable_def Let_def
  using new_plugin_closed [of ld c k] new_plugin_missing [of ld c _ _ k] by blast

text \<open>What loading does after the line it writes first.\<close>

lemma load_plugin_start:
  assumes "\<not> registered c k"
  obtains k0 where "m_loaded_plugins k0 = m_loaded_plugins k" "m_pb_server k0 = m_pb_server k"
    "open_libs k0 = open_libs k"
    "\<And>e k1. new_plugin ld c k0 = (Inl e, k1) \<Longrightarrow> load_plugin ld c k = (Inl e, k1)"
    "\<And>cdp k1. new_plugin ld c k0 = (Inr cdp, k1) \<Longrightarrow> load_plugin ld c k =
       (let p = copy_plugin cdp; k2 = k1\<lparr>m_loaded_plugins := (m_loaded_plugins k1)(c \<mapsto> p)\<rparr>
        in case register_plugin ld p k2 of
             (Inl e, k3) \<Rightarrow> (Inl e, k3)
           | (Inr _, k3) \<Rightarrow> (case get_engine_version ld p of
               Inl e \<Rightarrow> (Inl e, k3)
             | Inr v \<Rightarrow> (Inr (), cerr (''...version is '' @ decimal_int v) k3)))"
  using assms that [of "cerr (''loading plugin...'' @ c @ ''...'') k"]
  by (simp add: load_plugin_def)

lemma load_plugin_unusable:
  assumes "\<not> registered c k" "\<not> usable ld c"
  shows "\<exists>s k'. load_plugin ld c k = (Inl (Throw s), k') \<and>
    m_loaded_plugins k' = m_loaded_plugins k \<and> mset (open_libs k') = mset (open_libs k)"
proof -
  obtain k0 where k0: "m_loaded_plugins k0 = m_loaded_plugins k" "open_libs k0 = open_libs k"
    "\<And>e k1. new_plugin ld c k0 = (Inl e, k1) \<Longrightarrow> load_plugin ld c k = (Inl e, k1)"
    by (rule load_plugin_start [OF assms(1), of ld]) blast
  obtain s k1 where n: "new_plugin ld c k0 = (Inl (Throw s), k1)"
    "mset (open_libs k1) = mset (open_libs k0)"
    using new_plugin_unusable [OF assms(2)] by blast
  from k0(3) [OF n(1)] new_plugin_frame [OF n(1)] n(2) k0(1,2) show ?thesis by simp
qed

lemma load_plugin_usable:
  assumes "\<not> registered c k" "usable ld c"
  defines "h \<equiv> library_of ld c"
  obtains k' p where "load_plugin ld c k =
      (if ld_dlsym ld h ''register_plugin'' = Bound \<and> ld_dlsym ld h ''get_engine_version'' = Bound
       then Inr () else Inl (Fault Null_Deref), k')"
    and "open_libs k' = open_libs k @ [h]"
    and "m_pb_server k' = (if ld_dlsym ld h ''register_plugin'' = Bound
      then ld_register ld h (m_pb_server k) else m_pb_server k)"
    and "m_loaded_plugins k' c = Some p" "m_shared_lib p = h" "m_str_filename p = []"
    and "clear_context_address p = (ld_dlsym ld h ''clear_context'' = Bound)"
proof -
  obtain k0 where k0: "m_pb_server k0 = m_pb_server k" "open_libs k0 = open_libs k"
    "\<And>cdp k1. new_plugin ld c k0 = (Inr cdp, k1) \<Longrightarrow> load_plugin ld c k =
       (let p = copy_plugin cdp; k2 = k1\<lparr>m_loaded_plugins := (m_loaded_plugins k1)(c \<mapsto> p)\<rparr>
        in case register_plugin ld p k2 of
             (Inl e, k3) \<Rightarrow> (Inl e, k3)
           | (Inr _, k3) \<Rightarrow> (case get_engine_version ld p of
               Inl e \<Rightarrow> (Inl e, k3)
             | Inr v \<Rightarrow> (Inr (), cerr (''...version is '' @ decimal_int v) k3)))"
    by (rule load_plugin_start [OF assms(1), of ld]) blast
  from assms(2) have "h \<noteq> 0" "\<forall>s \<in> set plugin_symbols. ld_dlsym ld h s \<noteq> Missing"
    by (simp_all add: usable_def h_def library_of_def Let_def)
  from new_plugin_found [OF library_of_def [symmetric, of ld c, folded h_def] this] obtain k1 where
    n: "new_plugin ld c k0 = (Inr \<lparr>m_shared_lib = h, m_str_filename = c,
      get_engine_version_address = (ld_dlsym ld h ''get_engine_version'' = Bound),
      register_plugin_address = (ld_dlsym ld h ''register_plugin'' = Bound),
      clear_context_address = (ld_dlsym ld h ''clear_context'' = Bound)\<rparr>, k1)" by blast
  from new_plugin_frame [OF n] new_plugin_ok [OF n] k0(1,2)
  have "m_pb_server k1 = m_pb_server k" "open_libs k1 = open_libs k @ [h]" by simp_all
  then show ?thesis using that k0(3) [OF n]
    by (simp add: Let_def copy_plugin_def register_plugin_def get_engine_version_def
        split: if_splits)
qed

text \<open>
  C31. Loading a plugin whose name is not registered: it becomes registered exactly if its
  library opens and holds the three functions a plugin exports. If not, the code throws an
  exception and the kernel keeps as many open libraries as before. If so, the library stays
  open, whether or not an exported address is null; a null address is a null dereference.
\<close>
theorem load_plugin_outcome:
  assumes "\<not> registered c k" and "load_plugin ld c k = (r, k')"
  shows "(registered c k' \<longleftrightarrow> usable ld c) \<and>
    (if usable ld c
     then open_libs k' = open_libs k @ [library_of ld c] \<and>
       r = (if ld_dlsym ld (library_of ld c) ''register_plugin'' = Bound \<and>
               ld_dlsym ld (library_of ld c) ''get_engine_version'' = Bound
            then Inr () else Inl (Fault Null_Deref))
     else mset (open_libs k') = mset (open_libs k) \<and> (\<exists>s. r = Inl (Throw s)))"
proof (cases "usable ld c")
  case True
  show ?thesis
    by (rule load_plugin_usable [OF assms(1) True])
      (use True assms(2) in \<open>simp add: registered_def\<close>)
next
  case False
  with load_plugin_unusable [OF assms(1) False] assms show ?thesis by (auto simp: registered_def)
qed

text \<open>A loader with two libraries: one that is complete, one without \<open>clear_context\<close>.\<close>

definition demo_duplexer :: "string \<Rightarrow> duplexer" where
  "demo_duplexer nm = \<lparr>dx_name = nm, can_open_broker = (\<lambda>c. c = nm \<or> c = ''any''),
     dx_open_broker = (\<lambda>c. Inr nm)\<rparr>"

definition demo_loader :: loader where
  "demo_loader = \<lparr>
     ld_dlopen = (\<lambda>s. if s = ''libkafka.so'' then 11 else if s = ''libzmq.so'' then 12
                      else if s = ''libbroken.so'' then 13 else 0),
     ld_dlsym = (\<lambda>h s. if h = 13 \<and> s = ''clear_context'' then Missing else Bound),
     ld_version = (\<lambda>h. 2),
     ld_register = (\<lambda>h l. l @ [demo_duplexer (if h = 11 then ''kafka'' else ''zmq'')]),
     ld_clear = (\<lambda>h l. filter (\<lambda>d. dx_name d \<noteq> (if h = 11 then ''kafka'' else ''zmq'')) l)\<rparr>"

lemma demo_symbols [simp]:
  "ld_dlsym demo_loader h s = (if h = 13 \<and> s = ''clear_context'' then Missing else Bound)"
  by (simp add: demo_loader_def)

lemma demo_libraries [simp]:
  "library_of demo_loader ''kafka'' = 11" "library_of demo_loader ''zmq'' = 12"
  "library_of demo_loader ''broken'' = 13" "library_of demo_loader ''none'' = 0"
  by code_simp+

lemma demo_usable [simp]:
  "usable demo_loader ''kafka''" "usable demo_loader ''zmq''"
  "\<not> usable demo_loader ''broken''" "\<not> usable demo_loader ''none''"
  by code_simp+

lemma new_base_kernel_empty [simp]: "\<not> registered c new_base_kernel"
  "open_libs new_base_kernel = []" "m_pb_server new_base_kernel = []"
  "m_loaded_plugins new_base_kernel = Map.empty"
  by (simp_all add: registered_def new_base_kernel_def)

theorem load_plugin_outcome_witness:
  "open_libs (snd (load_plugin demo_loader ''kafka'' new_base_kernel)) = [11] \<and>
   fst (load_plugin demo_loader ''kafka'' new_base_kernel) = Inr () \<and>
   open_libs (snd (load_plugin demo_loader ''broken'' new_base_kernel)) = [] \<and>
   \<not> registered ''broken'' (snd (load_plugin demo_loader ''broken'' new_base_kernel))"
  using load_plugin_outcome [OF new_base_kernel_empty(1) prod.collapse [symmetric],
      of "''kafka''" demo_loader]
    load_plugin_outcome [OF new_base_kernel_empty(1) prod.collapse [symmetric],
      of "''broken''" demo_loader]
  by simp

text \<open>
  Loading a plugin and unloading it again leaves the registry as it was, but the library
  it opened is never closed.
\<close>
theorem unload_leaks_library:
  assumes "\<not> registered c k" and "load_plugin ld c k = (Inr u, k1)"
    and "unload_plugin ld c k1 = (Inr u', k2)"
  shows "m_loaded_plugins k2 = m_loaded_plugins k \<and> library_of ld c \<noteq> 0 \<and>
    open_libs k2 = open_libs k @ [library_of ld c]"
proof -
  have u: "usable ld c" using load_plugin_unusable [OF assms(1), of ld] assms(2) by auto
  then have h: "library_of ld c \<noteq> 0" by (simp add: usable_def library_of_def Let_def)
  have "open_libs k1 = open_libs k @ [library_of ld c]"
    by (rule load_plugin_usable [OF assms(1) u]) (use assms(2) in simp)
  with unload_plugin_frame [OF assms(3)]
  have "open_libs k2 = open_libs k @ [library_of ld c]" by simp
  moreover have "m_loaded_plugins k2 d = m_loaded_plugins k d" for d
    using load_plugin_frame [OF assms(2)] unload_plugin_frame [OF assms(3)] assms(1)
    by (cases "d = c") (auto simp: registered_def)
  ultimately show ?thesis using h by blast
qed

definition demo_loaded :: kernel where
  "demo_loaded = snd (load_plugin demo_loader ''kafka'' new_base_kernel)"

lemma demo_load: "load_plugin demo_loader ''kafka'' new_base_kernel = (Inr (), demo_loaded)"
  by (rule load_plugin_usable [OF new_base_kernel_empty(1) demo_usable(1)])
    (simp add: demo_loaded_def)

lemma demo_unload: "\<exists>k2. unload_plugin demo_loader ''kafka'' demo_loaded = (Inr (), k2)"
  by (rule load_plugin_usable [OF new_base_kernel_empty(1) demo_usable(1)])
    (simp add: demo_load unload_plugin_def clear_context_def Let_def)

theorem unload_leaks_library_witness:
  "\<exists>k2. unload_plugin demo_loader ''kafka'' demo_loaded = (Inr (), k2) \<and>
    m_loaded_plugins k2 = Map.empty \<and> open_libs k2 = [11]"
  using demo_unload unload_leaks_library [OF new_base_kernel_empty(1) demo_load] by fastforce

section \<open>Any use of the kernel\<close>

datatype kernel_call = Load string | Unload string | Destroy

primrec kernel_call_result :: "loader \<Rightarrow> kernel_call \<Rightarrow> kernel \<Rightarrow> kernel" where
  \<comment> \<open>the kernel a call leaves, also when it throws\<close>
  "kernel_call_result ld (Load c) k = snd (load_plugin ld c k)"
| "kernel_call_result ld (Unload c) k = snd (unload_plugin ld c k)"
| "kernel_call_result ld Destroy k = snd (destroy_contexts ld k)"

definition registry_ok :: "kernel \<Rightarrow> bool" where
  "registry_ok k \<longleftrightarrow> finite (dom (m_loaded_plugins k)) \<and>
     card (dom (m_loaded_plugins k)) \<le> length (open_libs k) \<and>
     (\<forall>p \<in> ran (m_loaded_plugins k). m_shared_lib p \<noteq> 0 \<and>
        m_shared_lib p \<in> set (open_libs k) \<and> m_str_filename p = [])"

lemma registry_ok_new: "registry_ok new_base_kernel"
  by (simp add: registry_ok_def)

lemma registry_ok_cong:
  assumes "m_loaded_plugins k' = m_loaded_plugins k" "mset (open_libs k') = mset (open_libs k)"
  shows "registry_ok k' = registry_ok k"
  using assms(1) mset_eq_setD [OF assms(2)] mset_eq_length [OF assms(2)]
  by (simp add: registry_ok_def)

lemma ran_upd_subset: "ran (m(c \<mapsto> p)) \<subseteq> insert p (ran m)"
  by (auto simp: ran_def split: if_splits)

lemma registry_ok_add:
  assumes "registry_ok k" "m_loaded_plugins k' = (m_loaded_plugins k)(c \<mapsto> p)"
    "open_libs k' = open_libs k @ [h]" "m_shared_lib p = h" "h \<noteq> 0" "m_str_filename p = []"
  shows "registry_ok k'"
proof -
  have "card (insert c (dom (m_loaded_plugins k))) \<le> Suc (length (open_libs k))"
    using assms(1) by (simp add: registry_ok_def card_insert_if)
  moreover have "q = p \<or> q \<in> ran (m_loaded_plugins k)"
    if "q \<in> ran ((m_loaded_plugins k)(c \<mapsto> p))" for q
    using that ran_upd_subset by fastforce
  ultimately show ?thesis using assms unfolding registry_ok_def by fastforce
qed

lemma registry_ok_load:
  assumes "registry_ok k"
  shows "registry_ok (snd (load_plugin ld c k))"
proof (cases "registered c k")
  case True
  then show ?thesis
    using registry_ok_cong [of "cerr ''...plugin already loaded...'' k" k] assms
    by (simp add: load_plugin_def)
next
  case False
  show ?thesis
  proof (cases "usable ld c")
    case True
    then have nz: "library_of ld c \<noteq> 0" by (simp add: usable_def library_of_def Let_def)
    show ?thesis
    proof (rule load_plugin_usable [OF False True], goal_cases)
      case (1 k' p)
      have "m_loaded_plugins k' = (m_loaded_plugins k)(c \<mapsto> p)"
        using load_plugin_frame [OF 1(1)] 1(4) by auto
      with registry_ok_add [OF assms] nz 1(1,2,5,6) show ?case by simp
    qed
  next
    case unus: False
    with load_plugin_unusable [OF False] obtain s k' where
      l: "load_plugin ld c k = (Inl (Throw s), k')" and
      "m_loaded_plugins k' = m_loaded_plugins k" "mset (open_libs k') = mset (open_libs k)" by blast
    from registry_ok_cong [OF this(2,3)] assms show ?thesis by (simp add: l)
  qed
qed

lemma registry_ok_del:
  assumes "registry_ok k" "m_loaded_plugins k' = (m_loaded_plugins k)(c := None)"
    "open_libs k' = open_libs k"
  shows "registry_ok k'"
proof -
  have "card (dom (m_loaded_plugins k) - {c}) \<le> card (dom (m_loaded_plugins k))"
    using assms(1) by (intro card_mono) (auto simp: registry_ok_def)
  moreover have "ran ((m_loaded_plugins k)(c := None)) \<subseteq> ran (m_loaded_plugins k)"
    by (auto simp: ran_def split: if_splits)
  ultimately show ?thesis using assms unfolding registry_ok_def by fastforce
qed

lemma unload_plugin_result: "unload_plugin ld c k = (r, k') \<Longrightarrow> open_libs k' = open_libs k \<and>
    (m_loaded_plugins k' = m_loaded_plugins k \<or>
     m_loaded_plugins k' = (m_loaded_plugins k)(c := None))"
  by (auto simp: unload_plugin_def Let_def split: prod.splits sum.splits option.splits
      dest!: call_frame)

lemma registry_ok_unload:
  assumes "registry_ok k"
  shows "registry_ok (snd (unload_plugin ld c k))"
proof -
  obtain r k' where u: "unload_plugin ld c k = (r, k')" by fastforce
  with unload_plugin_result [OF u] registry_ok_del [OF assms] registry_ok_cong [of k' k] assms
  show ?thesis by auto
qed

lemma clear_all_frame: "clear_all ld ps k = (r, k') \<Longrightarrow>
    m_loaded_plugins k' = m_loaded_plugins k \<and> open_libs k' = open_libs k"
  by (induction ld ps k rule: clear_all.induct)
    (auto split: prod.splits sum.splits dest!: call_frame)

lemma registry_ok_destroy:
  assumes "registry_ok k"
  shows "registry_ok (snd (destroy_contexts ld k))"
proof -
  obtain r k' where d: "destroy_contexts ld k = (r, k')" by fastforce
  then have "m_loaded_plugins k' = m_loaded_plugins k \<and> open_libs k' = open_libs k"
    unfolding destroy_contexts_def Let_def by (auto dest!: clear_all_frame)
  with registry_ok_cong [of k' k] assms d show ?thesis by simp
qed

text \<open>
  C20. Whatever plugins are loaded and unloaded, failing or not, every registered plugin
  points into a library that is open, with a handle that is not null; there are at least as
  many open libraries as plugins; and no registered plugin remembers its file name, since
  the copy into the map drops it.
\<close>
theorem kernel_calls_registry_ok:
  "registry_ok (fold (kernel_call_result ld) calls new_base_kernel)"
proof -
  have "registry_ok (kernel_call_result ld c k)" if "registry_ok k" for c k
    using that registry_ok_load registry_ok_unload registry_ok_destroy by (cases c) auto
  then have "registry_ok (fold (kernel_call_result ld) calls k)" if "registry_ok k" for k
    using that by (induction calls arbitrary: k) auto
  then show ?thesis using registry_ok_new .
qed

section \<open>Brokers of loaded plugins\<close>

lemma open_broker_find: "open_broker config ds =
    (case find (\<lambda>d. can_open_broker d config) ds of
       None \<Rightarrow> Inl (Throw ''invalid or unsupported duplexer type'')
     | Some d \<Rightarrow> dx_open_broker d config)"
  by (induction ds) auto

lemma load_all_servers:
  assumes "distinct cs" "\<And>c. c \<in> set cs \<Longrightarrow> \<not> registered c k"
    and "\<And>c. c \<in> set cs \<Longrightarrow> usable ld c \<and>
      ld_dlsym ld (library_of ld c) ''register_plugin'' = Bound \<and>
      ld_dlsym ld (library_of ld c) ''get_engine_version'' = Bound"
    and "\<And>c. c \<in> set cs \<Longrightarrow> ld_register ld (library_of ld c) =
      add_publish_subscribe_duplexer (dx c)"
  shows "\<exists>k'. kr.add_list ld cs k = (True, k') \<and> m_pb_server k' = m_pb_server k @ map dx cs"
  using assms
proof (induction cs arbitrary: k)
  case (Cons c cs)
  from Cons.prems(2-4) [of c] have c: "\<not> registered c k" "usable ld c"
    "ld_dlsym ld (library_of ld c) ''register_plugin'' = Bound"
    "ld_dlsym ld (library_of ld c) ''get_engine_version'' = Bound"
    "ld_register ld (library_of ld c) = add_publish_subscribe_duplexer (dx c)" by simp_all
  obtain k1 where k1: "load_plugin ld c k = (Inr (), k1)" "m_pb_server k1 = m_pb_server k @ [dx c]"
    by (rule load_plugin_usable [OF c(1,2)]) (simp add: c add_publish_subscribe_duplexer_def)
  have "\<not> registered d k1" if "d \<in> set cs" for d
    using load_plugin_frame [OF k1(1)] Cons.prems(1) Cons.prems(2) [of d] that
    by (auto simp: registered_def)
  then obtain k' where "kr.add_list ld cs k1 = (True, k')"
    "m_pb_server k' = m_pb_server k1 @ map dx cs"
    using Cons.IH [of k1] Cons.prems(1,3,4) by auto
  moreover have "succeeded (load_plugin ld c k) = (True, k1)" by (simp add: succeeded_def k1(1))
  ultimately show ?case by (simp add: k1(2))
qed simp

text \<open>
  C40. A kernel that loads a list of plugins, each of which adds a duplexer when it is
  registered, ends with all of them registered, and opens a broker through the first of
  them, in the order of loading, that can open it; it throws if none can.
\<close>
theorem broker_of_loaded_plugins:
  assumes "distinct cs"
    and "\<And>c. c \<in> set cs \<Longrightarrow> usable ld c \<and>
      ld_dlsym ld (library_of ld c) ''register_plugin'' = Bound \<and>
      ld_dlsym ld (library_of ld c) ''get_engine_version'' = Bound"
    and "\<And>c. c \<in> set cs \<Longrightarrow> ld_register ld (library_of ld c) =
      add_publish_subscribe_duplexer (dx c)"
  shows "\<exists>k. kr.add_list ld cs new_base_kernel = (True, k) \<and> (\<forall>c \<in> set cs. registered c k) \<and>
    open_broker config (m_pb_server k) =
      (case find (\<lambda>c. can_open_broker (dx c) config) cs of
         None \<Rightarrow> Inl (Throw ''invalid or unsupported duplexer type'')
       | Some c \<Rightarrow> dx_open_broker (dx c) config)"
proof -
  obtain k where k: "kr.add_list ld cs new_base_kernel = (True, k)" "m_pb_server k = map dx cs"
    using load_all_servers [of cs new_base_kernel ld dx] assms by auto
  have "find P (map dx cs) = map_option dx (find (P \<circ> dx) cs)" for P
    by (induction cs) auto
  with k kr.add_list_has [OF k(1)] show ?thesis
    by (auto simp: open_broker_find o_def split: option.splits)
qed

lemma demo_register:
  "ld_register demo_loader 11 = add_publish_subscribe_duplexer (demo_duplexer ''kafka'')"
  "ld_register demo_loader 12 = add_publish_subscribe_duplexer (demo_duplexer ''zmq'')"
  by (simp_all add: demo_loader_def add_publish_subscribe_duplexer_def fun_eq_iff)

lemma demo_chain:
  "distinct [''zmq'', ''kafka'']"
  "c \<in> set [''zmq'', ''kafka''] \<Longrightarrow> usable demo_loader c \<and>
    ld_dlsym demo_loader (library_of demo_loader c) ''register_plugin'' = Bound \<and>
    ld_dlsym demo_loader (library_of demo_loader c) ''get_engine_version'' = Bound"
  "c \<in> set [''zmq'', ''kafka''] \<Longrightarrow> ld_register demo_loader (library_of demo_loader c) =
    add_publish_subscribe_duplexer (demo_duplexer c)"
  by (auto simp: demo_register)

theorem broker_of_loaded_plugins_witness:
  "\<exists>k. kr.add_list demo_loader [''zmq'', ''kafka''] new_base_kernel = (True, k) \<and>
    open_broker ''any'' (m_pb_server k) = Inr ''zmq'' \<and>
    open_broker ''kafka'' (m_pb_server k) = Inr ''kafka'' \<and>
    open_broker ''rabbit'' (m_pb_server k) = Inl (Throw ''invalid or unsupported duplexer type'')"
  using broker_of_loaded_plugins [OF demo_chain, of "''any''"]
    broker_of_loaded_plugins [OF demo_chain, of "''kafka''"]
    broker_of_loaded_plugins [OF demo_chain, of "''rabbit''"]
  by (auto simp: demo_duplexer_def)

section \<open>The singleton\<close>

text \<open>
  Two contexts for which \<open>make_kernel\<close> was called refer to one kernel, which is alive and
  is the one kernel there is; \<open>unmake_kernel\<close> on either deletes it and leaves both contexts
  with a reference to the deleted object, so that a later \<open>make_kernel\<close> makes another.
\<close>
theorem kernel_singleton:
  assumes "make_kernel a w = (x, a', w1)" and "make_kernel b w1 = (y, b', w2)"
    and "unmake_kernel a' w2 = (z, a'', w3)" and "make_kernel c w3 = (u, c', w4)"
    and "m_instance w = None" and "\<forall>i \<in> live w. i < next_id w"
  shows "x = 0 \<and> y = 0 \<and> z = 0 \<and> kernel_ref a' = kernel_ref b' \<and>
    (\<exists>i. kernel_ref a' = Some i \<and> live w2 = insert i (live w) \<and> i \<notin> live w \<and>
       kernel_ref a'' = Some i \<and> live w3 = live w \<and>
       (\<exists>j. kernel_ref c' = Some j \<and> j \<noteq> i \<and> live w4 = insert j (live w)))"
proof -
  from assms(6) have "next_id w \<notin> live w" by auto
  with assms(1-5) show ?thesis
    by (auto simp: make_kernel_def unmake_kernel_def instance_of_def dispose_instance_def)
qed

definition no_kernels :: kernel_heap where
  "no_kernels = \<lparr>m_instance = None, live = {}, next_id = 0\<rparr>"

definition no_context :: kernel_context where
  "no_context = \<lparr>kernel_ref = None, lib_ref = 0\<rparr>"

theorem kernel_singleton_witness:
  "\<exists>a' w1 b' w2 a'' w3. make_kernel no_context no_kernels = (0, a', w1) \<and>
     make_kernel no_context w1 = (0, b', w2) \<and> unmake_kernel a' w2 = (0, a'', w3) \<and>
     kernel_ref b' = Some 0 \<and> live w2 = {0} \<and> live w3 = {} \<and> kernel_ref a'' = Some 0"
proof -
  obtain x a' w1 where 1: "make_kernel no_context no_kernels = (x, a', w1)"
    by (rule prod_cases3)
  obtain y b' w2 where 2: "make_kernel no_context w1 = (y, b', w2)" by (rule prod_cases3)
  obtain z a'' w3 where 3: "unmake_kernel a' w2 = (z, a'', w3)" by (rule prod_cases3)
  obtain u c' w4 where 4: "make_kernel no_context w3 = (u, c', w4)" by (rule prod_cases3)
  have "kernel_ref a' = Some 0"
    using 1 by (auto simp: make_kernel_def instance_of_def no_kernels_def)
  with kernel_singleton [OF 1 2 3 4] 1 2 3 show ?thesis by (auto simp: no_kernels_def)
qed

end
