(* ===== verification/Stack_Trace.thy ===== *)
theory Stack_Trace
  imports Os Cpp_String
begin

text \<open>
  The stack traces of cci_daemon/src/core/cci_stack_trace.cpp: the parser of the lines
  \<open>module(name+offset) [address]\<close> that backtrace_symbols makes, the printer over it, and the
  walk along the saved frame pointers. That backtrace_symbols finds memory for its lines is
  assumed; a line it does not know is empty. The walk reads a memory that is a parameter; it
  follows whatever it finds there and need not end, so it is a partial function.
\<close>

section \<open>Symbol lines\<close>

fun scan_symbol :: "string \<Rightarrow> nat \<Rightarrow> nat option \<Rightarrow> nat option \<Rightarrow>
    nat option \<times> nat option \<times> nat option" where
  \<comment> \<open>\<open>begin_name\<close>, \<open>begin_offset\<close> and \<open>end_offset\<close> as positions, None for a null pointer\<close>
  "scan_symbol [] p begin_name begin_offset = (begin_name, begin_offset, None)"
| "scan_symbol (c # cs) p begin_name begin_offset =
     (if c = CHR ''('' then scan_symbol cs (Suc p) (Some p) begin_offset
      else if c = CHR ''+'' then scan_symbol cs (Suc p) begin_name (Some p)
      else if c = CHR '')'' \<and> begin_offset \<noteq> None then (begin_name, begin_offset, Some p)
      else scan_symbol cs (Suc p) begin_name begin_offset)"

definition split_symbol :: "string \<Rightarrow> (string \<times> string \<times> string) option" where
  \<comment> \<open>module, mangled name and offset, cut out by overwriting the three characters with NUL\<close>
  "split_symbol line =
     (case scan_symbol line 0 None None of
        (Some n, Some b, Some e) \<Rightarrow>
          if n < b
          then Some (take n line, substr line (Suc n) (b - Suc n), substr line (Suc b) (e - Suc b))
          else None
      | _ \<Rightarrow> None)"

definition print_frame :: "int \<Rightarrow> nat \<Rightarrow> unit os" where
  "print_frame out i = do {
     symbol \<leftarrow> sys_text (Backtrace_Symbol i);
     let line = c_str (case symbol of None \<Rightarrow> [] | Some s \<Rightarrow> s);
     case split_symbol line of
       Some (module, name, offset) \<Rightarrow> do {
         demangled \<leftarrow> sys_text (Demangle name);
         sys (Fprint out (case demangled of
            Some funcname \<Rightarrow> ''  '' @ module @ '' : '' @ c_str funcname @ ''+'' @ offset @ [LF]
          | None \<Rightarrow> ''  '' @ module @ '' : '' @ name @ ''()+'' @ offset @ [LF]));
         ret () }
     | None \<Rightarrow> do { sys (Fprint out (''  '' @ line @ [LF])); ret () } }"

primrec print_frames :: "int \<Rightarrow> nat list \<Rightarrow> unit os" where
  "print_frames out [] = ret ()"
| "print_frames out (i # is) = do { print_frame out i; print_frames out is }"

definition print_stacktrace :: "int \<Rightarrow> nat \<Rightarrow> unit os" where
  "print_stacktrace out max_frames = do {
     sys (Fprint out (''stack trace:'' @ [LF]));
     addrlen \<leftarrow> sys (Backtrace (max_frames + 1));
     if addrlen = 0
     then do { sys (Fprint out (''  <empty, possibly corrupt>'' @ [LF])); ret () }
     else print_frames out [1..<nat addrlen] }"

definition default_max_frames :: nat where "default_max_frames = 63"

section \<open>The walk\<close>

fun hex_digits :: "nat \<Rightarrow> nat \<Rightarrow> string" where
  "hex_digits 0 n = []"
| "hex_digits (Suc k) n =
     hex_digits k (n div 16) @ [let d = n mod 16 in char_of (if d < 10 then 48 + d else 87 + d)]"

definition hex8 :: "nat \<Rightarrow> string" where
  \<comment> \<open>\<open>%08x\<close>: the low 32 bits\<close>
  "hex8 n = hex_digits 8 (n mod 2 ^ 32)"

definition walk_line :: "nat \<Rightarrow> nat \<Rightarrow> nat \<Rightarrow> string \<Rightarrow> string" where
  "walk_line frame ebp rt sname =
     ''frame '' @ decimal frame @ '': [ebp=0x'' @ hex8 ebp @ ''] [ret=0x'' @ hex8 rt @ ''] ''
     @ sname @ [LF]"

partial_function (option) walk ::
    "(nat \<Rightarrow> nat) \<Rightarrow> (nat \<Rightarrow> string) \<Rightarrow> nat \<Rightarrow> nat \<Rightarrow> string list \<Rightarrow> string list option" where
  \<comment> \<open>memory, symbol names of addresses, \<open>ebp\<close>, \<open>frame\<close>, the lines so far\<close>
  "walk mem sname ebp frame acc =
     (if mem ebp = 0 then Some acc
      else walk mem sname (mem ebp) (Suc frame)
        (acc @ [walk_line frame (mem ebp) (mem (ebp + 8)) (sname (mem (ebp + 8)))]))"

definition get_ebp :: "nat \<Rightarrow> nat" where
  \<comment> \<open>two words below the parameter's address\<close>
  "get_ebp dummy_address = dummy_address - 2 * 8"

definition print_walk_backtrace ::
    "(nat \<Rightarrow> nat) \<Rightarrow> (nat \<Rightarrow> string) \<Rightarrow> nat \<Rightarrow> string list option" where
  "print_walk_backtrace mem sname dummy_address =
     walk mem sname (get_ebp dummy_address) 0 [''stack backtrace walk: '' @ [LF]]"

section \<open>Facts\<close>

lemma scan_symbol_skip:
  "\<forall>c \<in> set m. c \<noteq> CHR ''('' \<and> c \<noteq> CHR ''+'' \<and> c \<noteq> CHR '')'' \<Longrightarrow>
   scan_symbol (m @ s) p n b = scan_symbol s (p + length m) n b"
  by (induction m arbitrary: p) auto

lemma scan_symbol_module:
  "CHR '')'' \<notin> set m \<Longrightarrow> \<exists>n' b'. scan_symbol (m @ s) p n b = scan_symbol s (p + length m) n' b'"
proof (induction m arbitrary: p n b)
  case (Cons c m)
  then have "\<exists>n' b'. scan_symbol (m @ s) (Suc p) n1 b1 = scan_symbol s (Suc p + length m) n' b'"
    for n1 b1 using Cons.IH [of "Suc p" n1 b1] by simp
  with Cons.prems show ?case by auto
qed auto

definition last_at :: "string \<Rightarrow> nat \<Rightarrow> (char \<Rightarrow> bool) \<Rightarrow> (char \<Rightarrow> bool) \<Rightarrow> nat \<Rightarrow> bool" where
  \<comment> \<open>\<open>P\<close> holds of \<open>t ! i\<close> and \<open>Q\<close> of what follows, up to position \<open>p\<close>\<close>
  "last_at t p P Q i \<longleftrightarrow> i < p \<and> P (t ! i) \<and> (\<forall>k. i < k \<longrightarrow> k < p \<longrightarrow> Q (t ! k))"

definition scanned :: "string \<Rightarrow> nat \<Rightarrow> nat option \<Rightarrow> nat option \<Rightarrow> bool" where
  \<comment> \<open>where the scan of \<open>t\<close> stands before position \<open>p\<close>\<close>
  "scanned t p n b \<longleftrightarrow>
     (\<forall>i. n = Some i \<longrightarrow> last_at t p (\<lambda>c. c = CHR ''('') (\<lambda>c. c \<noteq> CHR ''('') i) \<and>
     (\<forall>j. b = Some j \<longrightarrow> last_at t p (\<lambda>c. c = CHR ''+'') (\<lambda>c. c \<noteq> CHR ''+'' \<and> c \<noteq> CHR '')'') j)"

lemma last_at_Suc: "last_at t p P Q i \<Longrightarrow> Q (t ! p) \<Longrightarrow> last_at t (Suc p) P Q i"
  by (auto simp: last_at_def less_Suc_eq)

lemma last_at_new: "P (t ! p) \<Longrightarrow> last_at t (Suc p) P Q p"
  by (simp add: last_at_def)

lemma scanned_step:
  assumes "scanned t p n b"
  shows "t ! p = CHR ''('' \<Longrightarrow> scanned t (Suc p) (Some p) b"
    and "t ! p = CHR ''+'' \<Longrightarrow> scanned t (Suc p) n (Some p)"
    and "t ! p \<noteq> CHR ''('' \<Longrightarrow> t ! p \<noteq> CHR ''+'' \<Longrightarrow> t ! p \<noteq> CHR '')'' \<or> b = None \<Longrightarrow>
      scanned t (Suc p) n b"
  using assms by (auto simp: scanned_def last_at_new intro: last_at_Suc)

lemma scannedD:
  assumes "scanned t e (Some i) (Some j)"
  shows "i < e" "j < e" "t ! i = CHR ''(''" "t ! j = CHR ''+''"
    and "i < k \<Longrightarrow> k < e \<Longrightarrow> t ! k \<noteq> CHR ''(''"
    and "j < k \<Longrightarrow> k < e \<Longrightarrow> t ! k \<noteq> CHR ''+'' \<and> t ! k \<noteq> CHR '')''"
  using assms by (simp_all add: scanned_def last_at_def)

lemma scan_sound:
  assumes "scan_symbol s p n b = (Some i, Some j, Some e)" "s = drop p t" "scanned t p n b"
  shows "e < length t \<and> t ! e = CHR '')'' \<and> scanned t e (Some i) (Some j)"
  using assms
proof (induction s p n b rule: scan_symbol.induct)
  case (2 c cs p n b)
  then have l: "p < length t" by (cases "p < length t") auto
  have "c # cs = t ! p # drop (Suc p) t"
    using "2.prems"(2) Cons_nth_drop_Suc [OF l] by (rule trans [OF _ sym])
  then have p: "t ! p = c" "cs = drop (Suc p) t" by simp_all
  consider "c = CHR ''(''" | "c = CHR ''+''" | "c = CHR '')''" "b \<noteq> None"
    | "c \<noteq> CHR ''(''" "c \<noteq> CHR ''+''" "c \<noteq> CHR '')'' \<or> b = None" by blast
  then show ?case
  proof cases
    case 1
    then show ?thesis using "2.IH"(1) "2.prems" p scanned_step(1) [OF "2.prems"(3)] by simp
  next
    case 2
    then show ?thesis using "2.IH"(2) "2.prems" p scanned_step(2) [OF "2.prems"(3)] by simp
  next
    case 3
    then show ?thesis using "2.prems" p l by auto
  next
    case 4
    then show ?thesis using "2.IH"(3) "2.prems" p scanned_step(3) [OF "2.prems"(3)] by auto
  qed
qed simp

lemma split_at_three:
  assumes "i < j" "j < e" "e < length t"
  shows "t = take i t @ t ! i # substr t (Suc i) (j - Suc i) @ t ! j #
    substr t (Suc j) (e - Suc j) @ t ! e # drop (Suc e) t"
proof -
  have "drop (Suc a) t = substr t (Suc a) (b - Suc a) @ t ! b # drop (Suc b) t"
    if "a < b" "b < length t" for a b
  proof -
    have "drop (Suc a) t = take (b - Suc a) (drop (Suc a) t) @ drop (b - Suc a) (drop (Suc a) t)"
      by (rule append_take_drop_id [symmetric])
    also have "drop (b - Suc a) (drop (Suc a) t) = drop b t" using that by simp
    also have "drop b t = t ! b # drop (Suc b) t" using that by (simp add: Cons_nth_drop_Suc)
    finally show ?thesis by (simp add: substr_def)
  qed
  from this [of i j] this [of j e] id_take_nth_drop [of i t] assms show ?thesis by simp
qed

lemma in_substr: "c \<in> set (substr t p n) \<Longrightarrow> \<exists>k. p \<le> k \<and> k < p + n \<and> t ! k = c"
  by (auto simp: substr_def in_set_conv_nth) (metis le_add1 nat_add_left_cancel_less)

lemma walk_ascending:
  assumes "\<And>p. mem p \<noteq> 0 \<Longrightarrow> p < mem p \<and> mem p \<le> bottom"
  shows "\<exists>lines n. walk mem sname ebp frame acc = Some lines \<and> length lines = length acc + n \<and>
    (mem ^^ Suc n) ebp = 0 \<and> (\<forall>k \<le> n. k \<noteq> 0 \<longrightarrow> (mem ^^ k) ebp \<noteq> 0)"
proof (induction "bottom - ebp" arbitrary: ebp frame acc rule: less_induct)
  case less
  show ?case
  proof (cases "mem ebp = 0")
    case True
    then show ?thesis by (subst walk.simps) (auto intro!: exI [of _ 0])
  next
    case False
    let ?acc = "acc @ [walk_line frame (mem ebp) (mem (ebp + 8)) (sname (mem (ebp + 8)))]"
    have "ebp < mem ebp" "mem ebp \<le> bottom" using assms [OF False] by simp_all
    then have "bottom - mem ebp < bottom - ebp" by arith
    from less [OF this, of "Suc frame" ?acc] obtain lines n where
      n: "walk mem sname (mem ebp) (Suc frame) ?acc = Some lines" "length lines = length acc + Suc n"
      "(mem ^^ Suc n) (mem ebp) = 0" "\<forall>k \<le> n. k \<noteq> 0 \<longrightarrow> (mem ^^ k) (mem ebp) \<noteq> 0" by auto
    have "(mem ^^ k) ebp \<noteq> 0" if "k \<le> Suc n" "k \<noteq> 0" for k
      using that n(4) False by (cases k) (auto simp: funpow_swap1)
    with n False show ?thesis
      by (subst walk.simps) (auto simp: funpow_swap1 intro!: exI [of _ "Suc n"])
  qed
qed

lemma walk_cycle:
  assumes "mem p = p" "p \<noteq> 0"
  shows "walk mem sname p frame acc = None"
proof -
  have "mem ebp \<noteq> ebp \<or> ebp = 0" if "walk mem sname ebp frame acc = Some r" for ebp frame acc r
  proof (rule walk.raw_induct [where P = "\<lambda>mem sname ebp frame acc r. mem ebp \<noteq> ebp \<or> ebp = 0",
        OF _ that], goal_cases)
    case (1 walk mem sname ebp frame acc r)
    show ?case
    proof (cases "mem ebp = 0")
      case False
      with 1(2) have "mem (mem ebp) \<noteq> mem ebp \<or> mem ebp = 0" by (intro 1(1)) simp
      with False show ?thesis by auto
    qed auto
  qed
  then show ?thesis using assms by (cases "walk mem sname p frame acc") auto
qed

section \<open>Properties\<close>

text \<open>
  C37. The parser of symbol lines splits exactly the lines of the form
  \<open>module(name+offset)...\<close>: such a line is split at its three marks, whatever the module is
  as long as it has no closing parenthesis (a \<open>+\<close> as in libstdc++ does no harm); and if a
  line is split, it is put together from the parts.
\<close>
theorem split_symbol_roundtrip:
  assumes "CHR '')'' \<notin> set m" and "\<forall>c \<in> set f. c \<noteq> CHR ''('' \<and> c \<noteq> CHR ''+'' \<and> c \<noteq> CHR '')''"
    and "\<forall>c \<in> set a. c \<noteq> CHR ''('' \<and> c \<noteq> CHR ''+'' \<and> c \<noteq> CHR '')''"
  shows "split_symbol (m @ ''('' @ f @ ''+'' @ a @ '')'' @ rest) = Some (m, f, a) \<and>
    (\<forall>line m' f' a'. split_symbol line = Some (m', f', a') \<longrightarrow>
       (\<exists>rest'. line = m' @ ''('' @ f' @ ''+'' @ a' @ '')'' @ rest' \<and> CHR ''('' \<notin> set f' \<and>
          CHR ''+'' \<notin> set a' \<and> CHR '')'' \<notin> set a'))"
proof -
  let ?line = "m @ ''('' @ f @ ''+'' @ a @ '')'' @ rest"
  obtain n b where "scan_symbol ?line 0 None None =
      scan_symbol (''('' @ f @ ''+'' @ a @ '')'' @ rest) (length m) n b"
    using scan_symbol_module [OF assms(1), of "''('' @ f @ ''+'' @ a @ '')'' @ rest" 0 None None]
    by auto
  also have "\<dots> = (Some (length m), Some (Suc (length m + length f)),
      Some (Suc (Suc (length m + length f + length a))))"
    by (simp add: scan_symbol_skip [OF assms(2)] scan_symbol_skip [OF assms(3)])
  finally have "split_symbol ?line = Some (m, f, a)"
    by (simp add: split_symbol_def substr_def)
  moreover have "\<exists>rest'. line = m' @ ''('' @ f' @ ''+'' @ a' @ '')'' @ rest' \<and> CHR ''('' \<notin> set f' \<and>
      CHR ''+'' \<notin> set a' \<and> CHR '')'' \<notin> set a'"
    if "split_symbol line = Some (m', f', a')" for line m' f' a'
  proof -
    from that obtain i j e where s: "scan_symbol line 0 None None = (Some i, Some j, Some e)" "i < j"
      "m' = take i line" "f' = substr line (Suc i) (j - Suc i)" "a' = substr line (Suc j) (e - Suc j)"
      by (auto simp: split_symbol_def split: prod.splits option.splits if_splits)
    have sc: "e < length line" "line ! e = CHR '')''" "scanned line e (Some i) (Some j)"
      using scan_sound [OF s(1), of line] by (simp_all add: scanned_def)
    then have "line = m' @ line ! i # f' @ line ! j # a' @ line ! e # drop (Suc e) line"
      using split_at_three [OF s(2) scannedD(2) [OF sc(3)] sc(1)] by (simp add: s(3-5))
    moreover have "CHR ''('' \<notin> set f'"
    proof
      assume "CHR ''('' \<in> set f'"
      then obtain k where "i < k" "k < j" "line ! k = CHR ''(''"
        using in_substr [of "CHR ''(''" line "Suc i" "j - Suc i"] s(2) unfolding s(4)
        by (auto simp: Suc_le_eq)
      with scannedD(5) [OF sc(3), of k] scannedD(2) [OF sc(3)] show False by simp
    qed
    moreover have "c \<noteq> CHR ''+'' \<and> c \<noteq> CHR '')''" if "c \<in> set a'" for c
    proof -
      from that obtain k where "j < k" "k < e" "line ! k = c"
        using in_substr [of c line "Suc j" "e - Suc j"] unfolding s(5)
        by (auto simp: Suc_le_eq)
      with scannedD(6) [OF sc(3), of k] show ?thesis by simp
    qed
    ultimately show ?thesis using sc scannedD(3,4) [OF sc(3)] by auto
  qed
  ultimately show ?thesis by blast
qed

theorem split_symbol_roundtrip_witness:
  "split_symbol (''libstdc++.so(_ZN1a+0x15) [0x80]'') = Some (''libstdc++.so'', ''_ZN1a'', ''0x15'')"
  using split_symbol_roundtrip [of "''libstdc++.so''" "''_ZN1a''" "''0x15''" "'' [0x80]''"] by simp

text \<open>
  The walk along the saved frame pointers ends if each of them lies above the one before
  and none above the bottom of the stack, and has then written one line for each frame; on a
  frame that points to itself it writes without end.
\<close>
theorem walk_returns:
  assumes "\<And>p. mem p \<noteq> 0 \<Longrightarrow> p < mem p \<and> mem p \<le> bottom"
  shows "(\<exists>lines n. print_walk_backtrace mem sname a = Some lines \<and> length lines = Suc n \<and>
      (mem ^^ Suc n) (get_ebp a) = 0 \<and> (\<forall>k \<le> n. k \<noteq> 0 \<longrightarrow> (mem ^^ k) (get_ebp a) \<noteq> 0)) \<and>
    (\<forall>mem'. mem' (get_ebp a) = get_ebp a \<longrightarrow> get_ebp a \<noteq> 0 \<longrightarrow>
       print_walk_backtrace mem' sname a = None)"
proof
  show "\<exists>lines n. print_walk_backtrace mem sname a = Some lines \<and> length lines = Suc n \<and>
      (mem ^^ Suc n) (get_ebp a) = 0 \<and> (\<forall>k \<le> n. k \<noteq> 0 \<longrightarrow> (mem ^^ k) (get_ebp a) \<noteq> 0)"
    using walk_ascending [OF assms] unfolding print_walk_backtrace_def by fastforce
  show "\<forall>mem'. mem' (get_ebp a) = get_ebp a \<longrightarrow> get_ebp a \<noteq> 0 \<longrightarrow>
       print_walk_backtrace mem' sname a = None"
    by (simp add: print_walk_backtrace_def walk_cycle)
qed

theorem walk_returns_witness:
  "\<exists>lines. print_walk_backtrace (\<lambda>p. if p < 48 then p + 16 else 0) (\<lambda>_. ''f'') 32 = Some lines"
proof -
  have "\<exists>lines n. print_walk_backtrace (\<lambda>p. if p < 48 then p + 16 else 0) (\<lambda>_. ''f'') 32 = Some lines \<and>
      length lines = Suc n"
    using walk_returns [of "\<lambda>p. if p < 48 then p + 16 else 0" 64 "\<lambda>_. ''f''" 32]
    by (force split: if_splits)
  then show ?thesis by blast
qed

end
