(* ===== verification/Facade.thy ===== *)
theory Facade
  imports Daemonize Stack_Trace
begin

text \<open>
  The daemon's facade: class cci_daemon_facade of include/cci_daemon.h and
  cci_daemon/src/core/cci_daemon.cpp. A member function is a computation of the State_Monad
  over the object and the operating system. One that may not return normally has a \<open>run\<close>
  as its result: \<open>exit\<close>, \<open>abort\<close>, an exception or undefined behaviour, which \<open>andthen\<close>
  passes on. A FILE pointer and a function's address are integers, 0 is the null pointer;
  members the constructor leaves unwritten are \<open>None\<close>. The libraries that are loaded are the
  operating system's: what their functions do is among its answers.
\<close>

section \<open>The object\<close>

datatype service_proc = sp_default_service | sp_default_coordinator | sp_custom_coordinator

record kernel_slots =
  pm :: "string \<rightharpoonup> string"
  kernel_ref :: "int option"
  lib_ref :: "int option"
  make_kernel_address :: "int option"
  unmake_kernel_address :: "int option"

record facade =
  m_dw_flags :: "64 word"
  m_log_fp :: int
  m_b_opened :: bool
  m_service_proc :: service_proc
  m_str_conf :: string
  m_str_pid_path :: string
  m_backtrace :: bool
  m_argc :: int
  m_argv :: "string list"
  m_chroot_dir :: string
  m_kernel_context :: kernel_slots
  bootstrap_function_address :: "int option"

type_synonym 's running = "(facade \<times> world, 's) state"

definition facade_buffer_size :: nat where "facade_buffer_size = 1024"
definition facade_cpf_cloexec :: nat where "facade_cpf_cloexec = 1"
definition path_config :: string where "path_config = ''/etc/chromatic-universe/cci-daemon.conf''"
definition log_path :: string where "log_path = ''/var/log/cci-daemon/cci-daemon.log''"
definition facade_path_pid :: string where "facade_path_pid = ''/var/run/cci-daemon.pid''"

definition new_kernel_slots :: kernel_slots where
  \<comment> \<open>\<open>new kernel_context\<close> initialises the map and leaves the pointers as they are\<close>
  "new_kernel_slots = \<lparr>pm = Map.empty, kernel_ref = None, lib_ref = None,
     make_kernel_address = None, unmake_kernel_address = None\<rparr>"

definition new_facade :: "int \<Rightarrow> string list \<Rightarrow> facade" where
  "new_facade argc argv = \<lparr>m_dw_flags = 0, m_log_fp = 0, m_b_opened = False,
     m_service_proc = sp_default_service, m_str_conf = path_config,
     m_str_pid_path = facade_path_pid, m_backtrace = False, m_argc = argc, m_argv = argv,
     m_chroot_dir = ''/'', m_kernel_context = new_kernel_slots,
     bootstrap_function_address = None\<rparr>"

section \<open>Sequencing\<close>

definition on_os :: "'a os \<Rightarrow> 'a running" where
  "on_os m = State (\<lambda>(d, w). let (a, w') = run_state m w in (a, (d, w')))"

definition this :: "facade running" where
  "this = State (\<lambda>(d, w). (d, (d, w)))"

definition assign :: "(facade \<Rightarrow> facade) \<Rightarrow> unit running" where
  "assign f = State (\<lambda>(d, w). ((), (f d, w)))"

definition andthen :: "'a run running \<Rightarrow> ('a \<Rightarrow> 'b run running) \<Rightarrow> 'b run running" where
  "andthen m f = do {
     r \<leftarrow> m;
     case r of
       Return a \<Rightarrow> f a
     | Exits c \<Rightarrow> ret (Exits c)
     | Aborts \<Rightarrow> ret Aborts
     | Throws e \<Rightarrow> ret (Throws e)
     | Crashes f \<Rightarrow> ret (Crashes f) }"

definition call :: "sys_call \<Rightarrow> int running" where "call c = on_os (sys c)"

definition call_text :: "sys_call \<Rightarrow> string option running" where "call_text c = on_os (sys_text c)"

definition on_context :: "(kernel_slots \<Rightarrow> kernel_slots) \<Rightarrow> unit running" where
  "on_context f = assign (\<lambda>d. d\<lparr>m_kernel_context := f (m_kernel_context d)\<rparr>)"

section \<open>Termination and signal handlers\<close>

definition chromatic_terminate :: "'a run os" where
  "chromatic_terminate = do {
     s \<leftarrow> sys_text (Getenv ''EF_DUMPCORE'');
     if s \<noteq> None \<and> c_str (the s) \<noteq> []
     then do { sys Abort; ret Aborts }
     else do { sys (Exit_Process EXIT_FAILURE); ret (Exits EXIT_FAILURE) } }"

definition LOG_USER :: int where "LOG_USER = 8"
definition LOG_ERR :: int where "LOG_ERR = 3"
definition LOG_INFO :: int where "LOG_INFO = 6"
definition LOG_PID :: int where "LOG_PID = 1"

definition sighup_handler :: "int \<Rightarrow> int" where
  \<comment> \<open>the new value of \<open>hup_received\<close>\<close>
  "sighup_handler hup_received = 1"

definition sigterm_handler :: "'a run os" where
  "sigterm_handler = do {
     sys (Openlog ''cci-daemon'' 0);
     sys (Syslog (LOG_USER + LOG_INFO) ''cci-daemon deactivated by sigterm....'');
     sys Closelog;
     sys (Exit_Process EXIT_SUCCESS);
     ret (Exits EXIT_SUCCESS) }"

definition sigsev_handler :: "unit os" where
  \<comment> \<open>its log pointer is always null, so it reports nothing and returns\<close>
  "sigsev_handler = do { sys (Backtrace 10); ret () }"

section \<open>Log\<close>

definition bt :: "unit running" where
  "bt = do {
     d \<leftarrow> this;
     if m_backtrace d then on_os (print_stacktrace (m_log_fp d) default_max_frames) else ret () }"

definition log_message :: "string \<Rightarrow> bool running" where
  "log_message msg = do {
     d \<leftarrow> this;
     let fp = m_log_fp d;
     b \<leftarrow> (if fp \<noteq> 0
        then do {
          loc \<leftarrow> call Localtime;
          stamp \<leftarrow> (if loc = 0 then ret None else call_text Strftime);
          (case stamp of
             None \<Rightarrow> call (Fprint fp ''???Unknown time????: '')
           | Some s \<Rightarrow> call (Fprint fp (s @ '': '')));
          call (Fprint fp (c_str msg));
          call (Fprint fp [LF]);
          ret True }
        else ret False);
     bt;
     ret b }"

definition open_log :: "bool run running" where
  "open_log = do {
     m \<leftarrow> call (Umask 63);
     a \<leftarrow> call (Access log_path R_W_OK);
     if a = -1
     then do {
       call (Stderr (''cannot access syslog..not enough permissions...are you root?'' @ [LF]));
       call (Exit_Process 1);
       ret (Exits 1) }
     else do {
       fp \<leftarrow> call (Fopen log_path ''a'');
       assign (\<lambda>d. d\<lparr>m_log_fp := fp\<rparr>);
       call (Umask m);
       if fp = 0 then ret (Crashes Null_Deref)
       else do { call (Setbuf fp); ret (Return True) } } }"

definition close_log :: "unit running" where
  \<comment> \<open>the pointer keeps its value\<close>
  "close_log = do {
     d \<leftarrow> this;
     if m_log_fp d \<noteq> 0 then do { call (Fclose (m_log_fp d)); ret () } else ret () }"

definition read_config_file :: "string \<Rightarrow> bool run running" where
  "read_config_file config_path = do {
     fp \<leftarrow> call (Fopen (c_str config_path) ''r'');
     if fp \<noteq> 0
     then do {
       line \<leftarrow> call_text (Fgets fp facade_buffer_size);
       let logged = (\<lambda>str. do {
           b \<leftarrow> log_message (''read config file: '' @ str @ [NUL]);
           call (Fclose fp);
           bt;
           ret (Return b) });
       case line of
         None \<Rightarrow> logged []
       | Some str \<Rightarrow>
           if c_str str = [] then ret (Crashes Buffer_Underflow) else logged (butlast (c_str str)) }
     else do { bt; ret (Return False) } }"

section \<open>The pid file\<close>

definition facade_lock_region :: "int \<Rightarrow> int \<Rightarrow> int \<Rightarrow> int \<Rightarrow> int \<Rightarrow> int running" where
  "facade_lock_region fd type whence start len = call (Fcntl_Setlk fd type whence start len)"

definition facade_pid_line :: "int \<Rightarrow> string" where
  "facade_pid_line pid = take (facade_buffer_size - 1) (decimal_int pid @ [LF])"

definition facade_set_cloexec :: "int \<Rightarrow> 32 word \<Rightarrow> string option running" where
  "facade_set_cloexec fd flags =
     (if has_flag flags facade_cpf_cloexec
      then do {
        fl \<leftarrow> call (Fcntl_Getfd fd);
        if fl = -1 then ret (Some ''could not get flags for pid file'')
        else do {
          r \<leftarrow> call (Fcntl_Setfd fd (with_cloexec fl));
          ret (if r = -1 then Some ''could not set flags for pid file'' else None) } }
      else ret None)"

definition facade_write_pid :: "string \<Rightarrow> 32 word \<Rightarrow> bool running" where
  "facade_write_pid pid_file flags = do {
     fd \<leftarrow> call (Open (c_str pid_file) O_RDWR_CREAT S_IRUSR_IWUSR);
     if fd = -1 then do { log_message ''could not write pid file....''; ret False }
     else do {
       err \<leftarrow> facade_set_cloexec fd flags;
       case err of
         Some e \<Rightarrow> do { log_message e; ret False }
       | None \<Rightarrow> do {
           lk \<leftarrow> facade_lock_region fd F_WRLCK SEEK_SET 0 0;
           b \<leftarrow> (if lk = -1
               then do {
                 en \<leftarrow> call Errno;
                 log_message (if en = EAGAIN \<or> en = EACCES
                   then ''pid file is locked; probably daemon is already running''
                   else ''unable to lock pid file'');
                 ret False }
               else do {
                 tr \<leftarrow> call (Ftruncate fd 0);
                 if tr = -1 then do { log_message ''could not truncate pid file''; ret False }
                 else ret True });
           b \<leftarrow> (if b
               then do {
                 log_message ''writing pid file....'';
                 pid \<leftarrow> call Getpid;
                 n \<leftarrow> call (Write fd (facade_pid_line pid));
                 if n \<noteq> int (length (facade_pid_line pid))
                 then do { log_message ''writing to pid file failed''; ret False }
                 else ret True }
               else ret False);
           bt;
           ret b } } }"

definition facade_remove_pid :: "string \<Rightarrow> bool running" where
  \<comment> \<open>True if \<open>std::remove\<close> failed\<close>
  "facade_remove_pid pid_file = do { bt; r \<leftarrow> call (Remove (c_str pid_file)); ret (r \<noteq> 0) }"

section \<open>The default procedure\<close>

definition sleep_time :: int where "sleep_time = 15"

definition exec_start :: "unit run running" where
  \<comment> \<open>everything before the loop\<close>
  "exec_start = do {
     d \<leftarrow> this;
     andthen
       (if \<not> m_b_opened d
        then andthen open_log (\<lambda>b. do {
          assign (\<lambda>d. d\<lparr>m_b_opened := b\<rparr>);
          if b
          then do {
            log_message ''cci_daemon.....using default module.....william k. johnson 2017'';
            andthen (read_config_file (m_str_conf d)) (\<lambda>_. do {
              call (Syslog (or (or LOG_USER LOG_INFO) LOG_PID)
                ''activating default cci-daemon procedure....'');
              ret (Return ()) }) }
          else ret (Return ()) })
        else ret (Return ()))
       (\<lambda>_. do {
          s \<leftarrow> call Sigaction_Hup;
          if s = -1 then on_os chromatic_terminate
          else do {
            t \<leftarrow> call Signal_Term;
            if t = -1 then on_os chromatic_terminate
            else do {
              p \<leftarrow> facade_write_pid (m_str_pid_path d) 0;
              (if \<not> p then log_message ''pid write failed'' else ret True);
              ret (Return ()) } } }) }"

definition reread_config :: "unit run running" where
  \<comment> \<open>the reaction to SIGHUP\<close>
  "reread_config = do {
     call (Openlog ''cci-daemon'' LOG_PID);
     call (Syslog (or LOG_USER LOG_INFO)
       ''cci-daemon received sighup....reading config....continuing'');
     call Closelog;
     call Clear_Hup_Flag;
     close_log;
     andthen open_log (\<lambda>_. do {
       d \<leftarrow> this;
       andthen (read_config_file (m_str_conf d)) (\<lambda>_. ret (Return ())) }) }"

definition exec_round :: "int \<Rightarrow> int run running" where
  \<comment> \<open>one iteration of the loop, from and to the value of \<open>unslept\<close>; SIGTERM is handled when
    it arrives while the process sleeps\<close>
  "exec_round unslept0 = do {
     unslept \<leftarrow> call (Sleep unslept0);
     t \<leftarrow> call Sigterm_Delivered;
     if t \<noteq> 0 then on_os sigterm_handler
     else do {
       d \<leftarrow> this;
       if \<not> m_b_opened d then ret (Return unslept)
       else do {
         hup_received \<leftarrow> call Read_Hup_Flag;
         andthen (if hup_received \<noteq> 0 then reread_config else ret (Return ())) (\<lambda>_.
           if unslept = 0
           then do { log_message ''working hard.....''; ret (Return sleep_time) }
           else ret (Return unslept)) } } }"

partial_function (option) exec_loop ::
    "int \<Rightarrow> facade \<times> world \<Rightarrow> (int run \<times> facade \<times> world) option" where
  "exec_loop unslept s =
     (case run_state (exec_round unslept) s of
        (Return unslept', s') \<Rightarrow> exec_loop unslept' s'
      | (Exits c, s') \<Rightarrow> Some (Exits c, s')
      | (Aborts, s') \<Rightarrow> Some (Aborts, s')
      | (Throws e, s') \<Rightarrow> Some (Throws e, s')
      | (Crashes f, s') \<Rightarrow> Some (Crashes f, s'))"

definition after_loop :: "int run running" where
  \<comment> \<open>the code behind the loop\<close>
  "after_loop = do { d \<leftarrow> this; facade_remove_pid (m_str_pid_path d); ret (Return 0) }"

definition daemon_default_exec ::
    "string \<Rightarrow> 64 word \<Rightarrow> facade \<times> world \<Rightarrow> (int run \<times> facade \<times> world) option" where
  "daemon_default_exec params dw_flags s =
     (case run_state (andthen exec_start (\<lambda>_. ret (Return sleep_time))) s of
        (Return unslept, s') \<Rightarrow>
          (case exec_loop unslept s' of
             Some (Return _, s'') \<Rightarrow> Some (run_state after_loop s'')
           | r \<Rightarrow> r)
      | (r, s') \<Rightarrow> Some (r, s'))"

section \<open>Libraries\<close>

definition load_lib :: "string \<Rightarrow> int run running" where
  "load_lib lib =
     (let path_with_extension = ''lib'' @ lib @ ''.so'' @ [NUL] in do {
        shared_object \<leftarrow> call (Dlopen (c_str path_with_extension));
        if shared_object = 0
        then do {
          err \<leftarrow> call_text Dlerror;
          ret (case err of
             None \<Rightarrow> Crashes Null_Deref
           | Some e \<Rightarrow> Throws (Runtime_Error (''could not load '' @ [CHR 0x27] @
               path_with_extension @ [CHR 0x27] @ ''...'' @ e))) }
        else do {
          call (Stderr (''...loaded library....'' @ path_with_extension @ ''...'' @ [LF]));
          ret (Return shared_object) } })"

definition function_pointer :: "int \<Rightarrow> string \<Rightarrow> int run running" where
  \<comment> \<open>\<open>get_function_pointer\<close> of cci_daemon_generic.h\<close>
  "function_pointer shared_handle function_name = do {
     call_text Dlerror;
     if shared_handle = 0 then ret (Crashes Assert_Failed)
     else do {
       addr \<leftarrow> call (Dlsym shared_handle function_name);
       err \<leftarrow> call_text Dlerror;
       ret (if err \<noteq> None then Throws (Runtime_Error ''could not find exported function'')
            else Return addr) } }"

definition library_call :: "string \<Rightarrow> unit run running" where
  \<comment> \<open>a call of a loaded function: the text of the exception it throws, if any\<close>
  "library_call name = do {
     e \<leftarrow> call_text (Library_Call name);
     case e of
       None \<Rightarrow> ret (Return ())
     | Some what \<Rightarrow> do {
         k \<leftarrow> call Exception_Kind;
         ret (Throws (if k = 0 then Runtime_Error what
           else if k = 1 then Std_Exception else Other_Exception)) } }"

definition throw :: "string \<Rightarrow> 'a run running" where
  "throw what = ret (Throws (Runtime_Error what))"

definition map_kernel :: "unit run running" where
  "map_kernel = do {
     d \<leftarrow> this;
     case lib_ref (m_kernel_context d) of
       None \<Rightarrow> ret (Crashes Uninit_Read)
     | Some h \<Rightarrow>
         if h = 0 then throw ''...kernel mapping failed...library reference invalid...''
         else do {
           on_context (\<lambda>c. c\<lparr>pm := Map.empty\<rparr>);
           andthen (function_pointer h ''make_kernel'') (\<lambda>mk. do {
             on_context (\<lambda>c. c\<lparr>make_kernel_address := Some mk\<rparr>);
             if mk = 0
             then throw ''...could not retrieve function addres=>:make_kernel...''
             else andthen (library_call ''make_kernel'') (\<lambda>_. do {
               r \<leftarrow> call Kernel_Ref;
               on_context (\<lambda>c. c\<lparr>kernel_ref := Some r\<rparr>);
               if r = 0 then throw ''...kernel object instantiation failed...''
               else do {
                 on_context (\<lambda>c. c\<lparr>pm := Map.empty\<rparr>);
                 andthen (function_pointer h ''unmake_kernel'') (\<lambda>uk. do {
                   on_context (\<lambda>c. c\<lparr>unmake_kernel_address := Some uk\<rparr>);
                   if uk = 0
                   then throw ''.....could not retrieve function addres=>...''
                   else do {
                     log_message ''...mapped_kernel....'';
                     ret (Return ()) } }) } }) }) } }"

section \<open>The coordinator\<close>

definition coordinator_log :: "unit run running" where
  \<comment> \<open>the first part of \<open>bootstrap_coordinator\<close>\<close>
  "coordinator_log = do {
     d \<leftarrow> this;
     let msg = ''cci_daemon.....bootstrapping default coordinator....william k. johnson 2017'';
     if m_b_opened d then ret (Return ())
     else andthen open_log (\<lambda>b. do {
       assign (\<lambda>d. d\<lparr>m_b_opened := b\<rparr>);
       if b
       then do {
         log_message msg;
         andthen (read_config_file (m_str_conf d)) (\<lambda>_. do {
           d \<leftarrow> this;
           andthen
             (if \<not> m_b_opened d
              then andthen open_log (\<lambda>b. do { assign (\<lambda>d. d\<lparr>m_b_opened := b\<rparr>); ret (Return ()) })
              else ret (Return ()))
             (\<lambda>_. do { log_message msg; ret (Return ()) }) }) }
       else ret (Return ()) }) }"

definition bootstrap :: "int \<Rightarrow> string list \<Rightarrow> unit run running" where
  "bootstrap argc argv = do {
     d \<leftarrow> this;
     case bootstrap_function_address d of
       None \<Rightarrow> ret (Crashes Uninit_Read)
     | Some a \<Rightarrow>
         if a = 0 then ret (Crashes Null_Deref) else library_call ''bootstrap_default_coordinator'' }"

definition coordinator_body :: "unit run running" where
  \<comment> \<open>the try block of \<open>bootstrap_coordinator\<close>\<close>
  "coordinator_body = do {
     log_message ''...loading kernel'';
     andthen (load_lib ''cci_daemon_kernel'') (\<lambda>h. do {
       on_context (\<lambda>c. c\<lparr>lib_ref := Some h\<rparr>);
       if h = 0 then ret (Crashes Assert_Failed)
       else andthen map_kernel (\<lambda>_.
         andthen (load_lib ''cci_daemon_bootstrap'') (\<lambda>bootstrap_lib.
           if bootstrap_lib = 0 then ret (Crashes Assert_Failed)
           else andthen (function_pointer bootstrap_lib ''bootstrap_default_coordinator'') (\<lambda>a. do {
             assign (\<lambda>d. d\<lparr>bootstrap_function_address := Some a\<rparr>);
             if a = 0
             then do {
               log_message ''could not retrieve bootstrap function addresss'';
               ret (Return ()) }
             else do {
               log_message ''...bootstrapping cooordinator...'';
               d \<leftarrow> this;
               bootstrap (m_argc d) (m_argv d) } }))) }) }"

definition bootstrap_coordinator :: "unit run running" where
  "bootstrap_coordinator = andthen coordinator_log (\<lambda>_. do {
     r \<leftarrow> coordinator_body;
     case r of
       Throws (Runtime_Error what) \<Rightarrow> do {
         log_message (c_str what);
         call (Exit_Process 1);
         ret (Exits 1) }
     | _ \<Rightarrow> ret r })"

section \<open>Construction and destruction\<close>

definition facade_daemonize :: "facade \<times> world \<Rightarrow> (int run \<times> facade \<times> world) option" where
  "facade_daemonize s =
     (case daemonize (m_dw_flags (fst s)) (snd s) of
        None \<Rightarrow> None
      | Some (Value r, w) \<Rightarrow> Some (Return r, (fst s, w))
      | Some (Exited c, w) \<Rightarrow> Some (Exits c, (fst s, w)))"

definition facade_dtor :: "unit run running" where
  "facade_dtor = do {
     bt;
     d \<leftarrow> this;
     case kernel_ref (m_kernel_context d) of
       None \<Rightarrow> ret (Crashes Uninit_Read)
     | Some r \<Rightarrow>
         if r = 0 then ret (Return ())
         else (case unmake_kernel_address (m_kernel_context d) of
           None \<Rightarrow> ret (Crashes Uninit_Read)
         | Some a \<Rightarrow>
             if a = 0 then ret (Crashes Null_Deref)
             else do {
               u \<leftarrow> library_call ''unmake_kernel'';
               log_message (case u of Return _ \<Rightarrow> ''...kernel unloaded....''
                 | _ \<Rightarrow> ''...error in unloading kernel....'');
               ret (Return ()) }) }"

end
