(* ===== verification/Daemon_Main.thy ===== *)
theory Daemon_Main
  imports Facade
begin

text \<open>
  The program's main function, cci_daemon/src/core/cci_daemon_main.cpp, and its reading of
  the command line. The copy of the file in cci_daemon/src/dispatcher has the same text. An
  argument vector is the list of its strings; what main does to the process is a \<open>run\<close> that
  never is \<open>Return\<close>. The default procedure may run for ever, so the result is an option.
\<close>

section \<open>Command line\<close>

fun find_option :: "string \<Rightarrow> string list \<Rightarrow> string list" where
  \<comment> \<open>\<open>std::find\<close>: the rest of the vector from the first match\<close>
  "find_option option [] = []"
| "find_option option (a # argv) = (if a = option then a # argv else find_option option argv)"

definition get_cmd_option :: "string list \<Rightarrow> string \<Rightarrow> string option" where
  "get_cmd_option argv option =
     (case find_option option argv of
        [] \<Rightarrow> None
      | itr # rest \<Rightarrow> (case rest of [] \<Rightarrow> None | value # _ \<Rightarrow> Some value))"

definition cmd_option_exists :: "string list \<Rightarrow> string \<Rightarrow> bool" where
  "cmd_option_exists argv option \<longleftrightarrow> find_option option argv \<noteq> []"

section \<open>main\<close>

definition main_start :: "string list \<Rightarrow> bool run running" where
  \<comment> \<open>up to the decision whether to daemonize; a string made of a null pointer is a \<open>logic_error\<close>\<close>
  "main_start argv = do {
     assign (\<lambda>d. d\<lparr>m_backtrace := False\<rparr>);
     working_dir \<leftarrow> call_text Getcwd;
     case working_dir of
       None \<Rightarrow> ret (Throws Std_Exception)
     | Some dir \<Rightarrow> do {
         assign (\<lambda>d. d\<lparr>m_chroot_dir := dir\<rparr>);
         (if cmd_option_exists argv ''-a''
          then assign (\<lambda>d. d\<lparr>m_service_proc := sp_default_coordinator\<rparr>) else ret ());
         ret (Return (\<not> cmd_option_exists argv ''-t'')) } }"

definition main_daemonized :: "int \<Rightarrow> unit run running" where
  \<comment> \<open>what follows \<open>df->daemonize()\<close>; \<open>throw;\<close> without an exception calls the terminate handler\<close>
  "main_daemonized r =
     (if r = -1
      then do {
        call (Syslog (or LOG_USER LOG_ERR) ''error in cci-daemon start....'');
        on_os chromatic_terminate }
      else do {
        call (Openlog ''cci-daemon'' LOG_PID);
        call (Syslog LOG_USER ''daemonized cci-daemon-dispatcher....'');
        call Closelog;
        ret (Return ()) })"

definition main_daemonize :: "bool \<Rightarrow> facade \<times> world \<Rightarrow> (unit run \<times> facade \<times> world) option" where
  "main_daemonize background s =
     (if background
      then case facade_daemonize s of
        None \<Rightarrow> None
      | Some (r, s') \<Rightarrow> Some (run_state (andthen (ret r) main_daemonized) s')
      else Some (Return (), s))"

definition main_service :: "facade \<times> world \<Rightarrow> (unit run \<times> facade \<times> world) option" where
  "main_service s =
     (case m_service_proc (fst s) of
        sp_default_coordinator \<Rightarrow> Some (run_state bootstrap_coordinator s)
      | _ \<Rightarrow> (case daemon_default_exec ''cci-daemon-default'' 0 s of
            None \<Rightarrow> None
          | Some (r, s') \<Rightarrow> Some (run_state (andthen (ret r) (\<lambda>_. ret (Return ()))) s')))"

text \<open>
  The local variable \<open>df\<close>: \<open>delete\<close> ends the object but leaves the pointer as it is, and
  deleting what is already deleted is undefined.
\<close>

datatype df_ptr = Df_Null | Df_Live | Df_Freed

definition delete_df :: "df_ptr \<Rightarrow> unit run running" where
  \<comment> \<open>\<open>if( df ) { delete df; }\<close>\<close>
  "delete_df df =
     (case df of
        Df_Null \<Rightarrow> ret (Return ())
      | Df_Live \<Rightarrow> facade_dtor
      | Df_Freed \<Rightarrow> ret (Crashes Double_Free))"

primrec deleted_df :: "df_ptr \<Rightarrow> df_ptr" where
  \<comment> \<open>the pointer after \<open>if( df ) { delete df; }\<close>\<close>
  "deleted_df Df_Null = Df_Null"
| "deleted_df Df_Live = Df_Freed"
| "deleted_df Df_Freed = Df_Freed"

primrec caught_by_main :: "exception \<Rightarrow> bool" where
  \<comment> \<open>\<open>catch( std::exception err )\<close>\<close>
  "caught_by_main (Runtime_Error what) = True"
| "caught_by_main Std_Exception = True"
| "caught_by_main Other_Exception = False"

definition main_tail :: "df_ptr \<Rightarrow> unit run running" where
  \<comment> \<open>the code behind the catch block\<close>
  "main_tail df = andthen (delete_df df) (\<lambda>_. do {
     call (Exit_Process EXIT_SUCCESS);
     ret (Exits EXIT_SUCCESS) })"

definition main_end :: "df_ptr \<Rightarrow> unit run \<Rightarrow> unit run running" where
  \<comment> \<open>the catch block and what follows it; an exception that it does not catch goes to
    \<open>std::terminate\<close>, whose handler is still the default one, \<open>abort\<close>\<close>
  "main_end df r =
     (case r of
        Return _ \<Rightarrow> main_tail df
      | Throws e \<Rightarrow>
          if caught_by_main e then andthen (delete_df df) (\<lambda>_. main_tail (deleted_df df))
          else do { call Abort; ret Aborts }
      | _ \<Rightarrow> ret r)"

definition run_stages :: "(unit run \<times> facade \<times> world) option \<Rightarrow>
    (facade \<times> world \<Rightarrow> (unit run \<times> facade \<times> world) option) \<Rightarrow>
    (unit run \<times> facade \<times> world) option" where
  \<comment> \<open>go on with the next stage after a normal end\<close>
  "run_stages x f =
     (case x of Some (Return _, s) \<Rightarrow> f s | r \<Rightarrow> r)"

definition main_try :: "string list \<Rightarrow> world \<Rightarrow> (unit run \<times> facade \<times> world) option" where
  \<comment> \<open>the try block\<close>
  "main_try argv w =
     (case run_state (main_start argv) (new_facade (int (length argv)) argv, w) of
        (Return background, s) \<Rightarrow> run_stages (main_daemonize background s) main_service
      | (Exits c, s) \<Rightarrow> Some (Exits c, s)
      | (Aborts, s) \<Rightarrow> Some (Aborts, s)
      | (Throws e, s) \<Rightarrow> Some (Throws e, s)
      | (Crashes f, s) \<Rightarrow> Some (Crashes f, s))"

definition daemon_main :: "string list \<Rightarrow> world \<Rightarrow> (unit run \<times> facade \<times> world) option" where
  \<comment> \<open>once the facade has been made, \<open>df\<close> points to it\<close>
  "daemon_main argv w =
     (case main_try argv w of
        None \<Rightarrow> None
      | Some (r, s) \<Rightarrow> Some (run_state (main_end Df_Live r) s))"

end
