(* ===== verification/Facade_Properties.thy ===== *)
theory Facade_Properties
  imports Facade
begin

text \<open>
  Properties of the daemon's facade. The facts about its procedures are proved in a small
  calculus: \<open>ensures strict m Q\<close> says that the computation \<open>m\<close> only adds calls to the trace,
  never removes a file, and ends with a result in \<open>Q\<close>; if \<open>strict\<close> holds, the operating
  system may be assumed healthy. One proof so serves both the claims about any operating
  system and those about a healthy one.
\<close>

section \<open>Evaluation\<close>

lemma run_on_os [os_simps]:
  "run_state (on_os m) (d, w) = (fst (run_state m w), (d, snd (run_state m w)))"
  by (simp add: on_os_def split_beta)

lemma run_this [os_simps]: "run_state this (d, w) = (d, (d, w))"
  by (simp add: this_def)

lemma run_assign [os_simps]: "run_state (assign f) (d, w) = ((), (f d, w))"
  by (simp add: assign_def)

lemma run_call [os_simps]:
  "run_state (call c) (d, w) = (answer w (trace w) c, (d, w\<lparr>trace := trace w @ [c]\<rparr>))"
  by (simp add: call_def os_simps)

lemma run_call_text [os_simps]:
  "run_state (call_text c) (d, w) = (answer_text w (trace w) c, (d, w\<lparr>trace := trace w @ [c]\<rparr>))"
  by (simp add: call_text_def os_simps)

lemma run_on_context [os_simps]:
  "run_state (on_context f) (d, w) = ((), (d\<lparr>m_kernel_context := f (m_kernel_context d)\<rparr>, w))"
  by (simp add: on_context_def os_simps)

lemma run_andthen [os_simps]: "run_state (andthen m f) s =
    (case run_state m s of (r, s') \<Rightarrow>
       (case r of Return a \<Rightarrow> run_state (f a) s' | Exits c \<Rightarrow> (Exits c, s') | Aborts \<Rightarrow> (Aborts, s')
        | Throws e \<Rightarrow> (Throws e, s') | Crashes f \<Rightarrow> (Crashes f, s')))"
  by (simp add: andthen_def os_simps split_beta split: run.splits)

section \<open>The calculus\<close>

definition healthy :: "world \<Rightarrow> bool" where
  \<comment> \<open>the log file can be opened, signal handlers installed, no configuration line starts with
    NUL, and SIGTERM never arrives\<close>
  "healthy w \<longleftrightarrow> (\<forall>tr. answer w tr (Access log_path R_W_OK) \<noteq> -1 \<and>
     answer w tr (Fopen log_path ''a'') \<noteq> 0 \<and> answer w tr Sigaction_Hup \<noteq> -1 \<and>
     answer w tr Signal_Term \<noteq> -1 \<and> answer w tr Sigterm_Delivered = 0 \<and>
     (\<forall>fp n s. answer_text w tr (Fgets fp n) = Some s \<longrightarrow> c_str s \<noteq> []))"

definition keeps_files :: "sys_call \<Rightarrow> bool" where
  "keeps_files c \<longleftrightarrow> (\<forall>f. c \<noteq> Remove f)"

definition extends :: "world \<Rightarrow> world \<Rightarrow> bool" where
  "extends w w' \<longleftrightarrow> (\<exists>cs. w' = w\<lparr>trace := trace w @ cs\<rparr> \<and> list_all keeps_files cs)"

definition ensures :: "bool \<Rightarrow> 'a running \<Rightarrow> ('a \<Rightarrow> bool) \<Rightarrow> bool" where
  "ensures strict m Q \<longleftrightarrow> (\<forall>d w. (strict \<longrightarrow> healthy w) \<longrightarrow>
     extends w (snd (snd (run_state m (d, w)))) \<and> Q (fst (run_state m (d, w))))"

definition within :: "bool \<Rightarrow> 'a run \<Rightarrow> bool" where
  \<comment> \<open>a normal return, or without \<open>strict\<close> an end of the process; never an exception\<close>
  "within strict r \<longleftrightarrow> (\<exists>a. r = Return a) \<or>
     \<not> strict \<and> (r = Exits EXIT_SUCCESS \<or> r = Exits EXIT_FAILURE \<or> r = Aborts \<or> (\<exists>f. r = Crashes f))"

named_theorems ens "rules of the calculus"

lemma extends_refl [simp]: "extends w w"
  unfolding extends_def by (rule exI [of _ "[]"]) simp

lemma extends_call [simp]: "keeps_files c \<Longrightarrow> extends w (w\<lparr>trace := trace w @ [c]\<rparr>)"
  unfolding extends_def by (rule exI [of _ "[c]"]) simp

lemma extends_calls [simp]: "list_all keeps_files cs \<Longrightarrow> extends w (w\<lparr>trace := trace w @ cs\<rparr>)"
  unfolding extends_def by blast

lemma extends_trans: "extends u v \<Longrightarrow> extends v w \<Longrightarrow> extends u w"
proof -
  assume "extends u v" "extends v w"
  then obtain cs ds where "v = u\<lparr>trace := trace u @ cs\<rparr>" "w = v\<lparr>trace := trace v @ ds\<rparr>"
    "list_all keeps_files cs" "list_all keeps_files ds" unfolding extends_def by blast
  then show ?thesis unfolding extends_def by (intro exI [of _ "cs @ ds"]) simp
qed

lemma extends_healthy: "extends w w' \<Longrightarrow> healthy w' = healthy w"
  by (auto simp: extends_def healthy_def)

lemma ensuresI:
  "(\<And>d w. (strict \<Longrightarrow> healthy w) \<Longrightarrow> extends w (snd (snd (run_state m (d, w)))) \<and>
     Q (fst (run_state m (d, w)))) \<Longrightarrow> ensures strict m Q"
  by (simp add: ensures_def)

lemma ensuresD: "ensures strict m Q \<Longrightarrow> (strict \<Longrightarrow> healthy w) \<Longrightarrow>
    extends w (snd (snd (run_state m (d, w)))) \<and> Q (fst (run_state m (d, w)))"
  by (simp add: ensures_def)

lemma ensures_mono: "ensures strict m Q \<Longrightarrow> (\<And>a. Q a \<Longrightarrow> Q' a) \<Longrightarrow> ensures strict m Q'"
  by (simp add: ensures_def)

lemma ensures_ret [ens]: "Q a \<Longrightarrow> ensures strict (ret a) Q"
  by (rule ensuresI) (simp add: os_simps)

lemma ensures_this: "(\<And>d. Q d) \<Longrightarrow> ensures strict this Q"
  by (rule ensuresI) (simp add: os_simps)

lemma ensures_assign: "Q () \<Longrightarrow> ensures strict (assign f) Q"
  by (rule ensuresI) (simp add: os_simps)

lemma ensures_call: "keeps_files c \<Longrightarrow>
    (\<And>w. (strict \<Longrightarrow> healthy w) \<Longrightarrow> Q (answer w (trace w) c)) \<Longrightarrow> ensures strict (call c) Q"
  by (rule ensuresI) (simp add: os_simps)

lemma ensures_call_text: "keeps_files c \<Longrightarrow>
    (\<And>w. (strict \<Longrightarrow> healthy w) \<Longrightarrow> Q (answer_text w (trace w) c)) \<Longrightarrow>
    ensures strict (call_text c) Q"
  by (rule ensuresI) (simp add: os_simps)

lemma ensures_bind:
  assumes "ensures strict m R" "\<And>a. R a \<Longrightarrow> ensures strict (f a) Q"
  shows "ensures strict (m \<bind> f) Q"
proof (rule ensuresI)
  fix d w
  assume h: "strict \<Longrightarrow> healthy w"
  obtain a d1 w1 where m: "run_state m (d, w) = (a, (d1, w1))" by (rule prod_cases3)
  have 1: "extends w w1" "R a" using ensuresD [OF assms(1) h] m by (metis fst_conv snd_conv)+
  then have "extends w1 (snd (snd (run_state (f a) (d1, w1)))) \<and> Q (fst (run_state (f a) (d1, w1)))"
    using h extends_healthy [OF 1(1)] by (intro ensuresD [OF assms(2)]) simp_all
  with 1 m show "extends w (snd (snd (run_state (m \<bind> f) (d, w)))) \<and>
      Q (fst (run_state (m \<bind> f) (d, w)))"
    by (simp add: os_simps) (blast intro: extends_trans)
qed

lemma ensures_andthen:
  assumes "ensures strict m (\<lambda>r. (\<exists>a. r = Return a \<and> R a) \<or> (\<forall>a. r \<noteq> Return a) \<and> within strict r)"
    and "\<And>a. R a \<Longrightarrow> ensures strict (f a) (within strict)"
  shows "ensures strict (andthen m f) (within strict)"
  unfolding andthen_def
  by (rule ensures_bind [OF assms(1)])
    (auto intro!: ensures_ret assms(2) simp: within_def split: run.splits)

lemma ensures_seq [ens]:
  "ensures strict m (within strict) \<Longrightarrow> (\<And>a. ensures strict (f a) (within strict)) \<Longrightarrow>
   ensures strict (andthen m f) (within strict)"
  by (rule ensures_andthen [where R = "\<lambda>_. True"])
    (auto elim!: ensures_mono simp: within_def)

text \<open>Statements whose result does not matter.\<close>

lemma ensures_then [ens]:
  "ensures strict m (\<lambda>_. True) \<Longrightarrow> (\<And>a. ensures strict (f a) Q) \<Longrightarrow> ensures strict (m \<bind> f) Q"
  by (rule ensures_bind)

lemma ensures_any [ens]:
  "ensures strict this (\<lambda>_. True)" "ensures strict (assign g) (\<lambda>_. True)"
  "keeps_files c \<Longrightarrow> ensures strict (call c) (\<lambda>_. True)"
  "keeps_files c \<Longrightarrow> ensures strict (call_text c) (\<lambda>_. True)"
  by (auto intro: ensures_this ensures_assign ensures_call ensures_call_text)

lemma ensures_if [ens]: "(b \<Longrightarrow> ensures strict m Q) \<Longrightarrow> (\<not> b \<Longrightarrow> ensures strict n Q) \<Longrightarrow>
    ensures strict (if b then m else n) Q"
  by simp

lemma ensures_option [ens]: "(x = None \<Longrightarrow> ensures strict m Q) \<Longrightarrow>
    (\<And>a. x = Some a \<Longrightarrow> ensures strict (f a) Q) \<Longrightarrow>
    ensures strict (case x of None \<Rightarrow> m | Some a \<Rightarrow> f a) Q"
  by (cases x) auto

section \<open>The operations in the calculus\<close>

definition os_keeps :: "'a os \<Rightarrow> bool" where
  "os_keeps m \<longleftrightarrow> (\<forall>w. extends w (snd (run_state m w)))"

lemma os_keeps_ret [ens]: "os_keeps (ret a)"
  by (simp add: os_keeps_def os_simps)

lemma os_keeps_sys [ens]: "keeps_files c \<Longrightarrow> os_keeps (sys c)" "keeps_files c \<Longrightarrow> os_keeps (sys_text c)"
  by (simp_all add: os_keeps_def os_simps)

lemma os_keeps_bind [ens]: "os_keeps m \<Longrightarrow> (\<And>a. os_keeps (f a)) \<Longrightarrow> os_keeps (m \<bind> f)"
  unfolding os_keeps_def by (auto simp: os_simps split_beta intro: extends_trans)

lemma os_keeps_cases [ens]:
  "os_keeps m \<Longrightarrow> os_keeps n \<Longrightarrow> os_keeps (if b then m else n)"
  "os_keeps m \<Longrightarrow> (\<And>a. os_keeps (f a)) \<Longrightarrow> os_keeps (case x of None \<Rightarrow> m | Some a \<Rightarrow> f a)"
  "(\<And>a b. os_keeps (g a b)) \<Longrightarrow> os_keeps (case z of (a, b) \<Rightarrow> g a b)"
  by (auto split: option.splits prod.splits)

lemma keeps_files_calls [ens, simp]:
  "keeps_files (Fprint fp s)" "keeps_files Localtime" "keeps_files Strftime"
  "keeps_files (Backtrace n)" "keeps_files (Backtrace_Symbol n)" "keeps_files (Demangle s)"
  "keeps_files (Umask m)" "keeps_files (Access s m)" "keeps_files (Stderr s)"
  "keeps_files (Exit_Process m)" "keeps_files Abort" "keeps_files (Getenv s)"
  "keeps_files (Fopen s u)" "keeps_files (Setbuf m)" "keeps_files (Fclose m)"
  "keeps_files (Fgets m n)" "keeps_files (Open s m k)" "keeps_files (Fcntl_Getfd m)"
  "keeps_files (Fcntl_Setfd m k)" "keeps_files (Fcntl_Setlk m a b c e)"
  "keeps_files Errno" "keeps_files (Ftruncate m k)" "keeps_files Getpid"
  "keeps_files (Write m s)" "keeps_files (Openlog s m)" "keeps_files (Syslog m s)"
  "keeps_files Closelog" "keeps_files Sigaction_Hup" "keeps_files Signal_Term"
  "keeps_files (Sleep m)" "keeps_files Sigterm_Delivered" "keeps_files Read_Hup_Flag"
  "keeps_files Clear_Hup_Flag"
  by (simp_all add: keeps_files_def)

lemma os_keeps_print_frames: "os_keeps (print_frames out is)"
proof (induction "is")
  case Nil
  show ?case unfolding print_frames.simps by (intro ens)
next
  case (Cons i "is")
  have "os_keeps (print_frame out i)"
    unfolding print_frame_def Let_def by (intro ens)
  with Cons show ?case unfolding print_frames.simps by (intro ens)
qed

lemma os_keeps_print_stacktrace [ens]: "os_keeps (print_stacktrace out n)"
  unfolding print_stacktrace_def by (intro ens os_keeps_print_frames)

lemma ensures_on_os [ens]: "os_keeps m \<Longrightarrow> ensures strict (on_os m) (\<lambda>_. True)"
  by (rule ensuresI) (simp add: os_simps os_keeps_def)

lemma ensures_bt [ens]: "ensures strict bt (\<lambda>_. True)"
  unfolding bt_def by (intro ens TrueI)

lemma within_simps [ens, simp]: "within strict (Return a)" "\<not> strict \<Longrightarrow> within strict (Exits EXIT_SUCCESS)"
  "\<not> strict \<Longrightarrow> within strict (Exits EXIT_FAILURE)" "\<not> strict \<Longrightarrow> within strict Aborts"
  "\<not> strict \<Longrightarrow> within strict (Crashes f)" "\<not> strict \<Longrightarrow> within strict (Exits 1)"
  by (simp_all add: within_def EXIT_FAILURE_def)

text \<open>The calls whose answers a healthy system promises.\<close>

lemma ensures_access: "(\<And>x. (strict \<longrightarrow> x \<noteq> -1) \<Longrightarrow> ensures strict (f x) Q) \<Longrightarrow>
    ensures strict (call (Access log_path R_W_OK) \<bind> f) Q"
  by (rule ensures_bind [OF ensures_call, where R = "\<lambda>x. strict \<longrightarrow> x \<noteq> -1"])
    (auto simp: healthy_def)

lemma ensures_fopen: "(\<And>x. (strict \<longrightarrow> x \<noteq> 0) \<Longrightarrow> ensures strict (f x) Q) \<Longrightarrow>
    ensures strict (call (Fopen log_path ''a'') \<bind> f) Q"
  by (rule ensures_bind [OF ensures_call, where R = "\<lambda>x. strict \<longrightarrow> x \<noteq> 0"])
    (auto simp: healthy_def)

lemma ensures_sigaction: "(\<And>x. (strict \<longrightarrow> x \<noteq> -1) \<Longrightarrow> ensures strict (f x) Q) \<Longrightarrow>
    ensures strict (call Sigaction_Hup \<bind> f) Q"
  by (rule ensures_bind [OF ensures_call, where R = "\<lambda>x. strict \<longrightarrow> x \<noteq> -1"])
    (auto simp: healthy_def)

lemma ensures_signal: "(\<And>x. (strict \<longrightarrow> x \<noteq> -1) \<Longrightarrow> ensures strict (f x) Q) \<Longrightarrow>
    ensures strict (call Signal_Term \<bind> f) Q"
  by (rule ensures_bind [OF ensures_call, where R = "\<lambda>x. strict \<longrightarrow> x \<noteq> -1"])
    (auto simp: healthy_def)

lemma ensures_no_sigterm: "(\<And>x. (strict \<longrightarrow> x = 0) \<Longrightarrow> ensures strict (f x) Q) \<Longrightarrow>
    ensures strict (call Sigterm_Delivered \<bind> f) Q"
  by (rule ensures_bind [OF ensures_call, where R = "\<lambda>x. strict \<longrightarrow> x = 0"])
    (auto simp: healthy_def)

lemma ensures_fgets: "(\<And>x. (strict \<longrightarrow> (\<forall>s. x = Some s \<longrightarrow> c_str s \<noteq> [])) \<Longrightarrow> ensures strict (f x) Q) \<Longrightarrow>
    ensures strict (call_text (Fgets fp n) \<bind> f) Q"
  by (rule ensures_bind [OF ensures_call_text, where R = "\<lambda>x. strict \<longrightarrow> (\<forall>s. x = Some s \<longrightarrow> c_str s \<noteq> [])"])
    (auto simp: healthy_def)

lemmas ensures_promised = ensures_access ensures_fopen ensures_sigaction ensures_signal
  ensures_no_sigterm ensures_fgets

lemma ensures_log_message [ens]: "ensures strict (log_message msg) (\<lambda>_. True)"
  unfolding log_message_def Let_def by (intro ens TrueI)

lemma ensures_open_log [ens]: "ensures strict open_log (within strict)"
  unfolding open_log_def
  by (rule ensures_then, intro ens, rule ensures_promised, rule ensures_if, intro ens, blast,
      rule ensures_promised, rule ensures_then, intro ens, rule ensures_then, intro ens,
      rule ensures_if, intro ens, blast, intro ens)

lemma ensures_close_log [ens]: "ensures strict close_log (\<lambda>_. True)"
  unfolding close_log_def by (intro ens TrueI)

lemma ensures_read_config_file [ens]: "ensures strict (read_config_file p) (within strict)"
  unfolding read_config_file_def Let_def
  by (rule ensures_then, intro ens, rule ensures_if, rule ensures_promised, rule ensures_option,
      (intro ens)[1], rule ensures_if, intro ens, blast, (intro ens)+)

lemma ensures_facade_write_pid [ens]: "ensures strict (facade_write_pid p flags) (\<lambda>_. True)"
  unfolding facade_write_pid_def facade_set_cloexec_def facade_lock_region_def
  by (intro ens TrueI)

lemma ensures_terminate: "ensures False (on_os chromatic_terminate) (within False)"
  by (rule ensuresI) (simp add: os_simps chromatic_terminate_def Let_def split_beta)

lemma ensures_terminate_if [ens]: "\<not> strict \<Longrightarrow> ensures strict (on_os chromatic_terminate) (within strict)"
  using ensures_terminate by simp

lemma ensures_sigterm [ens]: "\<not> strict \<Longrightarrow> ensures strict (on_os sigterm_handler) (within strict)"
  by (rule ensuresI) (simp add: os_simps sigterm_handler_def within_def)

lemma ensures_exec_start: "ensures strict exec_start (within strict)"
  unfolding exec_start_def
  by (rule ensures_then, intro ens, rule ensures_seq, (intro ens)[1], rule ensures_promised,
      rule ensures_if, intro ens, blast, rule ensures_promised, rule ensures_if, intro ens, blast,
      intro ens TrueI)

lemma ensures_reread_config [ens]: "ensures strict reread_config (within strict)"
  unfolding reread_config_def by (intro ens)

lemma ensures_exec_round: "ensures strict (exec_round u) (within strict)"
  unfolding exec_round_def
  by (rule ensures_then, intro ens, rule ensures_promised, rule ensures_if, intro ens, blast,
      intro ens)

section \<open>The default procedure\<close>

lemma exec_loop_ends:
  assumes "exec_loop u s = Some (r, s')" and "strict \<longrightarrow> healthy (snd s)"
  shows "within strict r \<and> (\<forall>a. r \<noteq> Return a) \<and> extends (snd s) (snd s')"
proof -
  have "(strict \<longrightarrow> healthy (snd s)) \<longrightarrow> within strict (fst x) \<and> (\<forall>a. fst x \<noteq> Return a) \<and>
      extends (snd s) (snd (snd x))" if "exec_loop u s = Some x" for u s x
  proof (rule exec_loop.raw_induct [where P = "\<lambda>u s x. (strict \<longrightarrow> healthy (snd s)) \<longrightarrow>
      within strict (fst x) \<and> (\<forall>a. fst x \<noteq> Return a) \<and> extends (snd s) (snd (snd x))", OF _ that],
      goal_cases)
    case (1 loop u s x)
    show ?case
    proof
      assume h: "strict \<longrightarrow> healthy (snd s)"
      obtain q s1 where r: "run_state (exec_round u) s = (q, s1)" by (rule prod.exhaust)
      have e: "extends (snd s) (snd s1)" "within strict q"
        using ensuresD [OF ensures_exec_round [of strict u], of "snd s" "fst s"] h r by simp_all
      show "within strict (fst x) \<and> (\<forall>a. fst x \<noteq> Return a) \<and> extends (snd s) (snd (snd x))"
      proof (cases q)
        case (Return u')
        with 1(2) r have "loop u' s1 = Some x" by simp
        from 1(1) [OF this] h extends_healthy [OF e(1)] extends_trans [OF e(1)] show ?thesis
          by blast
      qed (use 1(2) r e in auto)
    qed
  qed
  from this [OF assms(1)] assms(2) show ?thesis by simp
qed

lemma default_exec_cases:
  assumes "daemon_default_exec params flags s = Some (r, s')" and "strict \<longrightarrow> healthy (snd s)"
  shows "within strict r \<and> (\<forall>a. r \<noteq> Return a) \<and> extends (snd s) (snd s')"
proof -
  let ?m = "andthen exec_start (\<lambda>_. ret (Return sleep_time))"
  have m: "ensures strict ?m (within strict)" by (intro ens ensures_exec_start)
  obtain q s1 where q: "run_state ?m s = (q, s1)" by (rule prod.exhaust)
  have e: "extends (snd s) (snd s1)" "within strict q"
    using ensuresD [OF m, of "snd s" "fst s"] assms(2) q by simp_all
  show ?thesis
  proof (cases q)
    case (Return u)
    have l: "within strict r' \<and> (\<forall>a. r' \<noteq> Return a) \<and> extends (snd s1) (snd s2)"
      if "exec_loop u s1 = Some (r', s2)" for r' s2
      using exec_loop_ends [OF that] assms(2) extends_healthy [OF e(1)] by simp
    from assms(1) q Return have "exec_loop u s1 = Some (r, s')"
      by (auto simp: daemon_default_exec_def split: option.splits run.splits dest: l)
    with l extends_trans [OF e(1)] show ?thesis by blast
  qed (use assms(1) q e in \<open>auto simp: daemon_default_exec_def\<close>)
qed

text \<open>
  C19. The default procedure never returns: if it ends, then by \<open>exit\<close> with status 0 or 1, by
  \<open>abort\<close> or in undefined behaviour, whatever the operating system does; and it has removed
  no file by then, so the pid file outlives it, although the code has a call to remove it.
\<close>
theorem default_exec_never_returns:
  assumes "daemon_default_exec params flags (d, w) = Some (r, (d', w'))"
  shows "(r \<in> {Exits EXIT_SUCCESS, Exits EXIT_FAILURE, Aborts} \<or> (\<exists>f. r = Crashes f)) \<and>
    (\<exists>cs. trace w' = trace w @ cs \<and> (\<forall>f. Remove f \<notin> set cs))"
proof -
  have "within False r \<and> (\<forall>a. r \<noteq> Return a) \<and> extends w w'"
    using default_exec_cases [OF assms, of False] by simp
  then show ?thesis by (fastforce simp: within_def extends_def list_all_iff keeps_files_def)
qed

text \<open>
  C39. On a system where the log can be opened and signal handlers installed, the default
  procedure runs for ever as long as SIGTERM does not arrive, whatever happens to the pid
  file and however often SIGHUP makes it read its configuration again.
\<close>
theorem default_exec_runs_forever:
  assumes "healthy w"
  shows "daemon_default_exec params flags (d, w) = None"
proof (cases "daemon_default_exec params flags (d, w)")
  case (Some x)
  then have "within True (fst x) \<and> (\<forall>a. fst x \<noteq> Return a)"
    using default_exec_cases [of params flags "(d, w)" "fst x" "snd x" True] assms by simp
  then show ?thesis by (auto simp: within_def)
qed simp

section \<open>A healthy system, and one on which SIGTERM arrives\<close>

definition calm_world :: world where
  "calm_world = \<lparr>answer = (\<lambda>tr c. if c = Sigterm_Delivered then 0 else 3),
     answer_text = (\<lambda>tr c. None), trace = []\<rparr>"

definition term_world :: world where
  "term_world = \<lparr>answer = (\<lambda>tr c. case c of Localtime \<Rightarrow> 0 | Open _ _ _ \<Rightarrow> -1 | _ \<Rightarrow> 3),
     answer_text = (\<lambda>tr c. None), trace = []\<rparr>"

lemmas facade_eval = os_simps log_message_def bt_def open_log_def read_config_file_def
  close_log_def facade_write_pid_def facade_set_cloexec_def facade_lock_region_def
  sigterm_handler_def new_facade_def Let_def

theorem default_exec_runs_forever_witness:
  "daemon_default_exec ''cci-daemon-default'' 0 (new_facade 0 [], calm_world) = None"
  by (rule default_exec_runs_forever) (simp add: healthy_def calm_world_def)

lemma term_world_ends: "\<exists>s. daemon_default_exec ''cci-daemon-default'' 0 (new_facade 0 [], term_world) =
    Some (Exits EXIT_SUCCESS, s)"
proof -
  obtain d w where 1: "run_state (andthen exec_start (\<lambda>_. ret (Return sleep_time)))
      (new_facade 0 [], term_world) = (Return sleep_time, (d, w))"
    and "answer w = answer term_world"
    by (simp add: exec_start_def facade_eval term_world_def has_flag_def)
  then have "\<exists>s. run_state (exec_round sleep_time) (d, w) = (Exits EXIT_SUCCESS, s)"
    by (simp add: exec_round_def facade_eval term_world_def)
  then obtain s where "run_state (exec_round sleep_time) (d, w) = (Exits EXIT_SUCCESS, s)" by blast
  then have "exec_loop sleep_time (d, w) = Some (Exits EXIT_SUCCESS, s)"
    by (subst exec_loop.simps) simp
  with 1 show ?thesis by (simp add: daemon_default_exec_def)
qed

theorem default_exec_never_returns_witness:
  "\<exists>d w. daemon_default_exec ''cci-daemon-default'' 0 (new_facade 0 [], term_world) =
      Some (Exits EXIT_SUCCESS, (d, w)) \<and> Remove facade_path_pid \<notin> set (trace w)"
proof -
  obtain d w where e: "daemon_default_exec ''cci-daemon-default'' 0 (new_facade 0 [], term_world) =
      Some (Exits EXIT_SUCCESS, (d, w))" using term_world_ends by auto
  from default_exec_never_returns [OF e] e show ?thesis by (auto simp: term_world_def)
qed

section \<open>The configuration file\<close>

definition printed :: "int \<Rightarrow> sys_call list \<Rightarrow> string" where
  \<comment> \<open>what the calls write to a file\<close>
  "printed fp cs = concat (map (\<lambda>c. case c of Fprint f s \<Rightarrow> if f = fp then s else [] | _ \<Rightarrow> []) cs)"

lemma printed_simps [simp]: "printed fp (cs @ ds) = printed fp cs @ printed fp ds"
  "printed fp [] = []" "printed fp (Fprint fp s # cs) = s @ printed fp cs"
  "printed fp (Fopen a b # cs) = printed fp cs" "printed fp (Fgets g n # cs) = printed fp cs"
  "printed fp (Fclose g # cs) = printed fp cs" "printed fp (Localtime # cs) = printed fp cs"
  "printed fp (Strftime # cs) = printed fp cs"
  by (simp_all add: printed_def)

lemma log_message_run:
  assumes "\<not> m_backtrace d" "m_log_fp d \<noteq> 0"
  shows "\<exists>cs stamp. run_state (log_message msg) (d, w) = (True, (d, w\<lparr>trace := trace w @ cs\<rparr>)) \<and>
    printed (m_log_fp d) cs = stamp @ c_str msg @ [LF]"
proof -
  let ?loc = "answer w (trace w) Localtime"
  let ?stamp = "answer_text w (trace w @ [Localtime]) Strftime"
  let ?unknown = "''???Unknown time????: ''"
  consider "?loc = 0" | "?loc \<noteq> 0" "?stamp = None" | s where "?loc \<noteq> 0" "?stamp = Some s" by blast
  then show ?thesis
  proof cases
    case 1
    with assms show ?thesis
      by (intro exI [of _ "[Localtime, Fprint (m_log_fp d) ?unknown, Fprint (m_log_fp d) (c_str msg),
          Fprint (m_log_fp d) [LF]]"]) (simp add: log_message_def bt_def os_simps Let_def)
  next
    case 2
    with assms show ?thesis
      by (intro exI [of _ "[Localtime, Strftime, Fprint (m_log_fp d) ?unknown,
          Fprint (m_log_fp d) (c_str msg), Fprint (m_log_fp d) [LF]]"])
        (simp add: log_message_def bt_def os_simps Let_def)
  next
    case 3
    with assms show ?thesis
      by (intro exI [of _ "[Localtime, Strftime, Fprint (m_log_fp d) (s @ '': ''),
          Fprint (m_log_fp d) (c_str msg), Fprint (m_log_fp d) [LF]]"])
        (simp add: log_message_def bt_def os_simps Let_def)
  qed
qed

lemma read_config_run:
  assumes "\<not> m_backtrace d" "m_log_fp d \<noteq> 0" "answer w (trace w) (Fopen (c_str p) ''r'') \<noteq> 0"
    and "answer_text w (trace w @ [Fopen (c_str p) ''r''])
      (Fgets (answer w (trace w) (Fopen (c_str p) ''r'')) facade_buffer_size) = Some s"
    and "c_str s \<noteq> []"
  shows "\<exists>cs stamp. run_state (read_config_file p) (d, w) =
      (Return True, (d, w\<lparr>trace := trace w @ cs\<rparr>)) \<and>
    printed (m_log_fp d) cs = stamp @ ''read config file: '' @ butlast (c_str s) @ [LF]"
proof -
  let ?fp = "answer w (trace w) (Fopen (c_str p) ''r'')"
  let ?w = "w\<lparr>trace := trace w @ [Fopen (c_str p) ''r'', Fgets ?fp facade_buffer_size]\<rparr>"
  let ?msg = "''read config file: '' @ butlast (c_str s) @ [NUL]"
  have "no_nul (''read config file: '' @ butlast (c_str s))"
    by (auto simp: no_nul_def c_str_def NUL_def dest: in_set_butlastD set_takeWhileD)
  then have m: "c_str ?msg = ''read config file: '' @ butlast (c_str s)"
    using c_str_append_nul [of "''read config file: '' @ butlast (c_str s)" "[]"]
    by (simp only: append_assoc)
  obtain cs stamp where l: "run_state (log_message ?msg) (d, ?w) =
      (True, (d, ?w\<lparr>trace := trace ?w @ cs\<rparr>))"
    "printed (m_log_fp d) cs = stamp @ c_str ?msg @ [LF]"
    using log_message_run [OF assms(1,2)] by blast
  have "run_state (read_config_file p) (d, w) = (Return True, (d, w\<lparr>trace := trace w @
      [Fopen (c_str p) ''r'', Fgets ?fp facade_buffer_size] @ cs @ [Fclose ?fp]\<rparr>))"
    using assms l(1) by (simp add: read_config_file_def os_simps Let_def bt_def)
  moreover have "printed (m_log_fp d) ([Fopen (c_str p) ''r'', Fgets ?fp facade_buffer_size] @
      cs @ [Fclose ?fp]) = stamp @ ''read config file: '' @ butlast (c_str s) @ [LF]"
    by (simp add: l(2) [unfolded m])
  ultimately show ?thesis by blast
qed

text \<open>
  What is logged of the configuration file is its first line without the last byte that
  was read: the whole line if the line is terminated, all but its last character if the file
  ends without a line feed. A first line that begins with NUL makes the code write before
  the beginning of its buffer.
\<close>
theorem config_line_logged:
  assumes "\<not> m_backtrace d" "m_log_fp d \<noteq> 0"
    and fp: "answer w (trace w) (Fopen (c_str p) ''r'') = fp" "fp \<noteq> 0"
    and read: "answer_text w (trace w @ [Fopen (c_str p) ''r'']) (Fgets fp facade_buffer_size) = Some s"
    and "no_nul l" "l \<noteq> []"
  shows "(s = l @ [LF] \<longrightarrow> (\<exists>cs stamp. run_state (read_config_file p) (d, w) =
        (Return True, (d, w\<lparr>trace := trace w @ cs\<rparr>)) \<and>
        printed (m_log_fp d) cs = stamp @ ''read config file: '' @ l @ [LF])) \<and>
    (s = l \<longrightarrow> (\<exists>cs stamp. run_state (read_config_file p) (d, w) =
        (Return True, (d, w\<lparr>trace := trace w @ cs\<rparr>)) \<and>
        printed (m_log_fp d) cs = stamp @ ''read config file: '' @ butlast l @ [LF])) \<and>
    (hd s = NUL \<and> s \<noteq> [] \<longrightarrow> fst (run_state (read_config_file p) (d, w)) = Crashes Buffer_Underflow)"
proof (intro conjI impI)
  assume s: "s = l @ [LF]"
  with assms(6) have "c_str s = l @ [LF]" by (simp add: no_nul_def)
  with read_config_run [OF assms(1,2), of w p s] fp read
  show "\<exists>cs stamp. run_state (read_config_file p) (d, w) =
        (Return True, (d, w\<lparr>trace := trace w @ cs\<rparr>)) \<and>
        printed (m_log_fp d) cs = stamp @ ''read config file: '' @ l @ [LF]" by simp
next
  assume "s = l"
  with assms(6) have "c_str s = l" by simp
  with read_config_run [OF assms(1,2), of w p s] fp read assms(7)
  show "\<exists>cs stamp. run_state (read_config_file p) (d, w) =
        (Return True, (d, w\<lparr>trace := trace w @ cs\<rparr>)) \<and>
        printed (m_log_fp d) cs = stamp @ ''read config file: '' @ butlast l @ [LF]" by simp
next
  assume "hd s = NUL \<and> s \<noteq> []"
  then have "c_str s = []" by (cases s) (simp_all add: c_str_def)
  with fp read show "fst (run_state (read_config_file p) (d, w)) = Crashes Buffer_Underflow"
    by (simp add: read_config_file_def os_simps Let_def)
qed

definition config_world :: "string \<Rightarrow> world" where
  \<comment> \<open>every file opens, and reading gives this text\<close>
  "config_world s = \<lparr>answer = (\<lambda>tr c. case c of Localtime \<Rightarrow> 0 | _ \<Rightarrow> 3),
     answer_text = (\<lambda>tr c. case c of Fgets _ _ \<Rightarrow> Some s | _ \<Rightarrow> None), trace = []\<rparr>"

definition logging_facade :: facade where
  "logging_facade = (new_facade 0 [])\<lparr>m_log_fp := 7, m_b_opened := True\<rparr>"

theorem config_line_logged_witness:
  "(\<exists>cs stamp. run_state (read_config_file ''f'') (logging_facade, config_world ''port=1'') =
      (Return True, (logging_facade, (config_world ''port=1'')\<lparr>trace := cs\<rparr>)) \<and>
      printed 7 cs = stamp @ ''read config file: port='' @ [LF]) \<and>
   (\<exists>cs stamp. run_state (read_config_file ''f'') (logging_facade, config_world (''port=1'' @ [LF])) =
      (Return True, (logging_facade, (config_world (''port=1'' @ [LF]))\<lparr>trace := cs\<rparr>)) \<and>
      printed 7 cs = stamp @ ''read config file: port=1'' @ [LF])"
proof -
  have l: "no_nul ''port=1''" by (simp add: no_nul_def NUL_def)
  have h: "\<not> m_backtrace logging_facade" "m_log_fp logging_facade = 7"
    by (simp_all add: logging_facade_def new_facade_def)
  show ?thesis
    using config_line_logged [where d = logging_facade and w = "config_world ''port=1''" and fp = 3
        and p = "''f''" and s = "''port=1''" and l = "''port=1''"]
      config_line_logged [where d = logging_facade and w = "config_world (''port=1'' @ [LF])" and fp = 3
        and p = "''f''" and s = "''port=1'' @ [LF]" and l = "''port=1''"] l h
    by (simp add: config_world_def)
qed

end
