(* ===== verification/Coordinator_Properties.thy ===== *)
theory Coordinator_Properties
  imports Daemon_Main Facade_Properties
begin

text \<open>
  The daemon as a coordinator, and the end of the program. \<open>leads P m R\<close> is partial
  correctness over the facade: if \<open>P\<close> holds of the object and \<open>m\<close> returns, \<open>R\<close> holds of the
  value and the object. It carries the fact that a bootstrap that returns has mapped the
  kernel, on which the destructor relies.
\<close>

section \<open>A calculus for the object\<close>

definition frame :: "'a running \<Rightarrow> bool" where
  "frame m \<longleftrightarrow> (\<forall>d w. fst (snd (run_state m (d, w))) = d)"

definition leads :: "(facade \<Rightarrow> bool) \<Rightarrow> 'a run running \<Rightarrow> ('a \<Rightarrow> facade \<Rightarrow> bool) \<Rightarrow> bool" where
  "leads P m R \<longleftrightarrow> (\<forall>d w a d' w'. P d \<longrightarrow> run_state m (d, w) = (Return a, (d', w')) \<longrightarrow> R a d')"

lemma leadsI: "(\<And>d w a d' w'. P d \<Longrightarrow> run_state m (d, w) = (Return a, (d', w')) \<Longrightarrow> R a d') \<Longrightarrow> leads P m R"
  unfolding leads_def by blast

lemma leadsD: "leads P m R \<Longrightarrow> P d \<Longrightarrow> run_state m (d, w) = (Return a, (d', w')) \<Longrightarrow> R a d'"
  unfolding leads_def by blast

named_theorems frames "computations that leave the object as it is"

lemma frame_basic [frames]: "frame (ret a)" "frame (call c)" "frame (call_text c)" "frame this"
  "frame (on_os m)"
  by (simp_all add: frame_def os_simps)

lemma frame_bind [frames]: "frame m \<Longrightarrow> (\<And>a. frame (f a)) \<Longrightarrow> frame (m \<bind> f)"
  by (simp add: frame_def os_simps split_beta) (metis prod.collapse)

lemma frame_cases [frames]:
  "frame m \<Longrightarrow> frame n \<Longrightarrow> frame (if b then m else n)"
  "frame m \<Longrightarrow> (\<And>a. frame (f a)) \<Longrightarrow> frame (case x of None \<Rightarrow> m | Some a \<Rightarrow> f a)"
  by (auto split: option.splits)

lemma frame_operations [frames]: "frame bt" "frame (log_message msg)" "frame (load_lib lib)"
  "frame (function_pointer h f)" "frame (library_call f)" "frame (read_config_file p)"
  unfolding bt_def log_message_def load_lib_def function_pointer_def library_call_def
    read_config_file_def Let_def by (intro frames)+

lemma leads_ret: "(\<And>d a. P d \<Longrightarrow> r = Return a \<Longrightarrow> R a d) \<Longrightarrow> leads P (ret r) R"
  by (simp add: leads_def os_simps)

lemma leads_bind_frame:
  assumes "frame m" "\<And>a. leads P (f a) Q"
  shows "leads P (m \<bind> f) Q"
proof (rule leadsI)
  fix d w b d2 w2
  assume P: "P d" and run: "run_state (m \<bind> f) (d, w) = (Return b, (d2, w2))"
  obtain a d1 w1 where m: "run_state m (d, w) = (a, (d1, w1))" by (rule prod_cases3)
  then have "d1 = d" using assms(1) unfolding frame_def by (metis fst_conv snd_conv)
  with m run have "run_state (f a) (d, w1) = (Return b, (d2, w2))" by (simp add: os_simps)
  with leadsD [OF assms(2) P] show "Q b d2" by blast
qed

lemma leads_bind_this: "(\<And>d. P d \<Longrightarrow> leads (\<lambda>d'. P d' \<and> d' = d) (f d) Q) \<Longrightarrow> leads P (this \<bind> f) Q"
  by (simp add: leads_def os_simps)

lemma leads_bind_assign: "leads P' (f ()) Q \<Longrightarrow> (\<And>d. P d \<Longrightarrow> P' (g d)) \<Longrightarrow> leads P (assign g \<bind> f) Q"
  by (simp add: leads_def os_simps) blast

lemma leads_andthen:
  assumes "leads P m R" "\<And>a. leads (R a) (f a) Q"
  shows "leads P (andthen m f) Q"
proof (rule leadsI)
  fix d w b d2 w2
  assume P: "P d" and run: "run_state (andthen m f) (d, w) = (Return b, (d2, w2))"
  obtain r d1 w1 where m: "run_state m (d, w) = (r, (d1, w1))" by (rule prod_cases3)
  with run obtain a where "r = Return a" "run_state (f a) (d1, w1) = (Return b, (d2, w2))"
    by (cases r) (simp_all add: os_simps)
  with leadsD [OF assms(1) P] m leadsD [OF assms(2)] show "Q b d2" by blast
qed

lemma leads_frame_any: "frame m \<Longrightarrow> leads P m (\<lambda>_. P)"
  by (rule leadsI) (metis frame_def fst_conv snd_conv)

lemma leads_mono: "leads P m R \<Longrightarrow> (\<And>d. P' d \<Longrightarrow> P d) \<Longrightarrow> (\<And>a d. R a d \<Longrightarrow> R' a d) \<Longrightarrow> leads P' m R'"
  by (rule leadsI) (blast dest: leadsD)

lemma leads_cases:
  "(b \<Longrightarrow> leads P m R) \<Longrightarrow> (\<not> b \<Longrightarrow> leads P n R) \<Longrightarrow> leads P (if b then m else n) R"
  "(x = None \<Longrightarrow> leads P m R) \<Longrightarrow> (\<And>a. x = Some a \<Longrightarrow> leads P (g a) R) \<Longrightarrow>
     leads P (case x of None \<Rightarrow> m | Some a \<Rightarrow> g a) R"
  by (auto split: option.splits)

lemma leads_stop: "(\<And>a. r \<noteq> Return a) \<Longrightarrow> leads P (ret r) R"
  by (rule leads_ret) blast

lemma leads_throw: "leads P (throw what) R"
  unfolding throw_def by (rule leads_stop) simp

section \<open>A mapped kernel\<close>

definition mapped :: "facade \<Rightarrow> bool" where
  "mapped d \<longleftrightarrow> (\<exists>r a. kernel_ref (m_kernel_context d) = Some r \<and> r \<noteq> 0 \<and>
     unmake_kernel_address (m_kernel_context d) = Some a \<and> a \<noteq> 0)"

lemma leads_bind_context: "leads P' (f ()) Q \<Longrightarrow>
    (\<And>d. P d \<Longrightarrow> P' (d\<lparr>m_kernel_context := g (m_kernel_context d)\<rparr>)) \<Longrightarrow>
    leads P (on_context g \<bind> f) Q"
  unfolding on_context_def by (rule leads_bind_assign)

abbreviation no_claim :: "facade \<Rightarrow> bool" where "no_claim \<equiv> \<lambda>_. True"

definition referenced :: "facade \<Rightarrow> bool" where
  "referenced d \<longleftrightarrow> (\<exists>r. kernel_ref (m_kernel_context d) = Some r \<and> r \<noteq> 0)"

lemma map_kernel_maps: "leads no_claim map_kernel (\<lambda>_. mapped)"
proof -
  have tail: "leads no_claim
      (on_context (\<lambda>c. c\<lparr>kernel_ref := Some r\<rparr>) \<bind> (\<lambda>_.
         if r = 0 then throw e
         else on_context (\<lambda>c. c\<lparr>pm := Map.empty\<rparr>) \<bind> (\<lambda>_.
           andthen (function_pointer h s) (\<lambda>uk.
             on_context (\<lambda>c. c\<lparr>unmake_kernel_address := Some uk\<rparr>) \<bind> (\<lambda>_.
               if uk = 0 then throw e'
               else log_message msg \<bind> (\<lambda>_. ret (Return ()))))))) (\<lambda>_. mapped)"
    (is "leads _ (_ \<bind> (\<lambda>_. if _ then _ else ?rest)) _") for r h e e' s msg
  proof (cases "r = 0")
    case True
    then show ?thesis by (auto intro: leads_bind_context [where P' = no_claim] leads_throw)
  next
    case False
    have "leads (\<lambda>d. kernel_ref (m_kernel_context d) = Some r) ?rest (\<lambda>_. mapped)"
    proof (rule leads_bind_context [where P' = "\<lambda>d. kernel_ref (m_kernel_context d) = Some r"],
        rule leads_andthen [OF leads_frame_any], rule frames, goal_cases)
      case (1 uk)
      show ?case
      proof (cases "uk = 0")
        case True
        then show ?thesis by (auto intro: leads_bind_context [where P' = no_claim] leads_throw)
      next
        case uk: False
        then show ?thesis using False
          by (simp, intro leads_bind_context [where P' = mapped])
            (auto intro!: leads_bind_frame frames leads_ret simp: mapped_def)
      qed
    qed simp
    then show ?thesis using False
      by (auto intro: leads_bind_context [where P' = "\<lambda>d. kernel_ref (m_kernel_context d) = Some r"])
  qed
  show ?thesis
    unfolding map_kernel_def
    by (rule leads_bind_this, rule leads_cases, rule leads_stop, simp, rule leads_cases,
        rule leads_throw, rule leads_bind_context [where P' = no_claim],
        rule leads_andthen [where R = "\<lambda>_. no_claim"], rule leads_frame_any, rule frames,
        rule leads_bind_context [where P' = no_claim], rule leads_cases, rule leads_throw,
        rule leads_andthen [where R = "\<lambda>_. no_claim"], rule leads_frame_any, rule frames,
        rule leads_bind_frame, rule frames, rule tail) simp_all
qed

lemma coordinator_body_maps: "leads no_claim coordinator_body (\<lambda>_. mapped)"
proof -
  have boot: "leads mapped (bootstrap argc argv) (\<lambda>_. mapped)" for argc argv
    unfolding bootstrap_def
    by (rule leads_bind_this, rule leads_cases, rule leads_stop, simp, rule leads_cases,
        rule leads_stop, simp, rule leads_mono [OF leads_frame_any], rule frames) auto
  show ?thesis
    unfolding coordinator_body_def
    by (rule leads_bind_frame, rule frames,
        rule leads_andthen [where R = "\<lambda>_. no_claim"], rule leads_frame_any, rule frames,
        rule leads_bind_context [where P' = no_claim], rule leads_cases, rule leads_stop, simp,
        rule leads_andthen [OF map_kernel_maps],
        rule leads_andthen [where R = "\<lambda>_. mapped"], rule leads_frame_any, rule frames,
        rule leads_cases, rule leads_stop, simp,
        rule leads_andthen [where R = "\<lambda>_. mapped"], rule leads_frame_any, rule frames,
        rule leads_bind_assign [where P' = mapped], rule leads_cases,
        rule leads_bind_frame, rule frames, rule leads_ret, simp,
        rule leads_bind_frame, rule frames, rule leads_bind_this,
        rule leads_mono [OF boot]) (auto simp: mapped_def)
qed

section \<open>The destructor\<close>

lemma dtor_cases:
  "fst (run_state facade_dtor s) \<in> {Return (), Crashes Uninit_Read, Crashes Null_Deref}"
  unfolding facade_dtor_def
  by (cases s) (simp add: os_simps split_beta split: option.splits)

lemma dtor_mapped:
  assumes "mapped d"
  shows "fst (run_state facade_dtor (d, w)) = Return ()"
proof -
  obtain u d1 w1 where b: "run_state bt (d, w) = (u, (d1, w1))" by (rule prod_cases3)
  then have "d1 = d" using frame_operations(1) unfolding frame_def by (metis fst_conv snd_conv)
  with b assms show ?thesis
    by (auto simp: facade_dtor_def os_simps split_beta mapped_def)
qed

lemma dtor_unmapped:
  assumes "kernel_ref (m_kernel_context d) = None"
  shows "fst (run_state facade_dtor (d, w)) = Crashes Uninit_Read"
proof -
  obtain u d1 w1 where b: "run_state bt (d, w) = (u, (d1, w1))" by (rule prod_cases3)
  then have "d1 = d" using frame_operations(1) unfolding frame_def by (metis fst_conv snd_conv)
  with b assms show ?thesis by (simp add: facade_dtor_def os_simps)
qed

text \<open>The destructor of a facade with a mapped kernel calls the library to delete it.\<close>

lemma dtor_unmakes:
  assumes "mapped d"
  shows "\<exists>cs. run_state facade_dtor (d, w) = (Return (), (d, w\<lparr>trace := trace w @ cs\<rparr>)) \<and>
    Library_Call ''unmake_kernel'' \<in> set cs"
proof -
  obtain u d1 w1 where b: "run_state bt (d, w) = (u, (d1, w1))" by (rule prod_cases3)
  then have d: "d1 = d" using frame_operations(1) unfolding frame_def by (metis fst_conv snd_conv)
  have "extends w w1" using ensuresD [OF ensures_bt [of False], of w d] b by simp
  then obtain cs where cs: "w1 = w\<lparr>trace := trace w @ cs\<rparr>" by (auto simp: extends_def)
  obtain q d2 w2 where l: "run_state (library_call ''unmake_kernel'') (d, w1) = (q, (d2, w2))"
    by (rule prod_cases3)
  then obtain ds where ds: "d2 = d" "w2 = w1\<lparr>trace := trace w1 @ Library_Call ''unmake_kernel'' # ds\<rparr>"
    by (auto simp: library_call_def os_simps split: option.splits)
  let ?msg = "case q of Return _ \<Rightarrow> ''...kernel unloaded....'' | _ \<Rightarrow> ''...error in unloading kernel....''"
  obtain v d3 w3 where m: "run_state (log_message ?msg) (d, w2) = (v, (d3, w3))" by (rule prod_cases3)
  then have "d3 = d" using frame_operations(2) unfolding frame_def by (metis fst_conv snd_conv)
  moreover have "extends w2 w3" using ensuresD [OF ensures_log_message [of False ?msg], of w2 d] m by simp
  then obtain es where "w3 = w2\<lparr>trace := trace w2 @ es\<rparr>" by (auto simp: extends_def)
  moreover have "run_state facade_dtor (d, w) = (Return (), (d3, w3))"
    using b d l ds m assms by (auto simp: facade_dtor_def os_simps mapped_def)
  ultimately show ?thesis
    using cs ds by (intro exI [of _ "cs @ Library_Call ''unmake_kernel'' # ds @ es"]) simp
qed

section \<open>A calculus for exceptions\<close>

definition raises :: "(facade \<Rightarrow> bool) \<Rightarrow> 'a run running \<Rightarrow> (exception \<Rightarrow> facade \<Rightarrow> bool) \<Rightarrow> bool" where
  \<comment> \<open>whatever \<open>m\<close> throws, started with \<open>P\<close>, leaves the object as \<open>E\<close> says\<close>
  "raises P m E \<longleftrightarrow> (\<forall>d w e d' w'. P d \<longrightarrow> run_state m (d, w) = (Throws e, (d', w')) \<longrightarrow> E e d')"

lemma raisesI: "(\<And>d w e d' w'. P d \<Longrightarrow> run_state m (d, w) = (Throws e, (d', w')) \<Longrightarrow> E e d') \<Longrightarrow> raises P m E"
  unfolding raises_def by blast

lemma raisesD: "raises P m E \<Longrightarrow> P d \<Longrightarrow> run_state m (d, w) = (Throws e, (d', w')) \<Longrightarrow> E e d'"
  unfolding raises_def by blast

lemma raises_ret: "(\<And>e d. P d \<Longrightarrow> r = Throws e \<Longrightarrow> E e d) \<Longrightarrow> raises P (ret r) E"
  by (simp add: raises_def os_simps)

lemma raises_none: "(\<And>e. r \<noteq> Throws e) \<Longrightarrow> raises P (ret r) E"
  by (rule raises_ret) blast

lemma raises_bind_frame:
  assumes "frame m" "\<And>a. raises P (f a) E"
  shows "raises P (m \<bind> f) E"
proof (rule raisesI)
  fix d w e d2 w2
  assume P: "P d" and run: "run_state (m \<bind> f) (d, w) = (Throws e, (d2, w2))"
  obtain a d1 w1 where m: "run_state m (d, w) = (a, (d1, w1))" by (rule prod_cases3)
  then have "d1 = d" using assms(1) unfolding frame_def by (metis fst_conv snd_conv)
  with m run have "run_state (f a) (d, w1) = (Throws e, (d2, w2))" by (simp add: os_simps)
  with raisesD [OF assms(2) P] show "E e d2" by blast
qed

lemma raises_bind_this: "(\<And>d. raises P (f d) E) \<Longrightarrow> raises P (this \<bind> f) E"
  by (simp add: raises_def os_simps)

lemma raises_bind_assign: "raises P' (f ()) E \<Longrightarrow> (\<And>d. P d \<Longrightarrow> P' (g d)) \<Longrightarrow> raises P (assign g \<bind> f) E"
  by (simp add: raises_def os_simps) blast

lemma raises_bind_context: "raises P' (f ()) E \<Longrightarrow>
    (\<And>d. P d \<Longrightarrow> P' (d\<lparr>m_kernel_context := g (m_kernel_context d)\<rparr>)) \<Longrightarrow>
    raises P (on_context g \<bind> f) E"
  unfolding on_context_def by (rule raises_bind_assign)

lemma raises_andthen:
  assumes "raises P m E" "leads P m R" "\<And>a. raises (R a) (f a) E"
  shows "raises P (andthen m f) E"
proof (rule raisesI)
  fix d w e d2 w2
  assume P: "P d" and run: "run_state (andthen m f) (d, w) = (Throws e, (d2, w2))"
  obtain r d1 w1 where m: "run_state m (d, w) = (r, (d1, w1))" by (rule prod_cases3)
  show "E e d2"
  proof (cases r)
    case (Return a)
    with m run have "run_state (f a) (d1, w1) = (Throws e, (d2, w2))" by (simp add: os_simps)
    with raisesD [OF assms(3)] leadsD [OF assms(2) P] m Return show ?thesis by blast
  next
    case (Throws e')
    with m run have "e' = e" "d1 = d2" by (simp_all add: os_simps)
    with raisesD [OF assms(1) P] m Throws show ?thesis by blast
  qed (use m run in \<open>simp_all add: os_simps\<close>)
qed

lemma raises_cases:
  "raises P m E \<Longrightarrow> raises P n E \<Longrightarrow> raises P (if b then m else n) E"
  "raises P m E \<Longrightarrow> (\<And>a. raises P (g a) E) \<Longrightarrow> raises P (case x of None \<Rightarrow> m | Some a \<Rightarrow> g a) E"
  by (auto split: option.splits)

lemma raises_within: "ensures False m (within False) \<Longrightarrow> raises P m E"
proof (rule raisesI)
  fix d w e d' w'
  assume "ensures False m (within False)" "run_state m (d, w) = (Throws e, (d', w'))"
  with ensuresD [of False m "within False" w d] show "E e d'" by (simp add: within_def)
qed

section \<open>What leaves the try block\<close>

definition unreferenced :: "facade \<Rightarrow> bool" where
  "unreferenced d \<longleftrightarrow> kernel_ref (m_kernel_context d) = None"

definition thrown :: "exception \<Rightarrow> facade \<Rightarrow> bool" where
  "thrown e d \<longleftrightarrow> (\<exists>what. e = Runtime_Error what) \<or> mapped d \<or> unreferenced d"

definition escapes :: "exception \<Rightarrow> facade \<Rightarrow> bool" where
  "escapes e d \<longleftrightarrow> (\<forall>what. e \<noteq> Runtime_Error what) \<and> (mapped d \<or> kernel_ref (m_kernel_context d) = None)"

lemma raises_throw: "raises P (throw what) thrown"
  by (simp add: throw_def raises_def os_simps thrown_def)

lemma raises_load_lib: "raises P (load_lib lib) thrown" "raises P (function_pointer h f) thrown"
  by (auto simp: raises_def load_lib_def function_pointer_def os_simps thrown_def Let_def
      split: option.splits if_splits)

lemma raises_frame: "frame m \<Longrightarrow> (\<And>d. P d \<Longrightarrow> mapped d \<or> unreferenced d) \<Longrightarrow> raises P m thrown"
  by (rule raisesI) (metis frame_def fst_conv snd_conv thrown_def)

lemma map_kernel_raises: "raises unreferenced map_kernel thrown"
proof -
  have tail: "raises no_claim
      (on_context (\<lambda>c. c\<lparr>kernel_ref := Some r\<rparr>) \<bind> (\<lambda>_.
         if r = 0 then throw e
         else on_context (\<lambda>c. c\<lparr>pm := Map.empty\<rparr>) \<bind> (\<lambda>_.
           andthen (function_pointer h s) (\<lambda>uk.
             on_context (\<lambda>c. c\<lparr>unmake_kernel_address := Some uk\<rparr>) \<bind> (\<lambda>_.
               if uk = 0 then throw e'
               else log_message msg \<bind> (\<lambda>_. ret (Return ()))))))) thrown"
    for r h e e' s msg
    by (rule raises_bind_context [where P' = no_claim], rule raises_cases, rule raises_throw,
        rule raises_bind_context [where P' = no_claim],
        rule raises_andthen [where R = "\<lambda>_. no_claim"], rule raises_load_lib,
        rule leads_frame_any, rule frames, rule raises_bind_context [where P' = no_claim],
        rule raises_cases, rule raises_throw, rule raises_bind_frame, rule frames,
        rule raises_none) simp_all
  show ?thesis
    unfolding map_kernel_def
    by (rule raises_bind_this, rule raises_cases, rule raises_none, simp, rule raises_cases,
        rule raises_throw, rule raises_bind_context [where P' = unreferenced],
        rule raises_andthen [where R = "\<lambda>_. unreferenced"], rule raises_load_lib,
        rule leads_frame_any, rule frames, rule raises_bind_context [where P' = unreferenced],
        rule raises_cases, rule raises_throw,
        rule raises_andthen [where R = "\<lambda>_. no_claim"], rule raises_frame, rule frames, simp,
        rule leads_mono [OF leads_frame_any], rule frames, assumption, rule TrueI,
        rule raises_bind_frame, rule frames, rule tail) (simp_all add: unreferenced_def)
qed

lemma coordinator_body_raises: "raises unreferenced coordinator_body thrown"
proof -
  have boot: "raises mapped (bootstrap argc argv) thrown" for argc argv
    unfolding bootstrap_def
    by (rule raises_bind_this, rule raises_cases, rule raises_none, simp, rule raises_cases,
        rule raises_none, simp, rule raises_frame, rule frames) simp
  show ?thesis
    unfolding coordinator_body_def
    by (rule raises_bind_frame, rule frames,
        rule raises_andthen [where R = "\<lambda>_. unreferenced"], rule raises_load_lib,
        rule leads_frame_any, rule frames, rule raises_bind_context [where P' = unreferenced],
        rule raises_cases, rule raises_none, simp,
        rule raises_andthen [where R = "\<lambda>_. mapped"], rule map_kernel_raises,
        rule leads_mono [OF map_kernel_maps], rule TrueI, assumption,
        rule raises_andthen [where R = "\<lambda>_. mapped"], rule raises_load_lib,
        rule leads_frame_any, rule frames, rule raises_cases, rule raises_none, simp,
        rule raises_andthen [where R = "\<lambda>_. mapped"], rule raises_load_lib,
        rule leads_frame_any, rule frames, rule raises_bind_assign [where P' = mapped],
        rule raises_cases, rule raises_bind_frame, rule frames, rule raises_none, simp,
        rule raises_bind_frame, rule frames, rule raises_bind_this, rule boot)
      (simp_all add: unreferenced_def mapped_def)
qed

lemma open_log_context:
  "run_state open_log (d, w) = (r, (d', w')) \<Longrightarrow> m_kernel_context d' = m_kernel_context d"
  by (auto simp: open_log_def os_simps Let_def split: if_splits)

lemma open_log_leads: "leads unreferenced open_log (\<lambda>_. unreferenced)"
  by (rule leadsI) (simp add: unreferenced_def open_log_context)

lemma coordinator_log_leads: "leads unreferenced coordinator_log (\<lambda>_. unreferenced)"
proof -
  have again: "leads unreferenced (andthen open_log (\<lambda>b. assign (g b) \<bind> (\<lambda>_. ret (Return ()))))
      (\<lambda>_. unreferenced)" if "\<And>b d. m_kernel_context (g b d) = m_kernel_context d" for g
    by (rule leads_andthen [OF open_log_leads], rule leads_bind_assign [where P' = unreferenced],
        rule leads_ret) (simp_all add: unreferenced_def that)
  show ?thesis
    unfolding coordinator_log_def Let_def
    by (rule leads_bind_this, rule leads_cases, rule leads_ret, simp,
        rule leads_andthen [where R = "\<lambda>_. unreferenced"], rule leads_mono [OF open_log_leads],
        simp, assumption, rule leads_bind_assign [where P' = unreferenced], rule leads_cases,
        rule leads_bind_frame, rule frames, rule leads_andthen [where R = "\<lambda>_. unreferenced"],
        rule leads_frame_any, rule frames, rule leads_bind_this,
        rule leads_andthen [where R = "\<lambda>_. unreferenced"], rule leads_cases,
        rule leads_mono [OF again], simp, simp, assumption, rule leads_ret, simp,
        rule leads_bind_frame, rule frames, rule leads_ret, assumption, rule leads_ret)
      (simp_all add: unreferenced_def)
qed

lemma ensures_coordinator_log: "ensures False coordinator_log (within False)"
  unfolding coordinator_log_def Let_def by (intro ens TrueI)

lemma bootstrap_coordinator_escapes: "raises unreferenced bootstrap_coordinator escapes"
  unfolding bootstrap_coordinator_def
proof (rule raises_andthen [OF raises_within [OF ensures_coordinator_log] coordinator_log_leads], rule raisesI)
  fix d w e d' w'
  assume u: "unreferenced d" and run: "run_state (coordinator_body \<bind> (\<lambda>r. case r of
      Throws (Runtime_Error what) \<Rightarrow> do { log_message (c_str what); call (Exit_Process 1); ret (Exits 1) }
    | _ \<Rightarrow> ret r)) (d, w) = (Throws e, (d', w'))"
  obtain b d1 w1 where body: "run_state coordinator_body (d, w) = (b, (d1, w1))" by (rule prod_cases3)
  with run have "b = Throws e" "d1 = d'" "\<forall>what. e \<noteq> Runtime_Error what"
    by (cases b; auto simp: os_simps split_beta split: exception.splits)+
  note eq = this
  from raisesD [OF coordinator_body_raises u, of w e d' w1] body eq have "thrown e d'" by simp
  with eq(3) show "escapes e d'" by (auto simp: escapes_def thrown_def unreferenced_def)
qed

lemma default_exec_no_throw: "daemon_default_exec params flags s = Some (r, s') \<Longrightarrow> r \<noteq> Throws e"
proof -
  assume x: "daemon_default_exec params flags s = Some (r, s')"
  let ?m = "andthen exec_start (\<lambda>_. ret (Return sleep_time))"
  obtain q s1 where q: "run_state ?m s = (q, s1)" by (rule prod.exhaust)
  have "ensures False ?m (within False)" by (rule ensures_seq [OF ensures_exec_start]) (intro ens)
  then have qw: "within False q" using ensuresD [of False ?m "within False" "snd s" "fst s"] q by simp
  have loop: "exec_loop u s2 \<noteq> Some (Throws e, s3)" for u s2 s3
    using exec_loop_ends [of u s2 "Throws e" s3 False] by (auto simp: within_def)
  show "r \<noteq> Throws e"
    using x q qw
    by (auto simp: daemon_default_exec_def within_def after_loop_def os_simps split_beta loop
        split: run.splits option.splits)
qed

lemma main_start_unreferenced:
  "run_state (main_start argv) (new_facade argc argv, w) = (r, (d, w')) \<Longrightarrow>
   unreferenced d \<and> (\<forall>e. r = Throws e \<longrightarrow> e = Std_Exception)"
  by (auto simp: main_start_def os_simps unreferenced_def new_facade_def new_kernel_slots_def
      split: option.splits if_splits)

lemma main_daemonize_keeps:
  "main_daemonize b (d, w) = Some (r, (d', w')) \<Longrightarrow> d' = d \<and> (\<forall>e. r \<noteq> Throws e)"
  by (auto simp: main_daemonize_def facade_daemonize_def main_daemonized_def chromatic_terminate_def
      os_simps split_beta Let_def split: if_splits option.splits result.splits)

lemma main_service_escapes:
  assumes "main_service (d, w) = Some (Throws e, (d', w'))" "unreferenced d"
  shows "escapes e d'"
proof (cases "m_service_proc d = sp_default_coordinator")
  case True
  with assms(1) have "run_state bootstrap_coordinator (d, w) = (Throws e, (d', w'))"
    by (simp add: main_service_def)
  from raisesD [OF bootstrap_coordinator_escapes assms(2) this] show ?thesis .
next
  case False
  with assms(1) obtain q s1 where "daemon_default_exec ''cci-daemon-default'' 0 (d, w) = Some (q, s1)"
    "run_state (andthen (ret q) (\<lambda>_. ret (Return ()))) s1 = (Throws e, (d', w'))"
    by (auto simp: main_service_def split: service_proc.splits option.splits)
  with default_exec_no_throw [of _ _ _ q s1] show ?thesis
    by (cases q; cases s1) (fastforce simp: os_simps)+
qed

lemma main_try_escapes:
  assumes "main_try argv w = Some (Throws e, (d, w1))"
  shows "escapes e d"
proof -
  let ?f = "new_facade (int (length argv)) argv"
  obtain q d0 w0 where s: "run_state (main_start argv) (?f, w) = (q, (d0, w0))" by (rule prod_cases3)
  from main_start_unreferenced [OF s] have u: "unreferenced d0"
    and qe: "q = Throws x \<Longrightarrow> x = Std_Exception" for x by auto
  show ?thesis
  proof (cases q)
    case (Return b)
    with assms s have m: "run_stages (main_daemonize b (d0, w0)) main_service = Some (Throws e, (d, w1))"
      by (simp add: main_try_def)
    then obtain r2 d2 w2 where d: "main_daemonize b (d0, w0) = Some (r2, (d2, w2))"
      by (cases "main_daemonize b (d0, w0)") (auto simp: run_stages_def)
    from main_daemonize_keeps [OF d] m d have "main_service (d0, w2) = Some (Throws e, (d, w1))"
      by (cases r2) (auto simp: run_stages_def)
    from main_service_escapes [OF this u] show ?thesis .
  next
    case (Throws x)
    with assms s qe [OF Throws] u show ?thesis by (simp add: main_try_def escapes_def unreferenced_def)
  qed (use assms s in \<open>simp_all add: main_try_def\<close>)
qed

lemmas main_end_eval = main_end_def main_tail_def delete_df_def os_simps

section \<open>Properties\<close>

text \<open>
  C12. No runtime error leaves \<open>bootstrap_coordinator\<close>: it ends the process with status 1.
  If the bootstrap returns, the kernel is mapped, with a kernel object and a function to
  delete it, so that destroying the facade afterwards neither reads a member that was never
  written nor calls a null pointer.
\<close>
theorem coordinator_outcome:
  assumes "run_state bootstrap_coordinator (d, w) = (r, (d', w'))"
  shows "(\<forall>what. r \<noteq> Throws (Runtime_Error what)) \<and>
    (r = Return () \<longrightarrow> mapped d' \<and> (\<exists>s. run_state facade_dtor (d', w') = (Return (), s)))"
proof -
  obtain q d1 w1 where l: "run_state coordinator_log (d, w) = (q, (d1, w1))" by (rule prod_cases3)
  from ensuresD [OF ensures_coordinator_log, of w d] l have q: "within False q" by simp
  show ?thesis
  proof (cases q)
    case (Return u)
    obtain b d2 w2 where body: "run_state coordinator_body (d1, w1) = (b, (d2, w2))"
      by (rule prod_cases3)
    have run: "run_state bootstrap_coordinator (d, w) =
        run_state (case b of
           Throws (Runtime_Error what) \<Rightarrow>
             do { log_message (c_str what); call (Exit_Process 1); ret (Exits 1) }
         | _ \<Rightarrow> ret b) (d2, w2)"
      using l body Return by (simp add: bootstrap_coordinator_def os_simps)
    have "mapped d2" if "b = Return ()"
      using leadsD [OF coordinator_body_maps TrueI body [unfolded that]] .
    moreover have "r = b \<and> d' = d2" if "\<forall>what. b \<noteq> Throws (Runtime_Error what)"
      using assms run that by (cases b) (auto simp: os_simps split: exception.splits)
    moreover have "r = Exits 1" if "b = Throws (Runtime_Error what)" for what
      using assms run that by (simp add: os_simps split_beta)
    moreover have "\<exists>s. run_state facade_dtor (d', w') = (Return (), s)" if "mapped d'"
      using dtor_mapped [OF that] by (metis prod.collapse)
    ultimately show ?thesis
      by (cases "\<exists>what. b = Throws (Runtime_Error what)") auto
  next
    case (Throws e)
    with q show ?thesis by (simp add: within_def)
  qed (use assms l in \<open>auto simp: bootstrap_coordinator_def os_simps\<close>)
qed

text \<open>
  C36. Exceptions and the end of main. Main never returns and lets no exception escape. No
  runtime error ever reaches its catch block. An exception that is not a \<open>std::exception\<close> is
  not caught: the process is aborted at once, without the facade being deleted. One that is
  leads to undefined behaviour: if the kernel has been mapped, the facade is deleted, which
  unloads the kernel, and then deleted a second time; if not, already the first deletion reads
  a member that was never written. That is the case when the working directory cannot be read.
\<close>
theorem main_exception_fatal:
  assumes "main_try argv w = Some (r, (d, w1))"
  shows "\<exists>r' d' w'. daemon_main argv w = Some (r', (d', w')) \<and> (\<forall>a. r' \<noteq> Return a) \<and> (\<forall>e. r' \<noteq> Throws e) \<and>
    (\<forall>what. r \<noteq> Throws (Runtime_Error what)) \<and>
    (r = Throws Other_Exception \<longrightarrow>
       r' = Aborts \<and> d' = d \<and> w' = w1\<lparr>trace := trace w1 @ [Abort]\<rparr>) \<and>
    (r = Throws Std_Exception \<longrightarrow>
       (if mapped d
        then r' = Crashes Double_Free \<and> (\<exists>cs. w' = w1\<lparr>trace := trace w1 @ cs\<rparr> \<and>
          Library_Call ''unmake_kernel'' \<in> set cs)
        else kernel_ref (m_kernel_context d) = None \<and> r' = Crashes Uninit_Read)) \<and>
    (answer_text w (trace w) Getcwd = None \<longrightarrow> r' = Crashes Uninit_Read)"
proof -
  obtain r' d2 w2 where e: "run_state (main_end Df_Live r) (d, w1) = (r', (d2, w2))" by (rule prod_cases3)
  have c: "fst (run_state facade_dtor (d, w1)) \<in> {Return (), Crashes Uninit_Read, Crashes Null_Deref}"
    by (rule dtor_cases)
  have th: "escapes x d" if "r = Throws x" for x using main_try_escapes assms that by blast
  have ends: "(\<forall>a. r' \<noteq> Return a) \<and> (\<forall>e. r' \<noteq> Throws e)"
    using e c by (cases r) (auto simp: main_end_eval split: prod.splits run.splits if_splits)
  have foreign: "r' = Aborts \<and> d2 = d \<and> w2 = w1\<lparr>trace := trace w1 @ [Abort]\<rparr>"
    if "r = Throws Other_Exception" using e that by (auto simp: main_end_eval)
  have std: "if mapped d then r' = Crashes Double_Free \<and> (\<exists>cs. w2 = w1\<lparr>trace := trace w1 @ cs\<rparr> \<and>
          Library_Call ''unmake_kernel'' \<in> set cs)
        else kernel_ref (m_kernel_context d) = None \<and> r' = Crashes Uninit_Read"
    if "r = Throws Std_Exception"
  proof (cases "mapped d")
    case True
    obtain cs where "run_state facade_dtor (d, w1) = (Return (), (d, w1\<lparr>trace := trace w1 @ cs\<rparr>))"
        "Library_Call ''unmake_kernel'' \<in> set cs"
      using dtor_unmakes [OF True] by blast
    with True e that show ?thesis by (auto simp: main_end_eval)
  next
    case False
    then have k: "kernel_ref (m_kernel_context d) = None" using th [OF that] by (simp add: escapes_def)
    with False e that dtor_unmapped [OF k, of w1] show ?thesis
      by (cases "run_state facade_dtor (d, w1)") (auto simp: main_end_eval)
  qed
  have "r = Throws Std_Exception \<and> kernel_ref (m_kernel_context d) = None"
    if "answer_text w (trace w) Getcwd = None"
    using that assms by (auto simp: main_try_def main_start_def os_simps new_facade_def new_kernel_slots_def)
  with std have cwd: "r' = Crashes Uninit_Read" if "answer_text w (trace w) Getcwd = None"
    using that by (auto simp: mapped_def split: if_splits)
  have "r \<noteq> Throws (Runtime_Error what)" for what using th by (auto simp: escapes_def)
  with ends foreign std cwd assms e show ?thesis by (simp add: daemon_main_def)
qed

text \<open>A bootstrap that throws a \<open>std::exception\<close>, and a working directory that cannot be read.\<close>

definition throwing_world :: "int \<Rightarrow> world" where
  "throwing_world kind = \<lparr>answer = (\<lambda>tr c. case c of Localtime \<Rightarrow> 0 | Exception_Kind \<Rightarrow> kind | _ \<Rightarrow> 3),
     answer_text = (\<lambda>tr c. case c of Getcwd \<Rightarrow> Some ''/''
       | Library_Call f \<Rightarrow> (if f = ''bootstrap_default_coordinator'' then Some ''bad'' else None)
       | _ \<Rightarrow> None), trace = []\<rparr>"

lemma throwing_main:
  "\<exists>e d w. main_try [''cci-daemon'', ''-a'', ''-t''] (throwing_world kind) = Some (Throws e, (d, w)) \<and>
    mapped d \<and> (kind = 1 \<longrightarrow> e = Std_Exception) \<and> (kind = 2 \<longrightarrow> e = Other_Exception)"
  if "kind \<in> {1, 2}"
  using that
  by (auto simp: main_try_def main_start_def main_daemonize_def main_service_def run_stages_def
      cmd_option_exists_def bootstrap_coordinator_def coordinator_log_def coordinator_body_def
      map_kernel_def load_lib_def function_pointer_def library_call_def bootstrap_def facade_eval
      throwing_world_def on_context_def new_kernel_slots_def new_facade_def mapped_def)

definition no_directory_world :: world where
  "no_directory_world = \<lparr>answer = (\<lambda>tr c. 0), answer_text = (\<lambda>tr c. None), trace = []\<rparr>"

theorem main_exception_fatal_witness:
  "(\<exists>s. daemon_main [''cci-daemon'', ''-a'', ''-t''] (throwing_world 1) = Some (Crashes Double_Free, s)) \<and>
   (\<exists>s. daemon_main [''cci-daemon'', ''-a'', ''-t''] (throwing_world 2) = Some (Aborts, s)) \<and>
   (\<exists>s. daemon_main [''cci-daemon''] no_directory_world = Some (Crashes Uninit_Read, s))"
proof (intro conjI)
  obtain d w where "main_try [''cci-daemon'', ''-a'', ''-t''] (throwing_world 1) =
      Some (Throws Std_Exception, (d, w))" "mapped d" using throwing_main [of 1] by auto
  from main_exception_fatal [OF this(1)] this(2)
  show "\<exists>s. daemon_main [''cci-daemon'', ''-a'', ''-t''] (throwing_world 1) = Some (Crashes Double_Free, s)"
    by auto
  obtain d w where "main_try [''cci-daemon'', ''-a'', ''-t''] (throwing_world 2) =
      Some (Throws Other_Exception, (d, w))" using throwing_main [of 2] by auto
  from main_exception_fatal [OF this]
  show "\<exists>s. daemon_main [''cci-daemon'', ''-a'', ''-t''] (throwing_world 2) = Some (Aborts, s)"
    by auto
  have "\<exists>d w. main_try [''cci-daemon''] no_directory_world = Some (Throws Std_Exception, (d, w))"
    by (simp add: main_try_def main_start_def os_simps no_directory_world_def)
  then obtain d w where "main_try [''cci-daemon''] no_directory_world = Some (Throws Std_Exception, (d, w))"
    by blast
  from main_exception_fatal [OF this]
  show "\<exists>s. daemon_main [''cci-daemon''] no_directory_world = Some (Crashes Uninit_Read, s)"
    by (auto simp: no_directory_world_def)
qed

definition coordinator_world :: world where
  \<comment> \<open>everything opens and every function is found\<close>
  "coordinator_world = \<lparr>answer = (\<lambda>tr c. case c of Localtime \<Rightarrow> 0 | _ \<Rightarrow> 3),
     answer_text = (\<lambda>tr c. None), trace = []\<rparr>"

theorem coordinator_outcome_witness:
  "\<exists>d w s. run_state bootstrap_coordinator (new_facade 0 [], coordinator_world) = (Return (), (d, w)) \<and>
    run_state facade_dtor (d, w) = (Return (), s)"
proof -
  obtain r d w where b: "run_state bootstrap_coordinator (new_facade 0 [], coordinator_world) = (r, (d, w))"
    by (rule prod_cases3)
  then have "r = Return ()"
    by (simp add: bootstrap_coordinator_def coordinator_log_def coordinator_body_def map_kernel_def
        load_lib_def function_pointer_def library_call_def bootstrap_def facade_eval
        coordinator_world_def on_context_def new_kernel_slots_def)
  with coordinator_outcome [OF b] b show ?thesis by blast
qed

end
