(* ===== verification/Bootstrap.thy ===== *)
theory Bootstrap
  imports Coordinator_Properties
begin

text \<open>
  The library the daemon bootstraps its coordinator with,
  cci_daemon/src/coordinator/cci_daemon_bootstrap.cpp: the function that brings up the
  protocol stack and the handler of its signals. Calls into ACE are recorded in order; their
  answers are the arguments. The handler destroys the facade the daemon passed, with the
  destructor of the facade's own theory.
\<close>

section \<open>Calls\<close>

datatype stack_call =
    Open_Trace_File string | Log_Flag_Ostream | Log_Flag_Stderr
  | Register_Handler string | Change_Directory string
  | Service_Config_Open int "string list" | Schedule_Timer int int
  | Activate | Resume | Run_Reactor_Loop | Service_Config_Close
  | Run_Proactor_Loop | Cancel_Timer int | Join_Thread int | Fini_Services | Close_Trace_File
  | End_Reactor_Loop | End_Proactor_Loop | Exit_Now int

record stack_env =
  chdir_result :: int
  service_config_result :: int
  timer_result :: int
  activate_result :: int

record coordinator =
  g_facade_ptr :: "facade option"      \<comment> \<open>None: null\<close>
  ccifs_timer_id :: int
  dw_thread_id :: int

definition trace_path :: string where
  "trace_path = ''/var/log/cci-daemon/cci-daemon-dispatcher-trace.log''"

section \<open>Bringing up the stack\<close>

definition bring_up :: "stack_env \<Rightarrow> int \<Rightarrow> string list \<Rightarrow> coordinator
    \<Rightarrow> int run \<times> stack_call list \<times> coordinator" where
  \<comment> \<open>after the log is set up and the signals are registered\<close>
  "bring_up e argc argv k =
     (case g_facade_ptr k of
        None \<Rightarrow> (Crashes Null_Deref, [], k)
      | Some d \<Rightarrow>
          let dir = Change_Directory (c_str (m_chroot_dir d)) in
          if chdir_result e \<noteq> 0 then (Return 1, [dir], k)
          else if service_config_result e \<noteq> 0
            then (Return 1, [dir, Service_Config_Open argc argv], k)
          else
            let k = k\<lparr>ccifs_timer_id := timer_result e, dw_thread_id := activate_result e\<rparr>;
                ops = [dir, Service_Config_Open argc argv, Schedule_Timer 5 5, Activate]
            in if dw_thread_id k \<noteq> 0 then (Crashes Assert_Failed, ops, k)
               else (Return 0, ops @ [Resume, Run_Reactor_Loop, Service_Config_Close], k))"

definition bootstrap_default_coordinator :: "stack_env \<Rightarrow> int \<Rightarrow> string list \<Rightarrow> facade option
    \<Rightarrow> coordinator \<Rightarrow> int run \<times> stack_call list \<times> coordinator" where
  "bootstrap_default_coordinator e argc argv ptr k =
     (let k = k\<lparr>g_facade_ptr := ptr\<rparr>;
          (r, ops, k) = bring_up e argc argv k
      in (r, [Open_Trace_File trace_path, Log_Flag_Ostream, Log_Flag_Stderr,
              Register_Handler ''SIGINT'', Register_Handler ''SIGTERM'', Register_Handler ''SIGSEGV'']
             @ ops, k))"

section \<open>The signal handler\<close>

datatype stack_signal = Sig_Segv | Sig_Int | Sig_Term | Sig_Other

definition unravel :: "coordinator \<Rightarrow> stack_call list" where
  "unravel k = [Cancel_Timer (ccifs_timer_id k), Join_Thread (dw_thread_id k), Fini_Services,
     Close_Trace_File, End_Reactor_Loop, End_Proactor_Loop, Exit_Now 0]"

definition bootstrap_handle_signal ::
    "stack_signal \<Rightarrow> coordinator \<Rightarrow> world \<Rightarrow> int run \<times> stack_call list \<times> world" where
  "bootstrap_handle_signal signum k w =
     (case signum of
        Sig_Segv \<Rightarrow> (Exits 1, [Exit_Now 1], w)
      | Sig_Other \<Rightarrow> (Return 0, [], w)
      | _ \<Rightarrow>
          (case g_facade_ptr k of
             None \<Rightarrow> (Exits 0, unravel k, w)
           | Some d \<Rightarrow>
               (case run_state facade_dtor (d, w) of
                  (Return _, (_, w)) \<Rightarrow> (Exits 0, unravel k, w)
                | (Exits c, (_, w)) \<Rightarrow> (Exits c, [], w)
                | (Aborts, (_, w)) \<Rightarrow> (Aborts, [], w)
                | (Throws e, (_, w)) \<Rightarrow> (Throws e, [], w)
                | (Crashes f, (_, w)) \<Rightarrow> (Crashes f, [], w))))"

definition async_svc :: "int \<times> stack_call list" where
  \<comment> \<open>the proactor's thread\<close>
  "async_svc = (0, [Run_Proactor_Loop])"

definition watchdog_timeout :: "int" where
  \<comment> \<open>it logs a line and stays scheduled\<close>
  "watchdog_timeout = 0"

section \<open>The shutdown of the coordinator\<close>

text \<open>
  C24. SIGTERM or SIGINT after the daemon has mapped the kernel and the stack has come up
  (nothing the coordinator does after entering the reactor's loop changes its three variables,
  so their value at its return is the value the handler finds while the loop runs)
  ends the process with status 0: exactly the facade's destructor is run, which is safe and
  calls the library to delete the kernel, then the timer is cancelled, the services are
  finished and the loops are ended, in this order. The thread that is joined before is always
  number 0, what activate returned, and not the thread it started.
\<close>
theorem coordinator_shutdown:
  assumes "run_state map_kernel (d0, w0) = (Return (), (d, w1))"
    and "bootstrap_default_coordinator e argc argv (Some d) k0 = (Return 0, ops, k)"
    and "signum = Sig_Int \<or> signum = Sig_Term"
  shows "\<exists>w' cs. bootstrap_handle_signal signum k w =
    (Exits 0, [Cancel_Timer (timer_result e), Join_Thread 0, Fini_Services, Close_Trace_File,
       End_Reactor_Loop, End_Proactor_Loop, Exit_Now 0], w') \<and>
    run_state facade_dtor (d, w) = (Return (), (d, w')) \<and>
    w' = w\<lparr>trace := trace w @ cs\<rparr> \<and> Library_Call ''unmake_kernel'' \<in> set cs \<and>
    Run_Reactor_Loop \<in> set ops \<and> g_facade_ptr k = Some d"
proof -
  have m: "mapped d" using leadsD [OF map_kernel_maps TrueI assms(1)] .
  obtain cs where s: "run_state facade_dtor (d, w) = (Return (), (d, w\<lparr>trace := trace w @ cs\<rparr>))"
      "Library_Call ''unmake_kernel'' \<in> set cs"
    using dtor_unmakes [OF m] by blast
  have k: "g_facade_ptr k = Some d" "ccifs_timer_id k = timer_result e" "dw_thread_id k = 0"
    "Run_Reactor_Loop \<in> set ops"
    using assms(2) by (auto simp: bootstrap_default_coordinator_def bring_up_def Let_def
        split: if_splits)
  with s assms(3) show ?thesis
    by (intro exI [of _ "w\<lparr>trace := trace w @ cs\<rparr>"] exI [of _ cs])
      (auto simp: bootstrap_handle_signal_def unravel_def)
qed

definition demo_stack :: stack_env where
  "demo_stack = \<lparr>chdir_result = 0, service_config_result = 0, timer_result = 9, activate_result = 0\<rparr>"

definition unmapped_facade :: facade where
  "unmapped_facade = (new_facade 0 [])\<lparr>m_kernel_context := new_kernel_slots\<lparr>lib_ref := Some 3\<rparr>\<rparr>"

theorem coordinator_shutdown_witness:
  "\<exists>d w k ops. run_state map_kernel (unmapped_facade, coordinator_world) = (Return (), (d, w)) \<and>
    bootstrap_default_coordinator demo_stack 0 [] (Some d)
      \<lparr>g_facade_ptr = None, ccifs_timer_id = 0, dw_thread_id = 0\<rparr> = (Return 0, ops, k) \<and>
    (\<exists>w'. bootstrap_handle_signal Sig_Term k w = (Exits 0, [Cancel_Timer 9, Join_Thread 0,
       Fini_Services, Close_Trace_File, End_Reactor_Loop, End_Proactor_Loop, Exit_Now 0], w') \<and>
     Library_Call ''unmake_kernel'' \<in> set (drop (length (trace w)) (trace w')))"
proof -
  obtain r d w where m: "run_state map_kernel (unmapped_facade, coordinator_world) = (r, (d, w))"
    by (rule prod_cases3)
  then have r: "r = Return ()"
    by (simp add: map_kernel_def function_pointer_def library_call_def facade_eval
        coordinator_world_def on_context_def new_kernel_slots_def unmapped_facade_def)
  obtain q ops k where b: "bootstrap_default_coordinator demo_stack 0 [] (Some d)
      \<lparr>g_facade_ptr = None, ccifs_timer_id = 0, dw_thread_id = 0\<rparr> = (q, ops, k)"
    by (rule prod_cases3)
  then have q: "q = Return 0"
    by (auto simp: bootstrap_default_coordinator_def bring_up_def Let_def demo_stack_def)
  from coordinator_shutdown [OF m [unfolded r] b [unfolded q], of Sig_Term w] m b r q
  show ?thesis by (auto simp: demo_stack_def)
qed

end
