(* ===== verification/Kernel_Link.thy ===== *)
theory Kernel_Link
  imports Facade_Properties Kernel_Properties
begin

text \<open>
  The daemon's facade together with the kernel library it loads. The facade (Facade) calls
  \<open>make_kernel\<close> and \<open>unmake_kernel\<close> through addresses it looked up, so in its model they are
  calls to the operating system; what they do is in theory Kernel. Here the calls the facade
  has made are replayed on the kernel's model, and a world is linked if its answers are what
  the kernel's functions return. A small calculus carries the state of the kernel through the
  facade's member functions; theory Kernel_Life applies it.
\<close>

section \<open>The kernels after a sequence of calls\<close>

fun kernel_call :: "sys_call \<Rightarrow> kernel_context \<times> kernel_heap \<Rightarrow> kernel_context \<times> kernel_heap" where
  "kernel_call (Library_Call f) (ctx, w) =
     (if f = ''make_kernel'' then snd (make_kernel ctx w)
      else if f = ''unmake_kernel'' then snd (unmake_kernel ctx w)
      else (ctx, w))"
| "kernel_call _ s = s"

definition kernels :: "sys_call list \<Rightarrow> kernel_context \<times> kernel_heap" where
  "kernels tr = fold kernel_call tr (no_context, no_kernels)"

definition kernel_object :: "sys_call list \<Rightarrow> nat option" where
  "kernel_object tr = m_instance (snd (kernels tr))"

definition live_kernels :: "sys_call list \<Rightarrow> nat set" where
  "live_kernels tr = live (snd (kernels tr))"

definition address_of :: "nat option \<Rightarrow> int" where
  \<comment> \<open>0 is the null pointer\<close>
  "address_of x = (case x of None \<Rightarrow> 0 | Some i \<Rightarrow> int i + 1)"

definition linked :: "world \<Rightarrow> bool" where
  "linked w \<longleftrightarrow> (\<forall>tr. answer_text w tr (Library_Call ''make_kernel'') = None \<and>
     answer_text w tr (Library_Call ''unmake_kernel'') = None \<and>
     answer w tr Kernel_Ref = address_of (kernel_context.kernel_ref (fst (kernels tr))))"

definition quiet :: "sys_call \<Rightarrow> bool" where
  \<comment> \<open>a call that does not reach the kernel's functions\<close>
  "quiet c \<longleftrightarrow> c \<noteq> Library_Call ''make_kernel'' \<and> c \<noteq> Library_Call ''unmake_kernel''"

lemma kernels_snoc [simp]: "kernels (tr @ [c]) = kernel_call c (kernels tr)"
  by (simp add: kernels_def)

lemma kernel_call_quiet: "quiet c \<Longrightarrow> kernel_call c s = s"
  by (cases "(c, s)" rule: kernel_call.cases) (auto simp: quiet_def)

lemma kernels_quiet: "list_all quiet cs \<Longrightarrow> kernels (tr @ cs) = kernels tr"
proof (induction cs arbitrary: tr)
  case (Cons c cs)
  from Cons.IH [of "tr @ [c]"] Cons.prems show ?case by (simp add: kernel_call_quiet)
qed simp

lemma kernels_then_quiet: "list_all quiet cs \<Longrightarrow> kernels (tr @ c # cs) = kernel_call c (kernels tr)"
  using kernels_quiet [of cs "tr @ [c]"] by simp

lemma linked_trace [simp]: "linked (w\<lparr>trace := tr\<rparr>) = linked w"
  by (simp add: linked_def)

text \<open>There is never more than one kernel, and it is the one the library knows.\<close>

lemma one_kernel: "live_kernels tr = set_option (kernel_object tr)"
proof (induction tr rule: rev_induct)
  case Nil
  show ?case by (simp add: live_kernels_def kernel_object_def kernels_def no_kernels_def)
next
  case (snoc c tr)
  obtain ctx h where k: "kernels tr = (ctx, h)" by fastforce
  with snoc have l: "live h = set_option (m_instance h)"
    by (simp add: live_kernels_def kernel_object_def)
  have "live (snd (kernel_call c (ctx, h))) = set_option (m_instance (snd (kernel_call c (ctx, h))))"
    using l by (cases c) (auto simp: make_kernel_def unmake_kernel_def instance_of_def
        dispose_instance_def split: option.splits)
  with k show ?case by (simp add: live_kernels_def kernel_object_def)
qed

section \<open>A calculus for facade and kernel\<close>

type_synonym linked_pred = "facade \<Rightarrow> kernel_context \<times> kernel_heap \<Rightarrow> bool"

definition quietly :: "'a running \<Rightarrow> bool" where
  \<comment> \<open>the object is left as it is and the kernel is not called\<close>
  "quietly m \<longleftrightarrow> (\<forall>d w. \<exists>cs. snd (run_state m (d, w)) = (d, w\<lparr>trace := trace w @ cs\<rparr>) \<and>
     list_all quiet cs)"

definition guides :: "linked_pred \<Rightarrow> 'a run running \<Rightarrow> ('a \<Rightarrow> linked_pred) \<Rightarrow> bool" where
  \<comment> \<open>partial correctness, in a world linked with the kernel\<close>
  "guides P m R \<longleftrightarrow> (\<forall>d w a d' w'. linked w \<longrightarrow> P d (kernels (trace w)) \<longrightarrow>
     run_state m (d, w) = (Return a, (d', w')) \<longrightarrow> linked w' \<and> R a d' (kernels (trace w')))"

named_theorems quiets "computations that neither change the object nor call the kernel"

lemma guidesI: "(\<And>d w a d' w'. linked w \<Longrightarrow> P d (kernels (trace w)) \<Longrightarrow>
    run_state m (d, w) = (Return a, (d', w')) \<Longrightarrow> linked w' \<and> R a d' (kernels (trace w'))) \<Longrightarrow> guides P m R"
  unfolding guides_def by blast

lemma guidesD: "guides P m R \<Longrightarrow> linked w \<Longrightarrow> P d (kernels (trace w)) \<Longrightarrow>
    run_state m (d, w) = (Return a, (d', w')) \<Longrightarrow> linked w' \<and> R a d' (kernels (trace w'))"
  unfolding guides_def by blast

lemma quietlyD:
  assumes "quietly m" "run_state m (d, w) = (a, (d', w'))"
  shows "d' = d \<and> (\<exists>cs. w' = w\<lparr>trace := trace w @ cs\<rparr> \<and> list_all quiet cs)"
proof -
  obtain cs where "snd (run_state m (d, w)) = (d, w\<lparr>trace := trace w @ cs\<rparr>)" "list_all quiet cs"
    using assms(1) unfolding quietly_def by blast
  with assms(2) show ?thesis by auto
qed

lemma quiet_basic [quiets]: "quietly (ret a)" "quietly this"
  unfolding quietly_def by (auto simp: os_simps intro: exI [of _ "[]"])

lemma quietly_call [quiets]: "quiet c \<Longrightarrow> quietly (call c)" "quiet c \<Longrightarrow> quietly (call_text c)"
  unfolding quietly_def by (auto simp: os_simps intro: exI [of _ "[c]"])

lemma quietly_bind [quiets]:
  assumes m: "quietly m" and f: "\<And>a. quietly (f a)"
  shows "quietly (m \<bind> f)"
  unfolding quietly_def
proof (intro allI)
  fix d w
  obtain a d1 w1 where r: "run_state m (d, w) = (a, (d1, w1))" by (rule prod_cases3)
  from quietlyD [OF m r] obtain cs where 1: "d1 = d" "w1 = w\<lparr>trace := trace w @ cs\<rparr>" "list_all quiet cs"
    by blast
  obtain ds where "snd (run_state (f a) (d, w1)) = (d, w1\<lparr>trace := trace w1 @ ds\<rparr>)" "list_all quiet ds"
    using f unfolding quietly_def by blast
  with r 1 show "\<exists>cs. snd (run_state (m \<bind> f) (d, w)) = (d, w\<lparr>trace := trace w @ cs\<rparr>) \<and> list_all quiet cs"
    by (intro exI [of _ "cs @ ds"]) (simp add: os_simps)
qed

lemma quietly_cases [quiets]:
  "quietly m \<Longrightarrow> quietly n \<Longrightarrow> quietly (if b then m else n)"
  "quietly m \<Longrightarrow> (\<And>a. quietly (f a)) \<Longrightarrow> quietly (case x of None \<Rightarrow> m | Some a \<Rightarrow> f a)"
  by (auto split: option.splits)

definition os_quiet :: "'a os \<Rightarrow> bool" where
  "os_quiet m \<longleftrightarrow> (\<forall>w. \<exists>cs. snd (run_state m w) = w\<lparr>trace := trace w @ cs\<rparr> \<and> list_all quiet cs)"

lemma os_quiet_basic [quiets]: "os_quiet (ret a)" "quiet c \<Longrightarrow> os_quiet (sys c)"
  "quiet c \<Longrightarrow> os_quiet (sys_text c)"
  unfolding os_quiet_def
  by (auto simp: os_simps intro: exI [of _ "[]"] exI [of _ "[c]"])

lemma os_quiet_bind [quiets]:
  assumes m: "os_quiet m" and f: "\<And>a. os_quiet (f a)"
  shows "os_quiet (m \<bind> f)"
  unfolding os_quiet_def
proof
  fix w
  obtain a w1 where r: "run_state m w = (a, w1)" by fastforce
  obtain cs where 1: "w1 = w\<lparr>trace := trace w @ cs\<rparr>" "list_all quiet cs"
    using m r unfolding os_quiet_def by (metis snd_conv)
  obtain ds where "snd (run_state (f a) w1) = w1\<lparr>trace := trace w1 @ ds\<rparr>" "list_all quiet ds"
    using f unfolding os_quiet_def by blast
  with r 1 show "\<exists>cs. snd (run_state (m \<bind> f) w) = w\<lparr>trace := trace w @ cs\<rparr> \<and> list_all quiet cs"
    by (intro exI [of _ "cs @ ds"]) (simp add: os_simps)
qed

lemma os_quiet_cases [quiets]:
  "os_quiet m \<Longrightarrow> os_quiet n \<Longrightarrow> os_quiet (if b then m else n)"
  "os_quiet m \<Longrightarrow> (\<And>a. os_quiet (f a)) \<Longrightarrow> os_quiet (case x of None \<Rightarrow> m | Some a \<Rightarrow> f a)"
  "(\<And>a b. os_quiet (g a b)) \<Longrightarrow> os_quiet (case z of (a, b) \<Rightarrow> g a b)"
  by (auto split: option.splits prod.splits)

lemma quietly_on_os [quiets]: "os_quiet m \<Longrightarrow> quietly (on_os m)"
  by (auto simp: quietly_def os_quiet_def os_simps)

lemma quiet_calls [quiets]: "quiet (Fprint fp s)" "quiet Localtime" "quiet Strftime"
  "quiet (Backtrace n)" "quiet (Backtrace_Symbol n)" "quiet (Demangle s)" "quiet (Stderr s)"
  "quiet (Dlopen s)" "quiet Dlerror" "quiet (Dlsym a s)" "quiet Exception_Kind" "quiet Kernel_Ref"
  "quiet (Library_Call ''bootstrap_default_coordinator'')"
  by (simp_all add: quiet_def)

lemma os_quiet_print_frames: "os_quiet (print_frames out is)"
proof (induction "is")
  case Nil
  show ?case unfolding print_frames.simps by (intro quiets)
next
  case (Cons i "is")
  have "os_quiet (print_frame out i)"
    unfolding print_frame_def Let_def by (intro quiets)
  with Cons show ?case unfolding print_frames.simps by (intro quiets)
qed

lemma os_quiet_print_stacktrace [quiets]: "os_quiet (print_stacktrace out n)"
  unfolding print_stacktrace_def by (intro quiets os_quiet_print_frames)

lemma quietly_bt [quiets]: "quietly bt"
  unfolding bt_def by (intro quiets)

lemma quietly_log_message [quiets]: "quietly (log_message msg)"
  unfolding log_message_def Let_def by (intro quiets)

lemma quietly_libraries [quiets]: "quietly (load_lib lib)" "quietly (function_pointer h f)"
  "quietly (library_call ''bootstrap_default_coordinator'')"
  unfolding load_lib_def function_pointer_def library_call_def Let_def by (intro quiets)+

text \<open>The rules.\<close>

lemma guides_ret: "(\<And>d k a. P d k \<Longrightarrow> r = Return a \<Longrightarrow> R a d k) \<Longrightarrow> guides P (ret r) R"
  by (simp add: guides_def os_simps)

lemma guides_stop: "(\<And>a. r \<noteq> Return a) \<Longrightarrow> guides P (ret r) R"
  by (rule guides_ret) blast

lemma guides_throw: "guides P (throw what) R"
  unfolding throw_def by (rule guides_stop) simp

lemma guides_quiet:
  assumes "quietly m"
  shows "guides P m (\<lambda>_. P)"
proof (rule guidesI)
  fix d w a d' w'
  assume "linked w" "P d (kernels (trace w))" "run_state m (d, w) = (Return a, (d', w'))"
  with quietlyD [OF assms this(3)] show "linked w' \<and> P d' (kernels (trace w'))"
    by (auto simp: kernels_quiet)
qed

lemma guides_bind_quiet:
  assumes "quietly m" "\<And>a. guides P (f a) Q"
  shows "guides P (m \<bind> f) Q"
proof (rule guidesI)
  fix d w b d2 w2
  assume P: "linked w" "P d (kernels (trace w))" and run: "run_state (m \<bind> f) (d, w) = (Return b, (d2, w2))"
  obtain a d1 w1 where m: "run_state m (d, w) = (a, (d1, w1))" by (rule prod_cases3)
  with quietlyD [OF assms(1) m] P have "d1 = d" "linked w1" "P d (kernels (trace w1))"
    by (auto simp: kernels_quiet)
  with m run show "linked w2 \<and> Q b d2 (kernels (trace w2))"
    using guidesD [OF assms(2), of w1 d a b d2 w2] by (simp add: os_simps)
qed

lemma guides_bind_this: "(\<And>d. guides (\<lambda>d' k. P d' k \<and> d' = d) (f d) Q) \<Longrightarrow> guides P (this \<bind> f) Q"
  by (simp add: guides_def os_simps)

lemma guides_bind_context: "guides P' (f ()) Q \<Longrightarrow>
    (\<And>d k. P d k \<Longrightarrow> P' (d\<lparr>m_kernel_context := g (m_kernel_context d)\<rparr>) k) \<Longrightarrow>
    guides P (on_context g \<bind> f) Q"
  by (simp add: guides_def os_simps) blast

lemma guides_bind_assign: "guides P' (f ()) Q \<Longrightarrow> (\<And>d k. P d k \<Longrightarrow> P' (g d) k) \<Longrightarrow>
    guides P (assign g \<bind> f) Q"
  by (simp add: guides_def os_simps) blast

lemma guides_andthen:
  assumes "guides P m R" "\<And>a. guides (R a) (f a) Q"
  shows "guides P (andthen m f) Q"
proof (rule guidesI)
  fix d w b d2 w2
  assume P: "linked w" "P d (kernels (trace w))" and run: "run_state (andthen m f) (d, w) = (Return b, (d2, w2))"
  obtain r d1 w1 where m: "run_state m (d, w) = (r, (d1, w1))" by (rule prod_cases3)
  with run obtain a where a: "r = Return a" and f: "run_state (f a) (d1, w1) = (Return b, (d2, w2))"
    by (cases r) (simp_all add: os_simps)
  from guidesD [OF assms(1) P m [unfolded a]] have "linked w1" "R a d1 (kernels (trace w1))"
    by simp_all
  from guidesD [OF assms(2) this f] show "linked w2 \<and> Q b d2 (kernels (trace w2))" .
qed

lemma guides_cases:
  "(b \<Longrightarrow> guides P m R) \<Longrightarrow> (\<not> b \<Longrightarrow> guides P n R) \<Longrightarrow> guides P (if b then m else n) R"
  "(x = None \<Longrightarrow> guides P m R) \<Longrightarrow> (\<And>a. x = Some a \<Longrightarrow> guides P (g a) R) \<Longrightarrow>
     guides P (case x of None \<Rightarrow> m | Some a \<Rightarrow> g a) R"
  by (auto split: option.splits)

lemma guides_mono: "guides P m R \<Longrightarrow> (\<And>d k. P' d k \<Longrightarrow> P d k) \<Longrightarrow>
    (\<And>a d k. R a d k \<Longrightarrow> R' a d k) \<Longrightarrow> guides P' m R'"
  by (rule guidesI) (blast dest: guidesD)

lemma guides_make: "guides P (library_call ''make_kernel'')
    (\<lambda>_ d k. \<exists>ctx h. P d (ctx, h) \<and> k = snd (make_kernel ctx h))"
proof (rule guidesI)
  fix d w d' w' and a :: unit
  assume "linked w" "P d (kernels (trace w))" "run_state (library_call ''make_kernel'') (d, w) = (Return a, (d', w'))"
  then show "linked w' \<and> (\<exists>ctx h. P d' (ctx, h) \<and> kernels (trace w') = snd (make_kernel ctx h))"
    by (cases "kernels (trace w)")
      (auto simp: library_call_def os_simps linked_def intro!: exI)
qed

lemma guides_ref:
  assumes "\<And>r. guides (\<lambda>d k. P d k \<and> r = address_of (kernel_context.kernel_ref (fst k))) (f r) Q"
  shows "guides P (call Kernel_Ref \<bind> f) Q"
proof (rule guidesI)
  fix d b d2 w2 and w :: world
  let ?r = "address_of (kernel_context.kernel_ref (fst (kernels (trace w))))"
  let ?w = "w\<lparr>trace := trace w @ [Kernel_Ref]\<rparr>"
  assume P: "linked w" "P d (kernels (trace w))"
    and run: "run_state (call Kernel_Ref \<bind> f) (d, w) = (Return b, (d2, w2))"
  from P have "answer w (trace w) Kernel_Ref = ?r" by (simp only: linked_def)
  with run have f: "run_state (f ?r) (d, ?w) = (Return b, (d2, w2))" by (simp add: os_simps)
  have "linked ?w" "P d (kernels (trace ?w)) \<and>
      ?r = address_of (kernel_context.kernel_ref (fst (kernels (trace ?w))))"
    using P by simp_all
  from guidesD [OF assms this f] show "linked w2 \<and> Q b d2 (kernels (trace w2))" .
qed

end
