(* ===== verification/Kernel_Life.thy ===== *)
theory Kernel_Life
  imports Bootstrap Kernel_Link
begin

text \<open>
  The life of the kernel in the daemon that runs as a coordinator (option -a): made by
  \<open>map_kernel\<close> through the library's \<open>make_kernel\<close>, deleted through \<open>unmake_kernel\<close> by the
  facade's destructor, which main runs at its end and the bootstrap's signal handler runs
  when the process is told to stop. Facade, main (Daemon_Main), the handler (Bootstrap) and
  the kernel library (Kernel) are composed by the replay of theory Kernel_Link.
\<close>

section \<open>The coordinator's kernel\<close>

definition holds_kernel :: linked_pred where
  \<comment> \<open>the facade refers to the kernel that is alive and has the address of the function that deletes it\<close>
  "holds_kernel d k \<longleftrightarrow> (\<exists>i a. m_instance (snd k) = Some i \<and>
     kernel_context.kernel_ref (fst k) = Some i \<and>
     kernel_slots.kernel_ref (m_kernel_context d) = Some (address_of (Some i)) \<and>
     unmake_kernel_address (m_kernel_context d) = Some a \<and> a \<noteq> 0)"

definition made :: "nat \<Rightarrow> kernel_context \<times> kernel_heap \<Rightarrow> bool" where
  "made i k \<longleftrightarrow> m_instance (snd k) = Some i \<and> kernel_context.kernel_ref (fst k) = Some i"

abbreviation anything :: linked_pred where "anything \<equiv> \<lambda>_ _. True"

abbreviation referring :: "int \<Rightarrow> linked_pred" where
  "referring r \<equiv> \<lambda>d k. kernel_slots.kernel_ref (m_kernel_context d) = Some r \<and>
     (\<exists>i. made i k \<and> r = address_of (Some i))"

lemma make_kernel_made: "\<exists>i. made i (snd (make_kernel ctx h))"
  by (auto simp: made_def make_kernel_def instance_of_def split: option.splits)

lemma guides_make_kernel: "guides anything (library_call ''make_kernel'') (\<lambda>_ _ k. \<exists>i. made i k)"
  by (rule guides_mono [OF guides_make]) (auto simp: make_kernel_made)

lemma map_kernel_holds: "guides anything map_kernel (\<lambda>_. holds_kernel)"
proof -
  have tail: "guides (\<lambda>d k. (\<exists>i. made i k) \<and> r = address_of (kernel_context.kernel_ref (fst k)))
      (on_context (\<lambda>c. c\<lparr>kernel_slots.kernel_ref := Some r\<rparr>) \<bind> (\<lambda>_.
         if r = 0 then throw e
         else on_context (\<lambda>c. c\<lparr>pm := Map.empty\<rparr>) \<bind> (\<lambda>_.
           andthen (function_pointer h s) (\<lambda>uk.
             on_context (\<lambda>c. c\<lparr>unmake_kernel_address := Some uk\<rparr>) \<bind> (\<lambda>_.
               if uk = 0 then throw e'
               else log_message msg \<bind> (\<lambda>_. ret (Return ()))))))) (\<lambda>_. holds_kernel)"
    (is "guides _ (_ \<bind> (\<lambda>_. if _ then _ else ?rest)) _") for r h e e' s msg
  proof (rule guides_bind_context [where P' = "referring r"], goal_cases)
    case 1
    have "guides (referring r) ?rest (\<lambda>_. holds_kernel)"
    proof (rule guides_bind_context [where P' = "referring r"],
        rule guides_andthen [OF guides_quiet], rule quiets, goal_cases)
      case (1 uk)
      show ?case
      proof (cases "uk = 0")
        case True
        then show ?thesis by (auto intro: guides_bind_context [where P' = anything] guides_throw)
      next
        case False
        then show ?thesis
          by (simp, intro guides_bind_context [where P' = holds_kernel])
            (auto intro!: guides_bind_quiet quiets guides_ret simp: holds_kernel_def made_def)
      qed
    qed simp
    then show ?case by (auto intro: guides_throw)
  next
    case (2 d k)
    then show ?case by (auto simp: made_def)
  qed
  show ?thesis
    unfolding map_kernel_def
    by (rule guides_bind_this, rule guides_cases, rule guides_stop, simp, rule guides_cases,
        rule guides_throw, rule guides_bind_context [where P' = anything],
        rule guides_andthen [where R = "\<lambda>_. anything"], rule guides_quiet, rule quiets,
        rule guides_bind_context [where P' = anything], rule guides_cases, rule guides_throw,
        rule guides_andthen [OF guides_make_kernel], rule guides_ref, rule tail) simp_all
qed

lemma coordinator_body_holds: "guides anything coordinator_body (\<lambda>_. holds_kernel)"
proof -
  have boot: "guides holds_kernel (bootstrap argc argv) (\<lambda>_. holds_kernel)" for argc argv
    unfolding bootstrap_def
    by (rule guides_bind_this, rule guides_cases, rule guides_stop, simp, rule guides_cases,
        rule guides_stop, simp, rule guides_mono [OF guides_quiet], rule quiets) auto
  show ?thesis
    unfolding coordinator_body_def
    by (rule guides_bind_quiet, rule quiets,
        rule guides_andthen [where R = "\<lambda>_. anything"], rule guides_quiet, rule quiets,
        rule guides_bind_context [where P' = anything], rule guides_cases, rule guides_stop, simp,
        rule guides_andthen [OF map_kernel_holds],
        rule guides_andthen [where R = "\<lambda>_. holds_kernel"], rule guides_quiet, rule quiets,
        rule guides_cases, rule guides_stop, simp,
        rule guides_andthen [where R = "\<lambda>_. holds_kernel"], rule guides_quiet, rule quiets,
        rule guides_bind_assign [where P' = holds_kernel], rule guides_cases,
        rule guides_bind_quiet, rule quiets, rule guides_ret, simp,
        rule guides_bind_quiet, rule quiets, rule guides_bind_this,
        rule guides_mono [OF boot]) (auto simp: holds_kernel_def)
qed

lemma quiet_calls_of_main [quiets]: "quiet (Umask n)" "quiet (Access p n)" "quiet (Fopen p s)"
  "quiet (Setbuf n)" "quiet (Fgets n b)" "quiet (Fclose n)" "quiet (Exit_Process n)" "quiet Getcwd"
  "quiet Fork" "quiet Setsid" "quiet (Chdir p)" "quiet Sysconf_Open_Max" "quiet (Close n)"
  "quiet (Open p n n')" "quiet (Dup2 n n')" "quiet (Syslog n s)" "quiet (Openlog s n)" "quiet Closelog"
  by (simp_all add: quiet_def)

lemma quietly_read_config_file [quiets]: "quietly (read_config_file p)"
  unfolding read_config_file_def Let_def by (intro quiets)

lemma linked_open_log: "guides anything open_log (\<lambda>_. anything)"
  unfolding open_log_def
  by (rule guides_bind_quiet, rule quiets, rule quiets, rule guides_bind_quiet, rule quiets,
      rule quiets, rule guides_cases, rule guides_bind_quiet, rule quiets, rule quiets,
      rule guides_bind_quiet, rule quiets, rule quiets, rule guides_stop, simp,
      rule guides_bind_quiet, rule quiets, rule quiets, rule guides_bind_assign [where P' = anything],
      rule guides_bind_quiet, rule quiets, rule quiets, rule guides_cases, rule guides_stop, simp,
      rule guides_bind_quiet, rule quiets, rule quiets, rule guides_ret) simp_all

lemma linked_coordinator_log: "guides anything coordinator_log (\<lambda>_. anything)"
proof -
  have again: "guides anything (andthen open_log (\<lambda>b. assign (g b) \<bind> (\<lambda>_. ret (Return ())))) (\<lambda>_. anything)"
    for g :: "bool \<Rightarrow> facade \<Rightarrow> facade"
    by (rule guides_andthen [OF linked_open_log], rule guides_bind_assign [where P' = anything],
        rule guides_ret) simp_all
  show ?thesis
    unfolding coordinator_log_def Let_def
    by (rule guides_bind_quiet, rule quiets, rule guides_cases, rule guides_ret, simp,
        rule guides_andthen [OF linked_open_log], rule guides_bind_assign [where P' = anything],
        rule guides_cases, rule guides_bind_quiet, rule quiets,
        rule guides_andthen [where R = "\<lambda>_. anything"], rule guides_quiet, rule quiets,
        rule guides_bind_quiet, rule quiets, rule guides_andthen [where R = "\<lambda>_. anything"],
        rule guides_cases, rule again, rule guides_ret, simp, rule guides_bind_quiet, rule quiets,
        rule guides_ret, simp, rule guides_ret) simp_all
qed

lemma bootstrap_coordinator_holds: "guides anything bootstrap_coordinator (\<lambda>_. holds_kernel)"
  unfolding bootstrap_coordinator_def
proof (rule guides_andthen [OF linked_coordinator_log], rule guidesI, goal_cases)
  case (1 u d w a d' w')
  obtain b d1 w1 where body: "run_state coordinator_body (d, w) = (b, (d1, w1))" by (rule prod_cases3)
  with 1(3) have eq: "b = Return a \<and> d1 = d' \<and> w1 = w'"
    by (cases b) (auto simp: os_simps split_beta split: exception.splits)
  with body have "run_state coordinator_body (d, w) = (Return a, (d', w'))" by simp
  from guidesD [OF coordinator_body_holds 1(1) TrueI this] show ?case .
qed

text \<open>The destructor deletes the kernel.\<close>

lemma unmake_linked:
  fixes w :: world
  assumes "linked w"
  shows "run_state (library_call ''unmake_kernel'') (d, w) =
    (Return (), (d, w\<lparr>trace := trace w @ [Library_Call ''unmake_kernel'']\<rparr>))"
proof -
  from assms have "answer_text w (trace w) (Library_Call ''unmake_kernel'') = None"
    by (simp only: linked_def)
  then show ?thesis by (simp add: library_call_def os_simps)
qed

lemma dtor_unloads:
  fixes w :: world
  assumes "linked w" "holds_kernel d (kernels (trace w))"
    and "run_state facade_dtor (d, w) = (r, (d', w'))"
  shows "r = Return () \<and> live_kernels (trace w') = {}"
proof -
  obtain u d1 w1 where b: "run_state bt (d, w) = (u, (d1, w1))" by (rule prod_cases3)
  from quietlyD [OF quietly_bt b] assms have 1: "d1 = d" "linked w1" "holds_kernel d (kernels (trace w1))"
    by (auto simp: kernels_quiet)
  let ?w = "w1\<lparr>trace := trace w1 @ [Library_Call ''unmake_kernel'']\<rparr>"
  obtain v d2 w2 where l: "run_state (log_message ''...kernel unloaded....'') (d, ?w) = (v, (d2, w2))"
    by (rule prod_cases3)
  with b assms(3) 1 have r: "r = Return ()" "w' = w2"
    by (auto simp: facade_dtor_def os_simps split_beta holds_kernel_def address_of_def unmake_linked)
  obtain ctx h where k: "kernels (trace w1) = (ctx, h)" by fastforce
  from quietlyD [OF quietly_log_message l] r have "kernels (trace w') = kernels (trace ?w)"
    by (auto simp: kernels_then_quiet)
  with k 1(3) have "kernel_object (trace w') = None"
    by (auto simp: kernel_object_def holds_kernel_def unmake_kernel_def dispose_instance_def)
  with r show ?thesis by (simp add: one_kernel)
qed

lemma holds_kernel_live: "holds_kernel d (kernels tr) \<Longrightarrow>
    \<exists>i. live_kernels tr = {i} \<and> kernel_slots.kernel_ref (m_kernel_context d) = Some (address_of (Some i))"
  by (auto simp: holds_kernel_def one_kernel kernel_object_def)

section \<open>The daemon as a coordinator\<close>

lemma os_quiet_sys_all [quiets]: "list_all quiet cs \<Longrightarrow> os_quiet (sys_all cs)"
  by (auto simp: os_quiet_def os_simps)

lemma os_quiet_dp_step: "os_quiet (dp_step flags dp)"
proof -
  have "list_all quiet (map (\<lambda>fd. Close (int fd)) xs)" for xs
    by (induction xs) (simp_all add: quiet_def)
  then have fds: "os_quiet (close_fds n)" for n
    unfolding close_fds_def by (intro quiets)
  show ?thesis
    unfolding dp_step_def Let_def by (cases dp; simp only: daemon_proc.case; intro quiets fds)
qed

lemma daemonize_loop_linked:
  assumes "daemonize_loop flags dp w = Some y"
  shows "linked w \<longrightarrow> linked (snd y)"
proof (rule daemonize_loop.raw_induct [where P = "\<lambda>flags dp w y. linked w \<longrightarrow> linked (snd y)", OF _ assms],
    goal_cases)
  case (1 loop flags dp w y)
  obtain q w1 where s: "run_state (dp_step flags dp) w = (q, w1)" by fastforce
  with os_quiet_dp_step [of flags dp] have "linked w1 = linked w"
    unfolding os_quiet_def by (metis linked_trace snd_conv)
  with 1(2) s 1(1) [of flags _ w1] show ?case by (auto split: if_splits result.splits)
qed

lemma daemonize_linked: "daemonize flags w = Some (r, w') \<Longrightarrow> linked w \<Longrightarrow> linked w'"
  unfolding daemonize_def by (drule daemonize_loop_linked) simp

lemma main_start_linked:
  assumes "run_state (main_start argv) (d, w) = (Return b, (d', w'))" "linked w"
  shows "linked w'"
proof -
  have "guides anything (main_start argv) (\<lambda>_. anything)"
    unfolding main_start_def
  proof (rule guides_bind_assign [where P' = anything], rule guides_bind_quiet, goal_cases)
    case (2 x)
    show ?case
    proof (rule guides_cases, rule guides_stop, simp, rule guides_bind_assign [where P' = anything], goal_cases)
      case (1 a)
      show ?case
        by (cases "cmd_option_exists argv ''-a''", simp_all)
          (rule guides_bind_assign [where P' = anything] guides_bind_quiet, (intro quiets guides_ret TrueI)+)+
    qed simp
  qed (intro quiets, simp)
  from guidesD [OF this assms(2) TrueI assms(1)] show ?thesis by simp
qed

lemma main_start_coordinator:
  "run_state (main_start argv) (d, w) = (Return b, (d', w')) \<Longrightarrow> cmd_option_exists argv ''-a'' \<Longrightarrow>
    m_service_proc d' = sp_default_coordinator"
  by (auto simp: main_start_def os_simps split: option.splits)

lemma main_daemonize_linked:
  assumes "main_daemonize b (d, w) = Some (Return (), (d', w'))" and "linked w"
  shows "linked w' \<and> d' = d"
proof (cases b)
  case False
  with assms show ?thesis by (simp add: main_daemonize_def)
next
  case True
  with assms(1) obtain r w1 where f: "facade_daemonize (d, w) = Some (r, (d, w1))"
    and m: "run_state (andthen (ret r) main_daemonized) (d, w1) = (Return (), (d', w'))"
    by (auto simp: main_daemonize_def facade_daemonize_def split: option.splits result.splits)
  from f obtain q where "daemonize (m_dw_flags d) w = Some (q, w1)"
    by (auto simp: facade_daemonize_def split: option.splits result.splits)
  from daemonize_linked [OF this assms(2)] have "linked w1" .
  with m show ?thesis
    by (cases r) (auto simp: main_daemonized_def chromatic_terminate_def os_simps split: if_splits)
qed

lemma coordinator_main:
  assumes "linked w" and "cmd_option_exists argv ''-a''" and "main_try argv w = Some (Return (), (d1, w1))"
  shows "linked w1 \<and> holds_kernel d1 (kernels (trace w1))"
proof -
  obtain b d w2 d3 w3 where 1: "run_state (main_start argv) (new_facade (int (length argv)) argv, w) =
      (Return b, (d, w2))"
    and 2: "main_daemonize b (d, w2) = Some (Return (), (d3, w3))"
    and 3: "main_service (d3, w3) = Some (Return (), (d1, w1))"
    using assms(3)
    by (auto simp: main_try_def run_stages_def split: prod.splits run.splits option.splits)
  from main_daemonize_linked [OF 2 main_start_linked [OF 1 assms(1)]] have l: "linked w3" "d3 = d"
    by simp_all
  with 3 main_start_coordinator [OF 1 assms(2)]
  have "run_state bootstrap_coordinator (d, w3) = (Return (), (d1, w1))"
    by (simp add: main_service_def)
  from guidesD [OF bootstrap_coordinator_holds l(1) TrueI this] show ?thesis .
qed

section \<open>Properties\<close>

text \<open>
  C21. The life of the kernel, for the daemon started with -a. While the coordinator runs there
  is exactly one kernel, and it is the one the facade refers to. If main goes on after the
  bootstrap it ends with status 0, and if SIGINT or SIGTERM arrives instead, whatever has
  happened since that is not a call of the kernel's two functions, the handler ends the process
  with status 0; either way no kernel is left.
\<close>
theorem coordinator_kernel_life:
  assumes "linked w" and "cmd_option_exists argv ''-a''" and "main_try argv w = Some (Return (), (d1, w1))"
  shows "(\<exists>i. live_kernels (trace w1) = {i} \<and>
      kernel_slots.kernel_ref (m_kernel_context d1) = Some (address_of (Some i))) \<and>
    (\<exists>d2 w2. daemon_main argv w = Some (Exits EXIT_SUCCESS, (d2, w2)) \<and> live_kernels (trace w2) = {}) \<and>
    (\<forall>signum \<in> {Sig_Int, Sig_Term}. \<forall>k cs. g_facade_ptr k = Some d1 \<longrightarrow> list_all quiet cs \<longrightarrow>
      (\<exists>w2. bootstrap_handle_signal signum k (w1\<lparr>trace := trace w1 @ cs\<rparr>) = (Exits 0, unravel k, w2) \<and>
        live_kernels (trace w2) = {}))"
proof (intro conjI ballI allI impI)
  from coordinator_main [OF assms] have l: "linked w1" and h: "holds_kernel d1 (kernels (trace w1))"
    by simp_all
  from holds_kernel_live [OF h] show "\<exists>i. live_kernels (trace w1) = {i} \<and>
      kernel_slots.kernel_ref (m_kernel_context d1) = Some (address_of (Some i))" .
  obtain r d2 w2 where e: "run_state facade_dtor (d1, w1) = (r, (d2, w2))" by (rule prod_cases3)
  from dtor_unloads [OF l h e] have "r = Return ()" "live_kernels (trace w2) = {}" by simp_all
  with e assms(3)
  show "\<exists>d2 w2. daemon_main argv w = Some (Exits EXIT_SUCCESS, (d2, w2)) \<and> live_kernels (trace w2) = {}"
    by (simp add: daemon_main_def main_end_eval live_kernels_def)
  fix signum cs and k :: coordinator
  let ?w = "w1\<lparr>trace := trace w1 @ cs\<rparr>"
  assume s: "signum \<in> {Sig_Int, Sig_Term}" and k: "g_facade_ptr k = Some d1" and q: "list_all quiet cs"
  obtain r' d3 w3 where e': "run_state facade_dtor (d1, ?w) = (r', (d3, w3))" by (rule prod_cases3)
  from l h q have "linked ?w" "holds_kernel d1 (kernels (trace ?w))" by (simp_all add: kernels_quiet)
  from dtor_unloads [OF this e'] s k e'
  show "\<exists>w2. bootstrap_handle_signal signum k ?w = (Exits 0, unravel k, w2) \<and> live_kernels (trace w2) = {}"
    by (auto simp: bootstrap_handle_signal_def)
qed

definition linked_world :: world where
  \<comment> \<open>everything opens, every function is found and the kernel is the modelled one\<close>
  "linked_world = \<lparr>answer = (\<lambda>tr c. case c of Localtime \<Rightarrow> 0
       | Kernel_Ref \<Rightarrow> address_of (kernel_context.kernel_ref (fst (kernels tr))) | _ \<Rightarrow> 3),
     answer_text = (\<lambda>tr c. case c of Getcwd \<Rightarrow> Some ''/'' | _ \<Rightarrow> None), trace = []\<rparr>"

lemma linked_linked_world: "linked linked_world"
  by (simp add: linked_def linked_world_def)

lemma coordinator_starts:
  "\<exists>s. main_try [''cci-daemon'', ''-a'', ''-t''] linked_world = Some (Return (), s)"
  by (simp add: main_try_def main_start_def main_daemonize_def main_service_def run_stages_def
      cmd_option_exists_def bootstrap_coordinator_def coordinator_log_def coordinator_body_def
      map_kernel_def load_lib_def function_pointer_def library_call_def bootstrap_def facade_eval
      linked_world_def on_context_def new_kernel_slots_def new_facade_def kernels_def
      make_kernel_def instance_of_def no_kernels_def address_of_def)

theorem coordinator_kernel_life_witness:
  "\<exists>i d w d' w'. main_try [''cci-daemon'', ''-a'', ''-t''] linked_world = Some (Return (), (d, w)) \<and>
    live_kernels (trace w) = {i} \<and>
    daemon_main [''cci-daemon'', ''-a'', ''-t''] linked_world = Some (Exits 0, (d', w')) \<and>
    live_kernels (trace w') = {} \<and>
    (\<exists>ops w2. bootstrap_handle_signal Sig_Term
        \<lparr>g_facade_ptr = Some d, ccifs_timer_id = 9, dw_thread_id = 0\<rparr> w = (Exits 0, ops, w2) \<and>
      live_kernels (trace w2) = {})"
proof -
  obtain d w where m: "main_try [''cci-daemon'', ''-a'', ''-t''] linked_world = Some (Return (), (d, w))"
    using coordinator_starts by (metis prod.collapse)
  have "cmd_option_exists [''cci-daemon'', ''-a'', ''-t''] ''-a''" by (simp add: cmd_option_exists_def)
  note life = coordinator_kernel_life [OF linked_linked_world this m]
  let ?k = "\<lparr>g_facade_ptr = Some d, ccifs_timer_id = 9, dw_thread_id = 0\<rparr>"
  from life obtain w2 where "bootstrap_handle_signal Sig_Term ?k (w\<lparr>trace := trace w @ []\<rparr>) =
      (Exits 0, unravel ?k, w2)" "live_kernels (trace w2) = {}"
    by (metis insertI1 insertI2 coordinator.select_convs(1) list.pred_inject(1))
  then have "\<exists>ops w2. bootstrap_handle_signal Sig_Term ?k w = (Exits 0, ops, w2) \<and>
      live_kernels (trace w2) = {}" by auto
  with life m show ?thesis by (auto simp: EXIT_SUCCESS_def)
qed

end
