(* ===== verification/Interleaving.thy ===== *)
theory Interleaving
  imports Main
begin

text \<open>
  Threads that share a state. Each is a control point, and one of them takes a step at a time:
  a function gives the next control point and the shared state, or nothing while the thread is
  blocked or has finished. The locale is the interface of a reasoning in the manner of Owicki
  and Gries: an assertion for each control point that its own step keeps and that no step of
  another thread breaks, and a rank that every step lowers. What follows, once for all: the
  assertions hold in all interleavings, and every run ends, after a bounded number of steps.
\<close>

section \<open>Runs\<close>

type_synonym ('c, 's) thread_fun = "nat \<Rightarrow> 'c \<Rightarrow> 's \<Rightarrow> ('c \<times> 's) option"

inductive thread_step :: "('c, 's) thread_fun \<Rightarrow> 'c list \<times> 's \<Rightarrow> 'c list \<times> 's \<Rightarrow> bool"
  for step :: "('c, 's) thread_fun" where
  Thread: "t < length cs \<Longrightarrow> step t (cs ! t) s = Some (c, s') \<Longrightarrow>
    thread_step step (cs, s) (cs[t := c], s')"

inductive thread_run :: "('c, 's) thread_fun \<Rightarrow> nat \<Rightarrow> 'c list \<times> 's \<Rightarrow> 'c list \<times> 's \<Rightarrow> bool"
  for step :: "('c, 's) thread_fun" where
  \<comment> \<open>a run of so many steps\<close>
  Rest: "thread_run step 0 x x"
| More: "thread_run step n x y \<Longrightarrow> thread_step step y z \<Longrightarrow> thread_run step (Suc n) x z"

inductive_cases thread_stepE: "thread_step step x y"

inductive_cases thread_runE: "thread_run step n x y"

lemma thread_run_cons: "thread_run step n y z \<Longrightarrow> thread_step step x y \<Longrightarrow> thread_run step (Suc n) x z"
  by (induction rule: thread_run.induct) (auto intro: thread_run.intros)

lemma thread_run_append: "thread_run step n y z \<Longrightarrow> thread_run step m x y \<Longrightarrow> thread_run step (m + n) x z"
  by (induction rule: thread_run.induct) (auto intro: thread_run.intros)

text \<open>The run a schedule makes: which thread takes each step.\<close>

fun scheduled :: "('c, 's) thread_fun \<Rightarrow> nat list \<Rightarrow> 'c list \<times> 's \<Rightarrow> ('c list \<times> 's) option" where
  "scheduled step [] x = Some x"
| "scheduled step (t # ts) (cs, s) =
     (if t < length cs
      then case step t (cs ! t) s of None \<Rightarrow> None | Some (c, s') \<Rightarrow> scheduled step ts (cs[t := c], s')
      else None)"

lemma scheduled_run: "scheduled step ts x = Some y \<Longrightarrow> length ts = n \<Longrightarrow> thread_run step n x y"
proof (induction ts arbitrary: x n)
  case Nil
  then show ?case by (auto intro: thread_run.Rest)
next
  case (Cons t ts)
  obtain cs s where x: "x = (cs, s)" by fastforce
  with Cons.prems(1) obtain c s' where t: "t < length cs" "step t (cs ! t) s = Some (c, s')"
    and r: "scheduled step ts (cs[t := c], s') = Some y"
    by (auto split: if_splits option.splits)
  from thread_run_cons [OF Cons.IH [OF r refl] Thread [of t cs step s c s', OF t]] x Cons.prems(2) show ?case by auto
qed

section \<open>The interface\<close>

locale interleaving =
  fixes step :: "('c, 's) thread_fun"
    and shared :: "'s \<Rightarrow> bool"
    and local :: "nat \<Rightarrow> 'c \<Rightarrow> 's \<Rightarrow> bool"
    and rank :: "'c \<Rightarrow> nat"
    and crew :: nat
  assumes keeps: "t < crew \<Longrightarrow> shared s \<Longrightarrow> local t c s \<Longrightarrow> step t c s = Some (c', s') \<Longrightarrow>
      shared s' \<and> local t c' s'"
    and undisturbed: "t < crew \<Longrightarrow> u < crew \<Longrightarrow> t \<noteq> u \<Longrightarrow> shared s \<Longrightarrow> local t c s \<Longrightarrow>
      local u d s \<Longrightarrow> step t c s = Some (c', s') \<Longrightarrow> local u d s'"
    and lowers: "step t c s = Some (c', s') \<Longrightarrow> rank c' < rank c"
begin

definition asserted :: "'c list \<times> 's \<Rightarrow> bool" where
  "asserted x \<longleftrightarrow> length (fst x) = crew \<and> shared (snd x) \<and>
     (\<forall>t < crew. local t (fst x ! t) (snd x))"

lemma asserted_step:
  assumes "thread_step step x y" and "asserted x"
  shows "asserted y"
proof -
  from assms(1) obtain t cs s c s' where x: "x = (cs, s)" "y = (cs[t := c], s')"
    and t: "t < length cs" "step t (cs ! t) s = Some (c, s')"
    by (rule thread_stepE) blast
  with assms(2) have a: "length cs = crew" "shared s" "\<And>u. u < crew \<Longrightarrow> local u (cs ! u) s"
    by (simp_all add: asserted_def)
  with t have own: "t < crew" "local t (cs ! t) s" by simp_all
  have "local u (cs[t := c] ! u) s'" if "u < crew" for u
    using that t a keeps [OF own(1) a(2) own(2) t(2)] undisturbed [OF own(1) that _ a(2) own(2) a(3) [OF that] t(2)]
    by (cases "u = t") auto
  with x a keeps [OF own(1) a(2) own(2) t(2)] show ?thesis by (simp add: asserted_def)
qed

lemma asserted_run: "thread_run step n x y \<Longrightarrow> asserted x \<Longrightarrow> asserted y"
  by (induction rule: thread_run.induct) (auto dest: asserted_step)

definition remaining :: "'c list \<times> 's \<Rightarrow> nat" where
  "remaining x = sum_list (map rank (fst x))"

lemma remaining_step:
  assumes "thread_step step x y"
  shows "remaining y < remaining x"
proof -
  from assms obtain t cs s c s' where x: "x = (cs, s)" "y = (cs[t := c], s')" "t < length cs"
      "step t (cs ! t) s = Some (c, s')"
    by (rule thread_stepE) blast
  from lowers [OF x(4)] have "rank c < rank (cs ! t)" .
  moreover have "rank (cs ! t) \<le> sum_list (map rank cs)"
    using x(3) by (intro member_le_sum_list) auto
  ultimately show ?thesis
    using x(1-3) by (simp add: remaining_def map_update sum_list_update)
qed

lemma run_bounded: "thread_run step n x y \<Longrightarrow> n + remaining y \<le> remaining x"
  by (induction rule: thread_run.induct) (use remaining_step in \<open>fastforce+\<close>)

lemma run_ends: "\<exists>n y. thread_run step n x y \<and> (\<forall>z. \<not> thread_step step y z)"
proof (induction "remaining x" arbitrary: x rule: less_induct)
  case less
  show ?case
  proof (cases "\<exists>z. thread_step step x z")
    case True
    then obtain z where z: "thread_step step x z" by blast
    from less [OF remaining_step [OF z]] show ?thesis
      using thread_run_cons [OF _ z] by blast
  qed (blast intro: Rest)
qed

end

end
