(* ===== verification/Kernel_Threads.thy ===== *)
theory Kernel_Threads
  imports Kernel_Properties Interleaving
begin

text \<open>
  The kernel singleton under threads. \<open>instance\<close> of include/cci_daemon_kernel.h tests
  \<open>m_instance\<close>, takes a lock, tests again, creates the kernel and stores the pointer;
  \<open>dispose_instance\<close> deletes and clears without the lock. Each access to the shared pointer, the
  lock and the heap is a step of its own here, and the threads of the process, each in one
  call of \<open>make_kernel\<close> or \<open>unmake_kernel\<close>, interleave. Memory is sequentially consistent; for the
  standard the unlocked reads of the plain pointer are already a data race. Theory Kernel has
  the same functions as indivisible operations.
\<close>

section \<open>The process\<close>

record kernel_process =
  heap :: kernel_heap
  m_mutex :: "nat option"        \<comment> \<open>the thread that holds it\<close>
  faulted :: "fault option"

datatype call_point =
    Calling                      \<comment> \<open>\<open>make_kernel\<close>: before the first test\<close>
  | Before_Lock                  \<comment> \<open>before the construction of the \<open>lock_guard\<close>\<close>
  | Locked                       \<comment> \<open>before the second test\<close>
  | Creating                     \<comment> \<open>before \<open>new cci_daemon_kernel()\<close>\<close>
  | Storing nat                  \<comment> \<open>before the assignment to \<open>m_instance\<close>\<close>
  | Unlocking                    \<comment> \<open>before the destruction of the \<open>lock_guard\<close>\<close>
  | Reading                      \<comment> \<open>before \<open>return m_instance\<close>\<close>
  | Made "nat option"            \<comment> \<open>returned: the context's \<open>kernel_ref\<close>, None for null\<close>
  | Unmaking "nat option"        \<comment> \<open>\<open>unmake_kernel\<close> with this \<open>kernel_ref\<close>\<close>
  | Deleting                     \<comment> \<open>before \<open>delete m_instance\<close>\<close>
  | Clearing                     \<comment> \<open>before \<open>m_instance = nullptr\<close>\<close>
  | Unmade

fun singleton_point :: "nat \<Rightarrow> call_point \<Rightarrow> kernel_process \<Rightarrow> (call_point \<times> kernel_process) option" where
  "singleton_point t Calling p =
     Some (if m_instance (heap p) = None then Before_Lock else Reading, p)"
| "singleton_point t Before_Lock p =
     (if m_mutex p = None then Some (Locked, p\<lparr>m_mutex := Some t\<rparr>) else None)"
| "singleton_point t Locked p =
     Some (if m_instance (heap p) = None then Creating else Unlocking, p)"
| "singleton_point t Creating p =
     (let w = heap p; i = next_id w
      in Some (Storing i, p\<lparr>heap := w\<lparr>live := insert i (live w), next_id := Suc i\<rparr>\<rparr>))"
| "singleton_point t (Storing i) p = Some (Unlocking, p\<lparr>heap := (heap p)\<lparr>m_instance := Some i\<rparr>\<rparr>)"
| "singleton_point t Unlocking p = Some (Reading, p\<lparr>m_mutex := None\<rparr>)"
| "singleton_point t Reading p = Some (Made (m_instance (heap p)), p)"
| "singleton_point t (Made r) p = None"
| "singleton_point t (Unmaking r) p = Some (if r = None then Unmade else Deleting, p)"
| "singleton_point t Deleting p =
     (case m_instance (heap p) of
        None \<Rightarrow> Some (Clearing, p)
      | Some i \<Rightarrow>
          if i \<in> live (heap p) then Some (Clearing, p\<lparr>heap := (heap p)\<lparr>live := live (heap p) - {i}\<rparr>\<rparr>)
          else Some (Clearing, p\<lparr>faulted := Some Double_Free\<rparr>))"
| "singleton_point t Clearing p = Some (Unmade, p\<lparr>heap := (heap p)\<lparr>m_instance := None\<rparr>\<rparr>)"
| "singleton_point t Unmade p = None"

definition singleton_step :: "(call_point, kernel_process) thread_fun" where
  \<comment> \<open>a process that has crashed takes no step\<close>
  "singleton_step t c p = (if faulted p = None then singleton_point t c p else None)"

definition unlocked :: "kernel_heap \<Rightarrow> kernel_process" where
  "unlocked w = \<lparr>heap = w, m_mutex = None, faulted = None\<rparr>"

section \<open>Assertions\<close>

definition no_kernel_yet :: "kernel_heap \<Rightarrow> bool" where
  "no_kernel_yet w \<longleftrightarrow> m_instance w = None \<and> next_id w \<notin> live w"

definition allocated :: "kernel_heap \<Rightarrow> kernel_heap" where
  "allocated w = w\<lparr>live := insert (next_id w) (live w), next_id := Suc (next_id w)\<rparr>"

definition published :: "kernel_heap \<Rightarrow> kernel_heap" where
  "published w = (allocated w)\<lparr>m_instance := Some (next_id w)\<rparr>"

primrec holding :: "call_point \<Rightarrow> bool" where
  "holding Calling \<longleftrightarrow> False"
| "holding Before_Lock \<longleftrightarrow> False"
| "holding Locked \<longleftrightarrow> True"
| "holding Creating \<longleftrightarrow> True"
| "holding (Storing i) \<longleftrightarrow> True"
| "holding Unlocking \<longleftrightarrow> True"
| "holding Reading \<longleftrightarrow> False"
| "holding (Made r) \<longleftrightarrow> False"
| "holding (Unmaking r) \<longleftrightarrow> False"
| "holding Deleting \<longleftrightarrow> False"
| "holding Clearing \<longleftrightarrow> False"
| "holding Unmade \<longleftrightarrow> False"

primrec point_ok :: "kernel_heap \<Rightarrow> call_point \<Rightarrow> kernel_heap \<Rightarrow> bool" where
  \<comment> \<open>the heap as a thread at this point may find it, from the heap \<open>w\<close> at the start\<close>
  "point_ok w Calling h \<longleftrightarrow> True"
| "point_ok w Before_Lock h \<longleftrightarrow> True"
| "point_ok w Locked h \<longleftrightarrow> h \<noteq> allocated w"
| "point_ok w Creating h \<longleftrightarrow> h = w"
| "point_ok w (Storing i) h \<longleftrightarrow> h = allocated w \<and> i = next_id w"
| "point_ok w Unlocking h \<longleftrightarrow> h = published w"
| "point_ok w Reading h \<longleftrightarrow> h = published w"
| "point_ok w (Made r) h \<longleftrightarrow> h = published w \<and> r = Some (next_id w)"
| "point_ok w (Unmaking r) h \<longleftrightarrow> False"
| "point_ok w Deleting h \<longleftrightarrow> False"
| "point_ok w Clearing h \<longleftrightarrow> False"
| "point_ok w Unmade h \<longleftrightarrow> False"

definition make_shared :: "kernel_heap \<Rightarrow> nat \<Rightarrow> kernel_process \<Rightarrow> bool" where
  "make_shared w n p \<longleftrightarrow> no_kernel_yet w \<and> faulted p = None \<and> (\<forall>t. m_mutex p = Some t \<longrightarrow> t < n) \<and>
     heap p \<in> {w, allocated w, published w} \<and> (m_mutex p = None \<longrightarrow> heap p \<noteq> allocated w)"

definition make_local :: "kernel_heap \<Rightarrow> nat \<Rightarrow> call_point \<Rightarrow> kernel_process \<Rightarrow> bool" where
  "make_local w t c p \<longleftrightarrow> (holding c \<longleftrightarrow> m_mutex p = Some t) \<and> point_ok w c (heap p)"

primrec steps_left :: "call_point \<Rightarrow> nat" where
  "steps_left Calling = 7"
| "steps_left Before_Lock = 6"
| "steps_left Locked = 5"
| "steps_left Creating = 4"
| "steps_left (Storing i) = 3"
| "steps_left Unlocking = 2"
| "steps_left Reading = 1"
| "steps_left (Made r) = 0"
| "steps_left (Unmaking r) = 3"
| "steps_left Deleting = 2"
| "steps_left Clearing = 1"
| "steps_left Unmade = 0"

lemma heaps_differ: "no_kernel_yet w \<Longrightarrow> w \<noteq> allocated w \<and> w \<noteq> published w \<and> allocated w \<noteq> published w"
  by (auto simp: no_kernel_yet_def allocated_def published_def dest: arg_cong [where f = m_instance]
      arg_cong [where f = next_id])

lemma heap_sel [simp]:
  "no_kernel_yet w \<Longrightarrow> m_instance w = None"
  "no_kernel_yet w \<Longrightarrow> m_instance (allocated w) = None"
  "m_instance (published w) = Some (next_id w)"
  by (simp_all add: no_kernel_yet_def allocated_def published_def)

interpretation kt: interleaving singleton_step "make_shared w n" "make_local w" steps_left n for w n
proof
  fix t c p c' p'
  assume "t < n" "make_shared w n p" "make_local w t c p" "singleton_step t c p = Some (c', p')"
  then show "make_shared w n p' \<and> make_local w t c' p'"
    using heaps_differ [of w]
    by (cases c) (auto simp: make_shared_def make_local_def singleton_step_def allocated_def [symmetric]
        published_def [symmetric] Let_def split: if_splits)
next
  fix t u c d p c' p'
  assume "t < n" "u < n" "t \<noteq> u" "make_shared w n p" "make_local w t c p" "make_local w u d p"
    "singleton_step t c p = Some (c', p')"
  then show "make_local w u d p'"
    using heaps_differ [of w]
    by (cases c; cases d) (auto simp: make_shared_def make_local_def singleton_step_def
        allocated_def [symmetric] published_def [symmetric] Let_def split: if_splits)
next
  fix t c p c' p'
  show "singleton_step t c p = Some (c', p') \<Longrightarrow> steps_left c' < steps_left c"
    by (cases c) (auto simp: singleton_step_def Let_def split: if_splits option.splits)
qed

section \<open>One call after another\<close>

definition make_again :: "kernel_heap \<Rightarrow> kernel_heap" where
  "make_again w = snd (snd (make_kernel no_context w))"

lemma make_again_first: "no_kernel_yet w \<Longrightarrow> make_again w = published w"
  by (simp add: make_again_def make_kernel_def instance_of_def published_def allocated_def no_kernel_yet_def)

lemma make_again_same: "m_instance w \<noteq> None \<Longrightarrow> make_again w = w"
  by (auto simp: make_again_def make_kernel_def instance_of_def)

lemma make_again_times:
  assumes "no_kernel_yet w"
  shows "(make_again ^^ Suc n) w = published w"
  by (induction n) (simp_all add: make_again_first [OF assms] make_again_same)

lemma started:
  assumes "no_kernel_yet w"
  shows "kt.asserted w n (replicate n Calling, unlocked w)"
  using assms heaps_differ [OF assms]
  by (simp add: kt.asserted_def make_shared_def make_local_def unlocked_def)

lemma rests_made:
  assumes "kt.asserted w n (ps, p)" and "\<forall>y. \<not> thread_step singleton_step (ps, p) y"
  shows "ps = replicate n (Made (Some (next_id w))) \<and> m_mutex p = None \<and> (0 < n \<longrightarrow> heap p = published w)"
proof -
  from assms(1) have a: "length ps = n" "make_shared w n p" "\<And>t. t < n \<Longrightarrow> make_local w t (ps ! t) p"
    by (simp_all add: kt.asserted_def)
  have stuck: "singleton_step t (ps ! t) p = None" if "t < n" for t
  proof (rule ccontr)
    assume "singleton_step t (ps ! t) p \<noteq> None"
    then obtain c p' where "singleton_step t (ps ! t) p = Some (c, p')" by fastforce
    from Thread [of t ps singleton_step, OF _ this] that a(1) assms(2) show False by simp
  qed
  have "m_mutex p = None"
  proof (rule ccontr)
    assume "m_mutex p \<noteq> None"
    then obtain t where t: "m_mutex p = Some t" by blast
    with a(2) have n: "t < n" by (simp add: make_shared_def)
    from a(3) [OF n] t have "holding (ps ! t)" by (simp add: make_local_def)
    with stuck [OF n] a(2) show False
      by (cases "ps ! t") (auto simp: singleton_step_def make_shared_def Let_def)
  qed
  have made: "ps ! t = Made (Some (next_id w)) \<and> heap p = published w" if "t < n" for t
    using stuck [OF that] a(2) a(3) [OF that] \<open>m_mutex p = None\<close>
    by (cases "ps ! t") (auto simp: singleton_step_def make_shared_def make_local_def Let_def)
  then have "ps = replicate n (Made (Some (next_id w)))"
    using a(1) by (intro nth_equalityI) auto
  with made \<open>m_mutex p = None\<close> show ?thesis by blast
qed

section \<open>Calls without a lock\<close>

text \<open>A call that no other thread disturbs is the operation of theory Kernel.\<close>

lemmas thread_eval = singleton_step_def Let_def

lemma alone:
  shows "scheduled singleton_step (replicate (if m_instance w = None then 7 else 2) 0) ([Calling], unlocked w) =
      Some ([Made (kernel_ref (fst (snd (make_kernel ctx w))))], unlocked (snd (snd (make_kernel ctx w))))"
    and "(\<And>i. m_instance w = Some i \<Longrightarrow> i \<in> live w) \<Longrightarrow>
      scheduled singleton_step (replicate (if kernel_ref ctx = None then 1 else 3) 0)
        ([Unmaking (kernel_ref ctx)], unlocked w) =
      Some ([Unmade], unlocked (snd (snd (unmake_kernel ctx w))))"
  by (auto simp: eval_nat_numeral thread_eval unlocked_def make_kernel_def instance_of_def
      unmake_kernel_def dispose_instance_def split: option.splits)

text \<open>
  \<open>dispose_instance\<close> takes no lock. Two threads that unmake the kernel can delete it twice; a
  thread that makes the kernel while another unmakes it can return with a pointer to the
  deleted object, or with none at all, which the facade takes for a failed instantiation.
\<close>

lemma dispose_races:
  assumes "m_instance w = Some i" "i \<in> live w"
  shows "\<exists>x. thread_run singleton_step 4 ([Unmaking (Some i), Unmaking (Some i)], unlocked w) x \<and>
      faulted (snd x) = Some Double_Free"
    and "\<exists>p. thread_run singleton_step 5 ([Calling, Unmaking (Some i)], unlocked w)
      ([Made (Some i), Unmade], p) \<and> i \<notin> live (heap p)"
    and "\<exists>p. thread_run singleton_step 5 ([Calling, Unmaking (Some i)], unlocked w)
      ([Made None, Unmade], p)"
proof -
  let ?d = "w\<lparr>live := live w - {i}\<rparr>"
  have "scheduled singleton_step [0, 1, 0, 1] ([Unmaking (Some i), Unmaking (Some i)], unlocked w) =
      Some ([Clearing, Clearing], (unlocked ?d)\<lparr>faulted := Some Double_Free\<rparr>)"
    using assms by (simp add: thread_eval unlocked_def)
  from scheduled_run [OF this, of 4]
  show "\<exists>x. thread_run singleton_step 4 ([Unmaking (Some i), Unmaking (Some i)], unlocked w) x \<and>
      faulted (snd x) = Some Double_Free" by force
  have "scheduled singleton_step [0, 0, 1, 1, 1] ([Calling, Unmaking (Some i)], unlocked w) =
      Some ([Made (Some i), Unmade], unlocked (?d\<lparr>m_instance := None\<rparr>))"
    using assms by (simp add: thread_eval unlocked_def)
  from scheduled_run [OF this, of 5]
  show "\<exists>p. thread_run singleton_step 5 ([Calling, Unmaking (Some i)], unlocked w)
      ([Made (Some i), Unmade], p) \<and> i \<notin> live (heap p)"
    by (force simp: unlocked_def)
  have "scheduled singleton_step [0, 1, 1, 1, 0] ([Calling, Unmaking (Some i)], unlocked w) =
      Some ([Made None, Unmade], unlocked (?d\<lparr>m_instance := None\<rparr>))"
    using assms by (simp add: thread_eval unlocked_def)
  from scheduled_run [OF this, of 5]
  show "\<exists>p. thread_run singleton_step 5 ([Calling, Unmaking (Some i)], unlocked w)
      ([Made None, Unmade], p)" by force
qed

section \<open>Properties\<close>

text \<open>
  C22. Threads that ask for the kernel at once get one kernel. In every interleaving of any
  number of calls of \<open>make_kernel\<close>, from a library without a kernel: no two threads are between
  taking and releasing the lock, at most one kernel is constructed, no other object is deleted,
  and every thread that has returned refers to the one kernel, which is alive and the one the
  library knows.
\<close>
theorem kernel_threads_agree:
  assumes "no_kernel_yet w" and "thread_run singleton_step k (replicate n Calling, unlocked w) (ps, p)"
  shows "faulted p = None \<and>
    (\<forall>t u. t < n \<and> u < n \<and> holding (ps ! t) \<and> holding (ps ! u) \<longrightarrow> t = u) \<and>
    live w \<subseteq> live (heap p) \<and> live (heap p) \<subseteq> insert (next_id w) (live w) \<and>
    (\<forall>t r. t < n \<and> ps ! t = Made r \<longrightarrow> r = Some (next_id w) \<and> next_id w \<in> live (heap p) \<and>
       m_instance (heap p) = Some (next_id w))"
proof -
  from kt.asserted_run [OF assms(2) started [OF assms(1)]]
  have s: "make_shared w n p" and l: "\<And>t. t < n \<Longrightarrow> make_local w t (ps ! t) p"
    by (simp_all add: kt.asserted_def)
  have "t = u" if "t < n" "u < n" "holding (ps ! t)" "holding (ps ! u)" for t u
    using l [OF that(1)] l [OF that(2)] that(3,4) by (simp add: make_local_def)
  moreover have "live w \<subseteq> live (heap p) \<and> live (heap p) \<subseteq> insert (next_id w) (live w)" "faulted p = None"
    using s by (auto simp: make_shared_def allocated_def published_def)
  moreover have "r = Some (next_id w) \<and> next_id w \<in> live (heap p) \<and> m_instance (heap p) = Some (next_id w)"
    if "t < n" "ps ! t = Made r" for t r
    using l [OF that(1)] that(2) by (simp add: make_local_def published_def allocated_def)
  ultimately show ?thesis by blast
qed

text \<open>
  C23. The calls return, and the outcome is that of calling one after another. However the
  scheduler chooses, \<open>n\<close> calls of \<open>make_kernel\<close> take at most \<open>7 n\<close> steps, no state is a deadlock,
  and when no thread can go on all have returned, the lock is free, and the heap and every
  context's kernel are those of \<open>n\<close> indivisible calls in a row.
\<close>
theorem kernel_threads_finish:
  assumes "no_kernel_yet w" and "thread_run singleton_step k (replicate n Calling, unlocked w) (ps, p)"
  shows "k \<le> 7 * n \<and>
    (\<exists>j y. thread_run singleton_step j (ps, p) y \<and> (\<forall>z. \<not> thread_step singleton_step y z)) \<and>
    ((\<forall>z. \<not> thread_step singleton_step (ps, p) z) \<longrightarrow>
       heap p = (make_again ^^ n) w \<and> m_mutex p = None \<and>
       (\<forall>t < n. ps ! t =
          Made (kernel_ref (fst (snd (make_kernel no_context ((make_again ^^ t) w)))))))"
proof (intro conjI impI allI)
  have "k + kt.remaining (ps, p) \<le> kt.remaining (replicate n Calling, unlocked w)"
    by (rule kt.run_bounded [OF assms(2)])
  then show "k \<le> 7 * n" by (simp add: kt.remaining_def sum_list_replicate)
  show "\<exists>j y. thread_run singleton_step j (ps, p) y \<and> (\<forall>z. \<not> thread_step singleton_step y z)"
    by (rule kt.run_ends)
  have a: "kt.asserted w n (ps, p)" by (rule kt.asserted_run [OF assms(2) started [OF assms(1)]])
  assume "\<forall>z. \<not> thread_step singleton_step (ps, p) z"
  note r = rests_made [OF a this]
  then show "m_mutex p = None" by simp
  show "heap p = (make_again ^^ n) w"
  proof (cases n)
    case 0
    with assms(2) show ?thesis
      using \<open>k \<le> 7 * n\<close> by (auto elim: thread_runE simp: unlocked_def)
  qed (use r make_again_times [OF assms(1)] in simp)
  fix t assume "t < n"
  have "kernel_ref (fst (snd (make_kernel no_context ((make_again ^^ t) w)))) = Some (next_id w)"
    using assms(1) make_again_times [OF assms(1)]
    by (cases t) (simp_all add: make_kernel_def instance_of_def)
  with r \<open>t < n\<close> show "ps ! t =
      Made (kernel_ref (fst (snd (make_kernel no_context ((make_again ^^ t) w)))))" by simp
qed

definition two_callers :: "call_point list \<times> kernel_process" where
  "two_callers = (replicate 2 Calling, unlocked no_kernels)"

definition both_made :: "call_point list \<times> kernel_process" where
  "both_made = ([Made (Some 0), Made (Some 0)], unlocked (published no_kernels))"

lemma two_callers_run:
  \<comment> \<open>both pass the first test before either takes the lock\<close>
  "no_kernel_yet no_kernels"
  "thread_run singleton_step 12 two_callers both_made"
proof -
  have "scheduled singleton_step [0, 1, 1, 1, 1, 1, 1, 0, 0, 0, 0, 1] two_callers = Some both_made"
    by (simp add: two_callers_def both_made_def thread_eval unlocked_def no_kernels_def
        published_def allocated_def eval_nat_numeral)
  then show "thread_run singleton_step 12 two_callers both_made" by (rule scheduled_run) simp
qed (simp add: no_kernel_yet_def no_kernels_def)

theorem kernel_threads_agree_witness:
  "thread_run singleton_step 12 two_callers both_made \<and> faulted (snd both_made) = None \<and>
    live (heap (snd both_made)) \<subseteq> {0}"
  using kernel_threads_agree [OF two_callers_run(1), of 12 2 "fst both_made" "snd both_made"]
    two_callers_run(2)
  by (simp add: two_callers_def no_kernels_def)

theorem kernel_threads_finish_witness:
  "thread_run singleton_step 12 two_callers both_made \<and> (12::nat) \<le> 14 \<and>
    heap (snd both_made) = (make_again ^^ 2) no_kernels"
proof -
  have "\<not> thread_step singleton_step both_made z" for z
    by (auto simp: both_made_def singleton_step_def less_Suc_eq split: if_splits elim!: thread_stepE)
  then show ?thesis
    using kernel_threads_finish [OF two_callers_run(1), of 12 2 "fst both_made" "snd both_made"]
      two_callers_run(2)
    by (simp add: two_callers_def)
qed

end
