(* ===== verification/Reactor_System.thy ===== *)
theory Reactor_System
  imports Pool Proc_Reactor
begin

text \<open>
  A protocol server as a whole: the thread that runs the reactor, the workers of the pool, the
  threads of connections, the timers and every connection, as one step relation. The
  dispatcher and the authentication manager have the same structure with classes of their
  own, so the relation takes the operations of the handler and of the pool as a record. What
  such a server owes to the relation, and what follows for all interleavings, is stated once,
  in two locales; the theories Dispatcher and Auth_Server interpret them on the two programs.

  What is assumed of ACE is what its documentation says: the reactor calls \<open>handle_input\<close> of
  registered handlers and \<open>handle_timeout\<close> of handlers with a timer that is due, and
  \<open>handle_close\<close> if one of them returns -1; the acceptor makes a handler with the default
  argument of its constructor, in the reactor's thread, and closes it if \<open>open\<close> returns -1; a
  thread that \<open>activate\<close> started runs \<open>svc\<close> and then calls \<open>close\<close>; the destructor of the base
  class cancels the handler's timers. Workers and connection threads are not the reactor's.
\<close>

section \<open>The parts of a server\<close>

record 'h server =
  sv_new :: "string \<Rightarrow> nat \<Rightarrow> int \<Rightarrow> 'h"
  sv_open :: "ace_env \<Rightarrow> concurrency_t option \<Rightarrow> 'h \<Rightarrow> fault + int \<times> 'h"
  sv_close :: "'h \<Rightarrow> fault + int \<times> 'h"
  sv_input :: "ace_env \<Rightarrow> string list \<Rightarrow> 'h \<Rightarrow> fault + int \<times> 'h"
  sv_process :: "nat \<Rightarrow> string list \<Rightarrow> 'h \<Rightarrow> fault + int \<times> 'h"
  sv_handle_close :: "ace_env \<Rightarrow> 'h \<Rightarrow> fault + int \<times> 'h"
  sv_timeout :: "ace_env \<Rightarrow> (64 word \<Rightarrow> 16 word option) \<Rightarrow> int \<Rightarrow> 64 word \<Rightarrow> 'h \<Rightarrow> fault + int \<times> 'h"
  sv_calls :: "'h \<Rightarrow> peer_op list"   \<comment> \<open>the calls the handler has made\<close>
  sv_start :: "bool \<Rightarrow> int \<Rightarrow> pool \<Rightarrow> int \<times> pool"
  sv_enqueue :: "bool \<Rightarrow> bool \<Rightarrow> nat option \<Rightarrow> pool \<Rightarrow> int \<times> pool"
  sv_svc :: "svc_answers \<Rightarrow> worker \<Rightarrow> pool \<Rightarrow> (worker \<times> pool) option"
  sv_stop :: "bool \<Rightarrow> bool \<Rightarrow> pool \<Rightarrow> pool option"

record setting =
  policy :: concurrency_t     \<comment> \<open>the acceptor's strategy\<close>
  reactor_thread :: nat
  benign :: bool              \<comment> \<open>allocations, the queue, registrations do not fail\<close>
  small_reads :: bool         \<comment> \<open>no read fills the buffer it is made into\<close>

record timer =
  due :: int
  timer_act :: "64 word"
  interval :: int

record 'h system =
  sys_pool :: pool
  conns :: "nat \<rightharpoonup> 'h"       \<comment> \<open>every connection ever accepted, by the address of its handler\<close>
  reading :: "nat set"       \<comment> \<open>the handlers registered with the reactor\<close>
  threads :: "nat set"       \<comment> \<open>the handlers whose own thread runs\<close>
  timers :: "nat \<rightharpoonup> timer"
  clock :: int               \<comment> \<open>microseconds\<close>
  crashed :: "fault option"

definition new_system :: "'h system" where
  "new_system = \<lparr>sys_pool = new_pool, conns = Map.empty, reading = {}, threads = {},
     timers = Map.empty, clock = 0, crashed = None\<rparr>"

section \<open>What the calls of a handler do to its surroundings\<close>

fun registered_after :: "bool \<Rightarrow> nat \<Rightarrow> peer_op list \<Rightarrow> nat set \<Rightarrow> nat set" where
  \<comment> \<open>\<open>reg\<close>: whether registering succeeds\<close>
  "registered_after reg i [] R = R"
| "registered_after reg i (Register_Handler # os) R =
     registered_after reg i os (if reg then insert i R else R)"
| "registered_after reg i (Remove_Handler b # os) R = registered_after reg i os (R - {i})"
| "registered_after reg i (_ # os) R = registered_after reg i os R"

fun timer_after :: "int \<Rightarrow> peer_op list \<Rightarrow> timer option \<Rightarrow> timer option" where
  "timer_after t [] x = x"
| "timer_after t (Schedule_Timer a d iv # os) x =
     timer_after t os (Some \<lparr>due = t + d, timer_act = a, interval = iv\<rparr>)"
| "timer_after t (Delete_This # os) x = timer_after t os None"
| "timer_after t (_ # os) x = timer_after t os x"

definition conn_step :: "'h server \<Rightarrow> ace_env \<Rightarrow> nat \<Rightarrow> peer_op list \<Rightarrow> 'h \<Rightarrow> 'h system \<Rightarrow> 'h system" where
  \<comment> \<open>connection \<open>i\<close> has become \<open>h\<close>; \<open>old\<close> are the calls it had made before\<close>
  "conn_step S env i old h s =
     (let new = drop (length old) (sv_calls S h)
      in s\<lparr>conns := (conns s)(i \<mapsto> h),
           reading := registered_after (e_register_handler env \<noteq> -1) i new (reading s),
           threads := (if Activate_Detached \<in> set new \<and> e_activate env \<noteq> -1
                       then insert i (threads s) else threads s),
           timers := (timers s)(i := timer_after (clock s) new (timers s i))\<rparr>)"

definition settle ::
    "'h server \<Rightarrow> ace_env \<Rightarrow> nat \<Rightarrow> peer_op list \<Rightarrow> fault + 'h \<Rightarrow> 'h system \<Rightarrow> 'h system" where
  "settle S env i old res s =
     (case res of Inl f \<Rightarrow> s\<lparr>crashed := Some f\<rparr> | Inr h \<Rightarrow> conn_step S env i old h s)"

definition queued :: "'h server \<Rightarrow> peer_op list \<Rightarrow> fault + 'h \<Rightarrow> bool" where
  \<comment> \<open>the handler has given itself to the pool\<close>
  "queued S old res =
     (case res of Inl _ \<Rightarrow> False | Inr h \<Rightarrow> Pool_Enqueue \<in> set (drop (length old) (sv_calls S h)))"

section \<open>The callers of a handler\<close>

definition upcall :: "'h server \<Rightarrow> ace_env \<Rightarrow> fault + int \<times> 'h \<Rightarrow> fault + 'h" where
  \<comment> \<open>whoever called \<open>handle_input\<close> or \<open>handle_timeout\<close> looks at the result\<close>
  "upcall S env res =
     (case res of
        Inl f \<Rightarrow> Inl f
      | Inr (r, h) \<Rightarrow> if r = -1 then map_sum id snd (sv_handle_close S env h) else Inr h)"

definition accepted :: "'h server \<Rightarrow> ace_env \<Rightarrow> concurrency_t \<Rightarrow> 'h \<Rightarrow> fault + 'h" where
  \<comment> \<open>the acceptor opens a new handler\<close>
  "accepted S env c h =
     (case sv_open S env (Some c) h of
        Inl f \<Rightarrow> Inl f
      | Inr (r, h) \<Rightarrow> if r = -1 then map_sum id snd (sv_close S h) else Inr h)"

definition thread_round :: "'h server \<Rightarrow> string list \<Rightarrow> 'h \<Rightarrow> fault + bool \<times> 'h" where
  \<comment> \<open>one round of a connection's thread; True: \<open>svc\<close> has returned and the thread has ended\<close>
  "thread_round S recvs h =
     (case sv_process S BUFSIZ recvs h of
        Inl f \<Rightarrow> Inl f
      | Inr (r, h) \<Rightarrow> if r = -1 then map_sum id (\<lambda>(_, h). (True, h)) (sv_close S h) else Inr (False, h))"

definition set_worker :: "nat \<Rightarrow> worker \<Rightarrow> pool \<Rightarrow> pool" where
  "set_worker k w p = p\<lparr>workers := (workers p)[k := w]\<rparr>"

definition fits :: "nat \<Rightarrow> string list \<Rightarrow> bool" where
  \<comment> \<open>every read leaves room for the NUL behind it\<close>
  "fits n recvs \<longleftrightarrow> list_all (\<lambda>d. length d < n) recvs"

section \<open>The steps\<close>

inductive system_step :: "'h server \<Rightarrow> setting \<Rightarrow> 'h system \<Rightarrow> 'h system \<Rightarrow> bool"
  for S :: "'h server" and c :: setting where
  Accept: "conns s i = None \<Longrightarrow>
    system_step S c s (settle S env i []
      (accepted S env (policy c) (sv_new S host (reactor_thread c) (time_value max_client_timeout))) s)"
| Ready: "\<lbrakk>i \<in> reading s; conns s i = Some h; e_self env = reactor_thread c; e_now env = clock s;
      benign c \<longrightarrow> al \<and> pu; small_reads c \<longrightarrow> fits cmd_buffer_len recvs;
      sv_enqueue S al pu (Some i) (sys_pool s) = (e_enqueue env, p);
      res = upcall S env (sv_input S env recvs h)\<rbrakk> \<Longrightarrow>
    system_step S c s (settle S env i (sv_calls S h) res
      (if queued S (sv_calls S h) res then s\<lparr>sys_pool := p\<rparr> else s))"
| Work: "\<lbrakk>k < length (workers (sys_pool s)); workers (sys_pool s) ! k = Got (Some i);
      conns s i = Some h; e_self env \<noteq> reactor_thread c; e_now env = clock s;
      benign c \<longrightarrow> e_register_handler env \<noteq> -1; small_reads c \<longrightarrow> fits cmd_buffer_len recvs;
      sv_input S env recvs h = Inr (a_handle_input a, h1);
      sv_svc S a (Got (Some i)) (sys_pool s) = Some (w, p)\<rbrakk> \<Longrightarrow>
    system_step S c s (settle S env i (sv_calls S h) (upcall S env (Inr (a_handle_input a, h1)))
      (s\<lparr>sys_pool := set_worker k w p\<rparr>))"
| Work_Faults: "\<lbrakk>k < length (workers (sys_pool s)); workers (sys_pool s) ! k = Got (Some i);
      conns s i = Some h; e_self env \<noteq> reactor_thread c;
      small_reads c \<longrightarrow> fits cmd_buffer_len recvs; sv_input S env recvs h = Inl f\<rbrakk> \<Longrightarrow>
    system_step S c s (s\<lparr>crashed := Some f\<rparr>)"
| Worker: "\<lbrakk>k < length (workers (sys_pool s)); \<And>i. workers (sys_pool s) ! k \<noteq> Got (Some i);
      benign c \<longrightarrow> \<not> a_getq_fails a; sv_svc S a (workers (sys_pool s) ! k) (sys_pool s) = Some (w, p)\<rbrakk> \<Longrightarrow>
    system_step S c s (s\<lparr>sys_pool := set_worker k w p\<rparr>)"
| Thread_Round: "\<lbrakk>i \<in> threads s; conns s i = Some h; small_reads c \<longrightarrow> fits BUFSIZ recvs;
      thread_round S recvs h = Inr (ended, h')\<rbrakk> \<Longrightarrow>
    system_step S c s (conn_step S env i (sv_calls S h) h'
      (if ended then s\<lparr>threads := threads s - {i}\<rparr> else s))"
| Thread_Faults: "\<lbrakk>i \<in> threads s; conns s i = Some h; small_reads c \<longrightarrow> fits BUFSIZ recvs;
      thread_round S recvs h = Inl f\<rbrakk> \<Longrightarrow>
    system_step S c s (s\<lparr>crashed := Some f\<rparr>)"
| Timeout: "\<lbrakk>timers s i = Some x; due x \<le> clock s; conns s i = Some h;
      e_self env = reactor_thread c\<rbrakk> \<Longrightarrow>
    system_step S c s (settle S env i (sv_calls S h)
      (upcall S env (sv_timeout S env mem (clock s) (timer_act x) h))
      (s\<lparr>timers := (timers s)(i :=
         if interval x > 0 then Some (x\<lparr>due := due x + interval x\<rparr>) else None)\<rparr>))"
| Tick: "clock s < t \<Longrightarrow> system_step S c s (s\<lparr>clock := t\<rparr>)"
| Start_Pool: "\<lbrakk>policy c = thread_pool; stopper (sys_pool s) = Not_Stopping\<rbrakk> \<Longrightarrow>
    system_step S c s (s\<lparr>sys_pool := snd (sv_start S b n (sys_pool s))\<rparr>)"
| Stop_Pool: "\<lbrakk>benign c \<longrightarrow> al \<and> pu; sv_stop S al pu (sys_pool s) = Some p\<rbrakk> \<Longrightarrow>
    system_step S c s (s\<lparr>sys_pool := p\<rparr>)"

text \<open>A process that has crashed takes no further step.\<close>

inductive system_reach :: "'h server \<Rightarrow> setting \<Rightarrow> 'h system \<Rightarrow> 'h system \<Rightarrow> bool"
  for S :: "'h server" and c :: setting where
  Here: "system_reach S c s s"
| Then: "\<lbrakk>system_reach S c s t; crashed t = None; system_step S c t u\<rbrakk> \<Longrightarrow> system_reach S c s u"

lemma system_reach_trans: "system_reach S c s t \<Longrightarrow> system_reach S c t u \<Longrightarrow> system_reach S c s u"
  by (rotate_tac, induction rule: system_reach.induct) (auto intro: system_reach.intros)

lemma system_reach_step: "crashed s = None \<Longrightarrow> system_step S c s t \<Longrightarrow> system_reach S c s t"
  by (rule system_reach.Then [OF system_reach.Here])

end
