(* ===== verification/Server_Contract.thy ===== *)
theory Server_Contract
  imports Reactor_System
begin

text \<open>
  What a connection handler and its pool owe to the server they are part of, as a locale over
  the relation of Reactor_System, and the invariants that follow for all interleavings: who
  owns a connection, which timers are armed, and what can bring the process down.
\<close>

section \<open>Registrations\<close>

lemma registered_append [simp]:
  "registered_after reg i (xs @ ys) R = registered_after reg i ys (registered_after reg i xs R)"
  by (induction reg i xs R rule: registered_after.induct) auto

lemma registered_sends [simp]: "registered_after reg i (map Send_n xs) R = R"
  by (induction xs) auto

lemma timer_append [simp]: "timer_after t (xs @ ys) x = timer_after t ys (timer_after t xs x)"
  by (induction t xs x rule: timer_after.induct) auto

lemma timer_sends [simp]: "timer_after t (map Send_n xs) x = x"
  by (induction xs) auto

lemma conn_step_sel [simp]:
  "conns (conn_step S env i old h s) = (conns s)(i \<mapsto> h)"
  "sys_pool (conn_step S env i old h s) = sys_pool s"
  "clock (conn_step S env i old h s) = clock s"
  "crashed (conn_step S env i old h s) = crashed s"
  "reading (conn_step S env i old h s) =
     registered_after (e_register_handler env \<noteq> -1) i (drop (length old) (sv_calls S h)) (reading s)"
  "threads (conn_step S env i old h s) =
     (if Activate_Detached \<in> set (drop (length old) (sv_calls S h)) \<and> e_activate env \<noteq> -1
      then insert i (threads s) else threads s)"
  "timers (conn_step S env i old h s) =
     (timers s)(i := timer_after (clock s) (drop (length old) (sv_calls S h)) (timers s i))"
  by (simp_all add: conn_step_def Let_def)

section \<open>Who holds a connection\<close>

definition owned :: "'h system \<Rightarrow> nat multiset" where
  \<comment> \<open>once for each of: the reactor, its own thread, a message in the queue, the hands of a worker\<close>
  "owned s = mset_set (reading s) + mset_set (threads s) + handlers (msg_queue (sys_pool s)) +
     in_hands (workers (sys_pool s))"

lemma count_owned: "finite (reading s) \<Longrightarrow> finite (threads s) \<Longrightarrow>
    count (owned s) j = (if j \<in> reading s then 1 else 0) + (if j \<in> threads s then 1 else 0) +
      count (handlers (msg_queue (sys_pool s))) j + count (in_hands (workers (sys_pool s))) j"
  by (simp add: owned_def)

lemma enqueue_handlers:
  assumes "enqueue al pu v p = (r, q)"
  shows "workers q = workers p \<and> (r = -1 \<and> msg_queue q = msg_queue p \<or>
    r = 0 \<and> msg_queue q = msg_queue p @ [v])"
  using assms by (auto simp: enqueue_def Let_def split: if_splits)

lemma stop_step_handlers: "stop_step al pu p = Some q \<Longrightarrow>
    workers q = workers p \<and> handlers (msg_queue q) = handlers (msg_queue p)"
  by (auto simp: stop_step_def enqueue_def Let_def split: stop_state.splits if_splits)

lemma svc_step_handlers:
  assumes n: "\<And>i. w0 \<noteq> Got (Some i)" and s: "svc_step a w0 p = Some (w, q)"
  shows "handlers (msg_queue q) + in_hand w = handlers (msg_queue p) + in_hand w0"
proof (cases w0)
  case Starting
  with s have "in_hand w = {#}" "msg_queue q = msg_queue p"
    by (cases "a_cancelled a"; clarsimp simp: counter_guard_def)+
  with Starting show ?thesis by simp
next
  case Waiting
  show ?thesis
  proof (cases "a_getq_fails a")
    case True
    with Waiting s have "w = Done" "msg_queue q = msg_queue p" by (auto simp: guard_defs)
    with Waiting show ?thesis by simp
  next
    case False
    with Waiting s obtain m ms where "msg_queue p = m # ms" "w = Got m" "msg_queue q = ms"
      by (auto split: list.splits)
    with Waiting show ?thesis by (cases m) simp_all
  qed
next
  case (Got m)
  with n have "m = None" by (cases m) auto
  with Got s have "w = Done" "msg_queue q = msg_queue p" by (auto simp: guard_defs)
  with Got \<open>m = None\<close> show ?thesis by simp
next
  case Done
  with s show ?thesis by simp
qed

lemma worker_handlers:
  assumes k: "k < length (workers p)" and n: "\<And>i. workers p ! k \<noteq> Got (Some i)"
    and s: "svc_step a (workers p ! k) p = Some (w, q)"
  shows "handlers (msg_queue (set_worker k w q)) + in_hands (workers (set_worker k w q)) =
    handlers (msg_queue p) + in_hands (workers p)"
proof -
  have fr: "workers q = workers p" using svc_frame [OF s] by simp
  have "in_hands ((workers p)[k := w]) + in_hand (workers p ! k) =
      in_hands (workers p) + in_hand w"
    by (rule in_hands_update [OF k])
  with svc_step_handlers [OF n s]
  have "(handlers (msg_queue q) + in_hands ((workers p)[k := w])) +
      (in_hand w + in_hand (workers p ! k)) =
      (handlers (msg_queue p) + in_hands (workers p)) + (in_hand w + in_hand (workers p ! k))"
    by (metis (no_types, lifting) add.assoc add.commute add.left_commute)
  then show ?thesis by (simp add: set_worker_def fr)
qed

lemma in_hand_owned:
  assumes "k < length (workers p)" "workers p ! k = Got (Some i)"
  shows "in_hands (workers p) = add_mset i (in_hands ((workers p)[k := Waiting]))"
  using in_hands_update [OF assms(1), of Waiting] assms(2) by simp

lemma in_hand_twice:
  assumes "k < length ws" "l < length ws" "k \<noteq> l" "ws ! k = Got (Some i)" "ws ! l = Got (Some i)"
  shows "2 \<le> count (in_hands ws) i"
proof -
  have "in_hands ws = add_mset i (in_hands (ws[k := Waiting]))"
    using in_hand_owned [of k "new_pool\<lparr>workers := ws\<rparr>"] assms by simp
  moreover have "in_hands (ws[k := Waiting]) = add_mset i (in_hands (ws[k := Waiting, l := Waiting]))"
    using in_hand_owned [of l "new_pool\<lparr>workers := ws[k := Waiting]\<rparr>"] assms by simp
  ultimately show ?thesis by simp
qed

section \<open>The contract\<close>

definition open_calls :: "concurrency_t \<Rightarrow> ace_env \<Rightarrow> int \<Rightarrow> peer_op list" where
  \<comment> \<open>what \<open>open\<close> does after its greeting\<close>
  "open_calls c env mx =
     Schedule_Timer (void_ptr timer_id) mx (time_value (tv_sec mx sdiv 60)) #
     (if c = thread_per_connection then [Activate_Detached]
      else Set_Reactor #
        (if e_get_remote_addr env = -1 then []
         else Register_Handler #
           (if e_register_handler env = -1 then []
            else [Log_Line (''connected with '' @ e_host_name env)])))"

definition open_result :: "concurrency_t \<Rightarrow> ace_env \<Rightarrow> int" where
  "open_result c env =
     (if c = thread_per_connection then e_activate env
      else if e_get_remote_addr env = -1 \<or> e_register_handler env = -1 then -1 else 0)"

locale connection_server =
  fixes S :: "'h server"
    and alive :: "concurrency_t \<Rightarrow> nat \<Rightarrow> 'h \<Rightarrow> bool"
    and gone :: "'h \<Rightarrow> bool"
  assumes pool_law: "sv_start S = start" "sv_enqueue S = enqueue" "sv_svc S = svc_step"
      "sv_stop S = stop_step"
    and alive_not_gone: "alive c self h \<Longrightarrow> \<not> gone h"
    and open_law: "\<exists>h hello. sv_open S env (Some c) (sv_new S host self mx) = Inr (open_result c env, h) \<and>
      alive c self h \<and> sv_calls S h = Send_n hello # open_calls c env mx"
    and queue_law: "alive thread_pool self h \<Longrightarrow> e_self env = self \<Longrightarrow>
      \<exists>h1. sv_input S env recvs h = Inr (e_enqueue env, h1) \<and> alive thread_pool self h1 \<and>
        sv_calls S h1 = sv_calls S h @ [Remove_Handler True, Pool_Enqueue]"
    and input_law: "alive c self h \<Longrightarrow> c \<noteq> thread_pool \<or> e_self env \<noteq> self \<Longrightarrow>
      sv_input S env recvs h = Inr (r, h1) \<Longrightarrow>
      alive c self h1 \<and> (\<exists>out. sv_calls S h1 = sv_calls S h @ map Send_n out @
        (if c = thread_pool \<and> r \<noteq> -1 then [Register_Handler] else []))"
    and input_fault: "alive c self h \<Longrightarrow> sv_input S env recvs h = Inl f \<Longrightarrow>
      f = Overread \<and> \<not> fits cmd_buffer_len recvs"
    and process_law: "alive c self h \<Longrightarrow> sv_process S BUFSIZ recvs h = Inr (r, h1) \<Longrightarrow>
      alive c self h1 \<and> (\<exists>out. sv_calls S h1 = sv_calls S h @ map Send_n out)"
    and process_fault: "alive c self h \<Longrightarrow> sv_process S BUFSIZ recvs h = Inl f \<Longrightarrow>
      f = Overread \<and> \<not> fits BUFSIZ recvs"
    and close_law: "\<not> gone h \<Longrightarrow> \<exists>h1. sv_close S h = Inr (0, h1) \<and> gone h1 \<and>
      sv_calls S h1 = sv_calls S h @ [Remove_Handler True, Delete_This, Peer_Close]"
    and handle_close_law: "\<not> gone h \<Longrightarrow> \<exists>h1 bye. sv_handle_close S env h = Inr (0, h1) \<and> gone h1 \<and>
      sv_calls S h1 = sv_calls S h @ map Send_n bye @ [Remove_Handler True, Delete_This, Peer_Close]"
    and timeout_law: "alive c self h \<Longrightarrow>
      sv_timeout S env mem now (void_ptr timer_id) h = Inl Null_Deref"
begin

lemma upcall_cases:
  assumes "\<not> gone h"
  obtains "r \<noteq> -1" "upcall S env (Inr (r, h)) = Inr h"
  | h1 bye where "r = -1" "upcall S env (Inr (r, h)) = Inr h1" "gone h1"
      "sv_calls S h1 = sv_calls S h @ map Send_n bye @ [Remove_Handler True, Delete_This, Peer_Close]"
  using handle_close_law [OF assms, of env] that by (cases "r = -1") (auto simp: upcall_def)

definition fresh_timer :: "'h system \<Rightarrow> timer option \<Rightarrow> bool" where
  \<comment> \<open>armed with the null pointer, to expire within the time a client may be idle, and again
    after every thirty seconds\<close>
  "fresh_timer s x \<longleftrightarrow> (\<exists>t. x = Some t \<and> timer_act t = void_ptr timer_id \<and>
     time_value max_client_timeout \<le> due t \<and> interval t = time_value 30 \<and>
     due t \<le> clock s + time_value max_client_timeout)"

definition books :: "setting \<Rightarrow> 'h system \<Rightarrow> bool" where
  \<comment> \<open>which of the owners the strategy uses\<close>
  "books c s \<longleftrightarrow> 0 \<le> clock s \<and> finite (reading s) \<and> finite (threads s) \<and>
     (policy c \<noteq> thread_pool \<longrightarrow> handlers (msg_queue (sys_pool s)) = {#} \<and>
        in_hands (workers (sys_pool s)) = {#}) \<and>
     (policy c = thread_per_connection \<longrightarrow> reading s = {}) \<and>
     (policy c \<noteq> thread_per_connection \<longrightarrow> threads s = {})"

definition owners :: "setting \<Rightarrow> 'h system \<Rightarrow> bool" where
  "owners c s \<longleftrightarrow> (\<forall>i. count (owned s) i \<le> 1) \<and>
     (\<forall>i. i \<in># owned s \<longrightarrow> (\<exists>h. conns s i = Some h \<and> \<not> gone h)) \<and>
     (benign c \<longrightarrow> (\<forall>i h. conns s i = Some h \<longrightarrow> \<not> gone h \<longrightarrow> i \<in># owned s))"

definition armed :: "setting \<Rightarrow> 'h system \<Rightarrow> bool" where
  "armed c s \<longleftrightarrow> (\<forall>i h. conns s i = Some h \<longrightarrow> \<not> gone h \<longrightarrow>
       alive (policy c) (reactor_thread c) h \<and> fresh_timer s (timers s i)) \<and>
     (\<forall>i. timers s i \<noteq> None \<longrightarrow> (\<exists>h. conns s i = Some h \<and> \<not> gone h))"

definition sys_inv :: "setting \<Rightarrow> 'h system \<Rightarrow> bool" where
  "sys_inv c s \<longleftrightarrow> books c s \<and> owners c s \<and> armed c s"

lemmas sys_inv_defs = sys_inv_def books_def owners_def armed_def

lemma new_system_inv: "sys_inv c new_system"
  by (simp add: sys_inv_defs owned_def new_system_def new_pool_def)

lemma owners_conn:
  assumes "owners c s" and c: "conns t = (conns s)(i \<mapsto> h)"
    and n: "\<And>j. count (owned t) j = (if j = i then n else count (owned s) j)" "n \<le> 1"
    and h: "n = 1 \<Longrightarrow> \<not> gone h" "benign c \<Longrightarrow> \<not> gone h \<Longrightarrow> n = 1"
  shows "owners c t"
proof -
  have m: "j \<in># owned t \<longleftrightarrow> (if j = i then n = 1 else j \<in># owned s)" for j
    using n(2) by (simp only: count_greater_zero_iff [symmetric] n(1)) auto
  have one: "count (owned t) j \<le> 1" for j
    using assms(1) n by (simp add: owners_def)
  have held: "\<exists>g. conns t j = Some g \<and> \<not> gone g" if "j \<in># owned t" for j
    using that assms(1) c h(1) m [of j] by (cases "j = i") (auto simp: owners_def)
  have all: "j \<in># owned t" if "benign c" "conns t j = Some g" "\<not> gone g" for j g
    using that assms(1) c h(2) m [of j] by (cases "j = i") (auto simp: owners_def)
  show ?thesis unfolding owners_def using one held all by blast
qed

lemma armed_conn:
  assumes "armed c s" "conns t = (conns s)(i \<mapsto> h)" "clock t = clock s" "timers t = (timers s)(i := x)"
    and "\<not> gone h \<Longrightarrow> alive (policy c) (reactor_thread c) h \<and> fresh_timer s x" "gone h \<Longrightarrow> x = None"
  shows "armed c t"
  using assms by (auto simp: armed_def fresh_timer_def)

lemma armed_frame:
  "armed c s \<Longrightarrow> conns t = conns s \<Longrightarrow> timers t = timers s \<Longrightarrow> clock s \<le> clock t \<Longrightarrow> armed c t"
  by (fastforce simp: armed_def fresh_timer_def)

lemma sys_inv_frame:
  assumes "sys_inv c s" "conns t = conns s" "timers t = timers s" "clock s \<le> clock t"
    and "reading t = reading s" "threads t = threads s"
    and q: "handlers (msg_queue (sys_pool t)) + in_hands (workers (sys_pool t)) =
      handlers (msg_queue (sys_pool s)) + in_hands (workers (sys_pool s))"
  shows "sys_inv c t"
proof -
  have "owned t = owned s" using assms by (simp add: owned_def add.assoc)
  moreover have "policy c \<noteq> thread_pool \<Longrightarrow> handlers (msg_queue (sys_pool t)) = {#} \<and>
      in_hands (workers (sys_pool t)) = {#}"
    using assms(1) q by (simp add: sys_inv_def books_def)
  ultimately show ?thesis
    using assms armed_frame [of c s t] by (simp add: sys_inv_def books_def owners_def)
qed

lemma free_conn:
  assumes "sys_inv c s" "conns s i = None"
  shows "count (owned s) i = 0" "i \<notin> reading s" "i \<notin> threads s" "timers s i = None"
proof -
  show c: "count (owned s) i = 0"
    using assms by (auto simp: sys_inv_defs not_in_iff [symmetric])
  have "finite (reading s)" "finite (threads s)" using assms(1) by (simp_all add: sys_inv_defs)
  from c show "i \<notin> reading s" "i \<notin> threads s"
    by (auto simp: count_owned [OF \<open>finite (reading s)\<close> \<open>finite (threads s)\<close>] split: if_splits)
  show "timers s i = None"
    using assms unfolding sys_inv_def armed_def by (metis option.distinct(1))
qed

lemma held_conn:
  assumes "sys_inv c s" "0 < count (owned s) i" "conns s i = Some h"
  shows "count (owned s) i = 1" "alive (policy c) (reactor_thread c) h" "\<not> gone h"
    "fresh_timer s (timers s i)"
proof -
  have "count (owned s) i \<le> 1" using assms(1) by (simp add: sys_inv_defs)
  with assms(2) show "count (owned s) i = 1" by linarith
  have "i \<in># owned s" using assms(2) by simp
  with assms(1,3) show "\<not> gone h" by (auto simp: sys_inv_defs)
  with assms(1,3) show "alive (policy c) (reactor_thread c) h" "fresh_timer s (timers s i)"
    by (auto simp: sys_inv_defs)
qed

end

end
