(* ===== verification/Server_Invariants.thy ===== *)
theory Server_Invariants
  imports Server_Contract
begin

text \<open>
  The invariants of Server_Contract hold after every step of the relation, and what they say
  of a reachable state: the owners, the timers and the causes of a crash.
\<close>

lemma open_effect [simp]:
  "registered_after (e_register_handler env \<noteq> -1) i (open_calls c env mx) R =
     (if c \<noteq> thread_per_connection \<and> open_result c env \<noteq> -1 then insert i R else R)"
  "Activate_Detached \<in> set (open_calls c env mx) \<longleftrightarrow> c = thread_per_connection"
  "timer_after t (open_calls c env mx) x =
     Some \<lparr>due = t + mx, timer_act = void_ptr timer_id, interval = time_value (tv_sec mx sdiv 60)\<rparr>"
  by (simp_all add: open_calls_def open_result_def)

lemma default_interval: "max_client_timeout sdiv 60 = 30"
  by (simp add: max_client_timeout_def)

context connection_server begin

lemma accept_inv:
  assumes inv: "sys_inv c s" and n: "conns s i = None"
  shows "sys_inv c (settle S env i [] (accepted S env (policy c)
    (sv_new S host (reactor_thread c) (time_value max_client_timeout))) s)"
proof -
  let ?mx = "time_value max_client_timeout"
  note free = free_conn [OF inv n]
  have fin: "finite (reading s)" "finite (threads s)" using inv by (simp_all add: sys_inv_defs)
  obtain h hello where h: "sv_open S env (Some (policy c)) (sv_new S host (reactor_thread c) ?mx) =
      Inr (open_result (policy c) env, h)" "alive (policy c) (reactor_thread c) h"
      "sv_calls S h = Send_n hello # open_calls (policy c) env ?mx"
    using open_law by blast
  have live: "\<not> gone h" by (rule alive_not_gone [OF h(2)])
  show ?thesis
  proof (cases "open_result (policy c) env = -1")
    case True
    obtain g where g: "sv_close S h = Inr (0, g)" "gone g"
        "sv_calls S g = sv_calls S h @ [Remove_Handler True, Delete_This, Peer_Close]"
      using close_law [OF live] by blast
    let ?t = "conn_step S env i [] g s"
    have r: "reading ?t = reading s" "threads ?t = threads s" "timers ?t = (timers s)(i := None)"
      using True free by (auto simp: g(3) h(3) open_result_def split: if_splits)
    have "owners c ?t"
      by (rule owners_conn [where s = s and i = i and h = g and n = 0])
        (use inv free g r in \<open>auto simp: sys_inv_def owned_def\<close>)
    moreover have "armed c ?t"
      by (rule armed_conn [where s = s and i = i and h = g and x = None])
        (use inv g r in \<open>simp_all add: sys_inv_def\<close>)
    moreover have "books c ?t"
      unfolding books_def r using inv by (simp add: sys_inv_def books_def)
    ultimately have "sys_inv c ?t" by (simp add: sys_inv_def)
    with True h g show ?thesis by (simp add: settle_def accepted_def)
  next
    case False
    let ?t = "conn_step S env i [] h s"
    have r: "reading ?t = (if policy c = thread_per_connection then reading s else insert i (reading s))"
      "threads ?t = (if policy c = thread_per_connection then insert i (threads s) else threads s)"
      using False by (auto simp: h(3) open_result_def)
    have "owners c ?t"
      by (rule owners_conn [where s = s and i = i and h = h and n = 1])
        (use inv free live r fin in \<open>auto simp: sys_inv_def owned_def\<close>)
    moreover have "armed c ?t"
      by (rule armed_conn [where s = s and i = i and h = h and x = "timers ?t i"])
        (use inv h live in \<open>simp_all add: sys_inv_def books_def fresh_timer_def default_interval\<close>)
    moreover have "books c ?t"
      unfolding books_def r using inv by (simp add: sys_inv_def books_def)
    ultimately have "sys_inv c ?t" by (simp add: sys_inv_def)
    with False h show ?thesis by (simp add: settle_def accepted_def)
  qed
qed

text \<open>
  A turn: whoever holds connection \<open>i\<close> calls it; afterwards it is closed and gone, or it is
  alive and passed on.
\<close>

lemma closed_inv:
  assumes inv: "sys_inv c s" and g: "gone g"
    and u: "conns u = (conns s)(i \<mapsto> g)" "clock u = clock s" "timers u = (timers s)(i := None)"
    and b: "books c u" and n: "\<And>j. count (owned u) j = (if j = i then 0 else count (owned s) j)"
  shows "sys_inv c u"
proof -
  have "owners c u"
    by (rule owners_conn [where s = s and i = i and h = g and n = 0])
      (use inv g n u in \<open>simp_all add: sys_inv_def\<close>)
  moreover have "armed c u"
    by (rule armed_conn [where s = s and i = i and h = g and x = None])
      (use inv g u in \<open>simp_all add: sys_inv_def\<close>)
  ultimately show ?thesis using b by (simp add: sys_inv_def)
qed

lemma kept_inv:
  assumes inv: "sys_inv c s" and i: "0 < count (owned s) i" "conns s i = Some h"
    and g: "alive (policy c) (reactor_thread c) g"
    and u: "conns u = (conns s)(i \<mapsto> g)" "clock u = clock s" "timers u = timers s"
    and b: "books c u" and n: "\<And>j. count (owned u) j = (if j = i then n else count (owned s) j)"
      "n \<le> 1" "benign c \<Longrightarrow> n = 1"
  shows "sys_inv c u"
proof -
  have live: "\<not> gone g" using g alive_not_gone by blast
  have "owners c u"
    by (rule owners_conn [where s = s and i = i and h = g and n = n])
      (use inv live n u in \<open>simp_all add: sys_inv_def\<close>)
  moreover have "armed c u"
    by (rule armed_conn [where s = s and i = i and h = g and x = "timers s i"])
      (use inv g u live held_conn(4) [OF inv i] in \<open>simp_all add: sys_inv_def\<close>)
  ultimately show ?thesis using b by (simp add: sys_inv_def)
qed

lemma queue_inv:
  assumes inv: "sys_inv c s" and i: "i \<in> reading s" and c: "conns s i = Some h"
    and pol: "policy c = thread_pool" and self: "e_self env = reactor_thread c"
    and e: "enqueue al pu (Some i) (sys_pool s) = (e_enqueue env, p)"
    and ok: "benign c \<longrightarrow> al \<and> pu"
    and res: "res = upcall S env (sv_input S env recvs h)"
  shows "sys_inv c (settle S env i (sv_calls S h) res
    (if queued S (sv_calls S h) res then s\<lparr>sys_pool := p\<rparr> else s))"
proof -
  have b: "books c s" using inv by (simp add: sys_inv_def)
  then have fin: "finite (reading s)" "threads s = {}" using pol by (simp_all add: books_def)
  have pos: "0 < count (owned s) i" using i fin by (simp add: count_owned)
  note held = held_conn [OF inv pos c]
  have no: "count (handlers (msg_queue (sys_pool s))) i = 0"
    "count (in_hands (workers (sys_pool s))) i = 0"
    using held(1) i fin by (simp_all add: count_owned)
  obtain h1 where h1: "sv_input S env recvs h = Inr (e_enqueue env, h1)" "alive thread_pool (reactor_thread c) h1"
      "sv_calls S h1 = sv_calls S h @ [Remove_Handler True, Pool_Enqueue]"
    using queue_law [OF held(2) [unfolded pol] self] by blast
  note q = enqueue_handlers [OF e]
  show ?thesis
  proof (cases rule: upcall_cases [OF alive_not_gone [OF h1(2)], of "e_enqueue env" env])
    case 1
    let ?u = "conn_step S env i (sv_calls S h) h1 (s\<lparr>sys_pool := p\<rparr>)"
    have pool: "workers p = workers (sys_pool s)" "msg_queue p = msg_queue (sys_pool s) @ [Some i]"
      using q 1 by auto
    have u: "reading ?u = reading s - {i}" "threads ?u = {}" "timers ?u = timers s"
      by (simp_all add: h1(3) fin)
    have "sys_inv c ?u"
    proof (rule kept_inv [OF inv pos c, where g = h1 and n = 1 and u = ?u])
      show "books c ?u" unfolding books_def u using b fin pol by (simp add: books_def)
      show "count (owned ?u) j = (if j = i then 1 else count (owned s) j)" for j
        using no fin by (simp add: count_owned u pool del: conn_step_sel(5-7))
    qed (use h1 pol u in simp_all)
    with 1 h1 res show ?thesis by (simp add: settle_def queued_def)
  next
    case (2 g bye)
    let ?u = "conn_step S env i (sv_calls S h) g (s\<lparr>sys_pool := p\<rparr>)"
    have pool: "workers p = workers (sys_pool s)" "msg_queue p = msg_queue (sys_pool s)"
      using q 2(1) by auto
    have u: "reading ?u = reading s - {i}" "threads ?u = {}" "timers ?u = (timers s)(i := None)"
      using fin by (auto simp: 2(4) h1(3))
    have "sys_inv c ?u"
    proof (rule closed_inv [OF inv 2(3), where u = ?u and i = i])
      show "books c ?u" unfolding books_def u using b fin pol by (simp add: books_def)
      show "count (owned ?u) j = (if j = i then 0 else count (owned s) j)" for j
        using no fin by (simp add: count_owned u pool del: conn_step_sel(5-7))
    qed (use u in simp_all)
    with 2 h1 res show ?thesis by (simp add: settle_def queued_def)
  qed
qed

lemma direct_inv:
  assumes inv: "sys_inv c s" and i: "i \<in> reading s" and c: "conns s i = Some h"
    and pol: "policy c \<noteq> thread_pool" and res: "res = upcall S env (sv_input S env recvs h)"
  shows "sys_inv c (settle S env i (sv_calls S h) res
    (if queued S (sv_calls S h) res then s\<lparr>sys_pool := p\<rparr> else s))"
proof (cases "sv_input S env recvs h")
  case (Inl f)
  with res inv show ?thesis
    by (auto simp: upcall_def settle_def queued_def intro: sys_inv_frame)
next
  case (Inr rh)
  obtain r h1 where rh: "rh = (r, h1)" by fastforce
  have b: "books c s" using inv by (simp add: sys_inv_def)
  then have fin: "finite (reading s)" "threads s = {}" "policy c \<noteq> thread_per_connection"
    using i by (auto simp: books_def)
  have pos: "0 < count (owned s) i" using i fin by (simp add: count_owned)
  note held = held_conn [OF inv pos c]
  have no: "count (handlers (msg_queue (sys_pool s))) i = 0"
    "count (in_hands (workers (sys_pool s))) i = 0"
    using b pol by (simp_all add: books_def)
  obtain out where h1: "alive (policy c) (reactor_thread c) h1"
      "sv_calls S h1 = sv_calls S h @ map Send_n out"
    using input_law [OF held(2) disjI1 [OF pol], of env recvs r h1] Inr rh pol by auto
  show ?thesis
  proof (cases rule: upcall_cases [OF alive_not_gone [OF h1(1)], of r env])
    case 1
    let ?u = "conn_step S env i (sv_calls S h) h1 s"
    have u: "reading ?u = reading s" "threads ?u = {}" "timers ?u = timers s"
      using fin by (auto simp: h1(2))
    have "sys_inv c ?u"
    proof (rule kept_inv [OF inv pos c, where g = h1 and n = 1 and u = ?u])
      show "books c ?u" unfolding books_def u using b fin by (simp add: books_def)
      show "count (owned ?u) j = (if j = i then 1 else count (owned s) j)" for j
        using no fin held(1) by (simp add: count_owned u del: conn_step_sel(5-7))
    qed (use h1 u in simp_all)
    with 1 h1 res Inr rh show ?thesis by (auto simp: settle_def queued_def)
  next
    case (2 g bye)
    let ?u = "conn_step S env i (sv_calls S h) g s"
    have u: "reading ?u = reading s - {i}" "threads ?u = {}" "timers ?u = (timers s)(i := None)"
      using fin by (auto simp: 2(4) h1(2))
    have "sys_inv c ?u"
    proof (rule closed_inv [OF inv 2(3), where u = ?u and i = i])
      show "books c ?u" unfolding books_def u using b fin by (simp add: books_def)
      show "count (owned ?u) j = (if j = i then 0 else count (owned s) j)" for j
        using no fin by (simp add: count_owned u del: conn_step_sel(5-7))
    qed (use u in simp_all)
    with 2 h1 res Inr rh show ?thesis by (auto simp: settle_def queued_def)
  qed
qed

lemma work_inv:
  assumes inv: "sys_inv c s" and k: "k < length (workers (sys_pool s))"
    and g: "workers (sys_pool s) ! k = Got (Some i)" and c: "conns s i = Some h"
    and self: "e_self env \<noteq> reactor_thread c" and reg: "benign c \<longrightarrow> e_register_handler env \<noteq> -1"
    and hi: "sv_input S env recvs h = Inr (a_handle_input a, h1)"
    and sv: "svc_step a (Got (Some i)) (sys_pool s) = Some (w, p)"
  shows "sys_inv c (settle S env i (sv_calls S h) (upcall S env (Inr (a_handle_input a, h1)))
      (s\<lparr>sys_pool := set_worker k w p\<rparr>))"
proof -
  let ?reg = "e_register_handler env \<noteq> -1" and ?p = "set_worker k w p"
  have hands: "in_hands (workers (sys_pool s)) =
      add_mset i (in_hands ((workers (sys_pool s))[k := Waiting]))"
    by (rule in_hand_owned [OF k g])
  have b: "books c s" using inv by (simp add: sys_inv_def)
  have pol: "policy c = thread_pool" using b hands by (auto simp: books_def)
  then have fin: "finite (reading s)" "threads s = {}" using b by (simp_all add: books_def)
  then have pos: "0 < count (owned s) i" by (simp add: count_owned hands)
  note held = held_conn [OF inv pos c]
  have one: "i \<notin> reading s" "count (handlers (msg_queue (sys_pool s))) i = 0"
    "count (in_hands ((workers (sys_pool s))[k := Waiting])) i = 0"
    using held(1) fin by (auto simp: count_owned hands split: if_splits)
  have "w = Waiting \<and> workers p = workers (sys_pool s) \<and> msg_queue p = msg_queue (sys_pool s)"
    using sv by (auto simp: Let_def guard_defs)
  then have p: "msg_queue ?p = msg_queue (sys_pool s)"
    "workers ?p = (workers (sys_pool s))[k := Waiting]"
    by (simp_all add: set_worker_def)
  obtain out where h1: "alive thread_pool (reactor_thread c) h1"
      "sv_calls S h1 = sv_calls S h @ map Send_n out @
        (if a_handle_input a \<noteq> -1 then [Register_Handler] else [])"
    using input_law [OF held(2) disjI2 [OF self] hi] pol by auto
  show ?thesis
  proof (cases rule: upcall_cases [OF alive_not_gone [OF h1(1)], of "a_handle_input a" env])
    case 1
    let ?u = "conn_step S env i (sv_calls S h) h1 (s\<lparr>sys_pool := ?p\<rparr>)"
    have u: "reading ?u = (if ?reg then insert i (reading s) else reading s)" "threads ?u = {}"
        "timers ?u = timers s"
      using fin 1 by (auto simp: h1(2))
    have "sys_inv c ?u"
    proof (rule kept_inv [OF inv pos c, where g = h1 and n = "if ?reg then 1 else 0" and u = ?u])
      show "books c ?u" unfolding books_def u using b fin pol by (simp add: books_def)
      show "count (owned ?u) j = (if j = i then if ?reg then 1 else 0 else count (owned s) j)" for j
        using one fin by (simp add: count_owned u p hands del: conn_step_sel(5-7))
    qed (use h1 u reg pol in simp_all)
    with 1 show ?thesis by (simp add: settle_def)
  next
    case (2 g' bye)
    let ?u = "conn_step S env i (sv_calls S h) g' (s\<lparr>sys_pool := ?p\<rparr>)"
    have u: "reading ?u = reading s" "threads ?u = {}" "timers ?u = (timers s)(i := None)"
      using fin one 2(1) by (auto simp: 2(4) h1(2))
    have "sys_inv c ?u"
    proof (rule closed_inv [OF inv 2(3), where u = ?u and i = i])
      show "books c ?u" unfolding books_def u using b fin pol by (simp add: books_def)
      show "count (owned ?u) j = (if j = i then 0 else count (owned s) j)" for j
        using one fin by (simp add: count_owned u p hands del: conn_step_sel(5-7))
    qed (use u in simp_all)
    with 2 show ?thesis by (simp add: settle_def)
  qed
qed

lemma thread_inv:
  assumes inv: "sys_inv c s" and i: "i \<in> threads s" and c: "conns s i = Some h"
    and tr: "thread_round S recvs h = Inr (ended, h')"
  shows "sys_inv c (conn_step S env i (sv_calls S h) h' (if ended then s\<lparr>threads := threads s - {i}\<rparr> else s))"
proof -
  have b: "books c s" using inv by (simp add: sys_inv_def)
  then have pol: "policy c = thread_per_connection" "policy c \<noteq> thread_pool"
    using i by (auto simp: books_def)
  then have fin: "reading s = {}" "finite (threads s)" using b by (simp_all add: books_def)
  have pos: "0 < count (owned s) i" using i fin by (simp add: count_owned)
  note held = held_conn [OF inv pos c]
  have no: "count (handlers (msg_queue (sys_pool s))) i = 0"
    "count (in_hands (workers (sys_pool s))) i = 0"
    using b pol by (simp_all add: books_def)
  obtain r h1 where p: "sv_process S BUFSIZ recvs h = Inr (r, h1)"
    using tr by (auto simp: thread_round_def split: sum.splits)
  obtain out where h1: "alive (policy c) (reactor_thread c) h1"
      "sv_calls S h1 = sv_calls S h @ map Send_n out"
    using process_law [OF held(2) p] by blast
  show ?thesis
  proof (cases "r = -1")
    case False
    let ?u = "conn_step S env i (sv_calls S h) h1 s"
    have u: "reading ?u = {}" "threads ?u = threads s" "timers ?u = timers s"
      using fin by (auto simp: h1(2))
    have "sys_inv c ?u"
    proof (rule kept_inv [OF inv pos c, where g = h1 and n = 1 and u = ?u])
      show "books c ?u" unfolding books_def u using b fin pol by (simp add: books_def)
      show "count (owned ?u) j = (if j = i then 1 else count (owned s) j)" for j
        using no fin held(1) by (simp add: count_owned u del: conn_step_sel(5-7))
    qed (use h1 u in simp_all)
    with False p tr show ?thesis by (simp add: thread_round_def)
  next
    case True
    obtain g where g: "sv_close S h1 = Inr (0, g)" "gone g"
        "sv_calls S g = sv_calls S h1 @ [Remove_Handler True, Delete_This, Peer_Close]"
      using close_law [OF alive_not_gone [OF h1(1)]] by blast
    let ?u = "conn_step S env i (sv_calls S h) g (s\<lparr>threads := threads s - {i}\<rparr>)"
    have u: "reading ?u = {}" "threads ?u = threads s - {i}" "timers ?u = (timers s)(i := None)"
      using fin by (auto simp: g(3) h1(2))
    have "sys_inv c ?u"
    proof (rule closed_inv [OF inv g(2), where u = ?u and i = i])
      show "books c ?u" unfolding books_def u using b fin pol by (simp add: books_def)
      show "count (owned ?u) j = (if j = i then 0 else count (owned s) j)" for j
        using no fin by (simp add: count_owned u del: conn_step_sel(5-7))
    qed (use u in simp_all)
    with True p g tr show ?thesis by (simp add: thread_round_def)
  qed
qed

lemma timeout_inv:
  assumes inv: "sys_inv c s" and x: "timers s i = Some x" "due x \<le> clock s"
    and c: "conns s i = Some h"
  shows "settle S env i (sv_calls S h) (upcall S env (sv_timeout S env mem (clock s) (timer_act x) h)) s' =
      s'\<lparr>crashed := Some Null_Deref\<rparr>"
    and "sys_inv c (s\<lparr>timers := (timers s)(i :=
      if interval x > 0 then Some (x\<lparr>due := due x + interval x\<rparr>) else None), crashed := y\<rparr>)"
proof -
  have a: "armed c s" using inv by (simp add: sys_inv_def)
  with x(1) c have "\<not> gone h" unfolding armed_def by (metis option.distinct(1) option.inject)
  with a c have "alive (policy c) (reactor_thread c) h \<and> fresh_timer s (timers s i)"
    unfolding armed_def by blast
  with x(1) have h: "alive (policy c) (reactor_thread c) h" and
      act: "timer_act x = void_ptr timer_id" and iv: "interval x = time_value 30" and
      late: "time_value max_client_timeout \<le> due x"
    by (simp_all add: fresh_timer_def)
  show "settle S env i (sv_calls S h) (upcall S env (sv_timeout S env mem (clock s) (timer_act x) h)) s' =
      s'\<lparr>crashed := Some Null_Deref\<rparr>"
    by (simp add: act timeout_law [OF h] upcall_def settle_def)
  let ?t = "s\<lparr>timers := (timers s)(i :=
      if interval x > 0 then Some (x\<lparr>due := due x + interval x\<rparr>) else None), crashed := y\<rparr>"
  have "time_value 30 > 0" "time_value 30 \<le> time_value max_client_timeout"
    by (simp_all add: time_value_def max_client_timeout_def)
  then have "fresh_timer s (timers ?t i)" using x(2) act iv late by (simp add: fresh_timer_def)
  then have "armed c ?t"
    by (intro armed_conn [where s = s and i = i and h = h and x = "timers ?t i", OF a])
      (use c h \<open>\<not> gone h\<close> in auto)
  moreover have "owned ?t = owned s" by (simp add: owned_def)
  ultimately show "sys_inv c ?t" using inv by (simp add: sys_inv_def books_def owners_def)
qed

lemma system_step_inv: "system_step S c s t \<Longrightarrow> sys_inv c s \<Longrightarrow> sys_inv c t"
proof (induction rule: system_step.induct)
  case (Accept s i env host)
  from accept_inv [OF Accept(2,1)] show ?case .
next
  case (Ready i s h env al pu recvs p res)
  show ?case
  proof (cases "policy c = thread_pool")
    case True
    from queue_inv [OF Ready(9,1,2) True Ready(3) _ Ready(5,8)] Ready(7) pool_law show ?thesis by simp
  next
    case False
    from direct_inv [OF Ready(9,1,2) False Ready(8)] show ?thesis .
  qed
next
  case (Work k s i h env recvs a h1 w p)
  then have "svc_step a (Got (Some i)) (sys_pool s) = Some (w, p)" using pool_law by simp
  from work_inv [OF Work(10,1,2,3,4,6,8) this] show ?case .
next
  case (Work_Faults k s i h env recvs f)
  then show ?case by (auto intro: sys_inv_frame)
next
  case (Worker k s a w p)
  from worker_handlers [OF Worker(1,2)] Worker(4,5) show ?case
    by (auto simp: pool_law intro: sys_inv_frame)
next
  case (Thread_Round i s h recvs ended h')
  from thread_inv [OF Thread_Round(5,1,2,4)] show ?case .
next
  case (Thread_Faults i s h recvs f)
  then show ?case by (auto intro: sys_inv_frame)
next
  case (Timeout s i x h env mem)
  from timeout_inv(2) [OF Timeout(5,1,2,3), of "Some Null_Deref"] show ?case
    by (simp add: timeout_inv(1) [OF Timeout(5,1,2,3)])
next
  case (Tick s t)
  then show ?case by (auto intro: sys_inv_frame)
next
  case (Start_Pool s b n)
  then show ?case by (auto simp: pool_law start_def intro: sys_inv_frame)
next
  case (Stop_Pool al pu s p)
  then show ?case using stop_step_handlers by (auto simp: pool_law intro: sys_inv_frame)
qed

lemma system_reach_inv: "system_reach S c s t \<Longrightarrow> sys_inv c s \<Longrightarrow> sys_inv c t"
  by (induction rule: system_reach.induct) (auto intro: system_step_inv)

section \<open>What brings the process down\<close>

definition explained :: "setting \<Rightarrow> 'h system \<Rightarrow> bool" where
  \<comment> \<open>nothing but an expired timer and a read that fills its buffer ends the process\<close>
  "explained c s \<longleftrightarrow> (\<forall>f. crashed s = Some f \<longrightarrow>
     f = Null_Deref \<and> time_value max_client_timeout \<le> clock s \<or> f = Overread \<and> \<not> small_reads c)"

lemma held_by:
  assumes "sys_inv c s" "conns s i = Some h"
    and "i \<in> reading s \<or> i \<in> threads s \<or> (\<exists>k < length (workers (sys_pool s)). workers (sys_pool s) ! k = Got (Some i))"
  shows "alive (policy c) (reactor_thread c) h"
proof -
  have fin: "finite (reading s)" "finite (threads s)" using assms(1) by (simp_all add: sys_inv_defs)
  have "0 < count (owned s) i"
    using assms(3) fin by (auto simp: count_owned in_hand_owned)
  from held_conn(2) [OF assms(1) this assms(2)] show ?thesis .
qed

lemma upcall_fault: "upcall S env (sv_input S env recvs h) = Inl f \<Longrightarrow>
    alive (policy c) (reactor_thread c) h \<Longrightarrow> f = Overread \<and> \<not> fits cmd_buffer_len recvs"
proof (cases "sv_input S env recvs h")
  case (Inl g)
  then show "upcall S env (sv_input S env recvs h) = Inl f \<Longrightarrow>
      alive (policy c) (reactor_thread c) h \<Longrightarrow> ?thesis"
    using input_fault [of "policy c" "reactor_thread c" h env recvs] by (simp add: upcall_def)
next
  case (Inr rh)
  assume u: "upcall S env (sv_input S env recvs h) = Inl f" and a: "alive (policy c) (reactor_thread c) h"
  obtain r h1 where rh: "rh = (r, h1)" by fastforce
  have "\<not> gone h1"
  proof (cases "policy c = thread_pool \<and> e_self env = reactor_thread c")
    case True
    then show ?thesis
      using queue_law [of "reactor_thread c" h env recvs] a Inr rh alive_not_gone by fastforce
  next
    case False
    then show ?thesis
      using input_law [OF a, of env recvs r h1] Inr rh alive_not_gone by auto
  qed
  then show ?thesis using u Inr rh
    by (cases rule: upcall_cases [of h1 r env]) simp_all
qed

lemma thread_fault:
  assumes "thread_round S recvs h = Inl f" "alive (policy c) (reactor_thread c) h"
  shows "f = Overread \<and> \<not> fits BUFSIZ recvs"
proof (cases "sv_process S BUFSIZ recvs h")
  case (Inl g)
  with process_fault [OF assms(2) Inl] assms(1) show ?thesis by (simp add: thread_round_def)
next
  case (Inr rh)
  obtain r h1 where rh: "rh = (r, h1)" by fastforce
  then have "\<not> gone h1" using process_law [OF assms(2), of recvs r h1] Inr alive_not_gone by blast
  from close_law [OF this] Inr rh assms(1) show ?thesis
    by (auto simp: thread_round_def split: if_splits)
qed

lemma system_step_explained:
  assumes "system_step S c s t" "sys_inv c s" "crashed s = None"
  shows "explained c t"
  using assms
proof (induction rule: system_step.induct)
  case (Accept s i env host)
  let ?h = "sv_new S host (reactor_thread c) (time_value max_client_timeout)"
  obtain h where h: "sv_open S env (Some (policy c)) ?h = Inr (open_result (policy c) env, h)"
      "\<not> gone h"
    using open_law [of env "policy c" host "reactor_thread c"] alive_not_gone by blast
  obtain g where "sv_close S h = Inr (0, g)" using close_law [OF h(2)] by blast
  with h have "\<exists>h. accepted S env (policy c) ?h = Inr h" by (simp add: accepted_def)
  with Accept(3) show ?case by (auto simp: settle_def explained_def)
next
  case (Ready i s h env al pu recvs p res)
  have al: "alive (policy c) (reactor_thread c) h" using held_by Ready(1,2,9) by blast
  have "f = Overread \<and> \<not> fits cmd_buffer_len recvs" if "res = Inl f" for f
    using upcall_fault [OF trans [OF Ready(8) [symmetric] that] al] .
  with Ready(6,10) show ?case by (cases res) (auto simp: settle_def explained_def)
next
  case (Work k s i h env recvs a h1 w p)
  have al: "alive (policy c) (reactor_thread c) h" using held_by Work(1,2,3,10) by blast
  have "\<not> gone h1" using input_law [OF al disjI2 [OF Work(4)] Work(8)] alive_not_gone by blast
  then have "upcall S env (Inr (a_handle_input a, h1)) \<noteq> Inl f" for f
    by (cases rule: upcall_cases [of h1 "a_handle_input a" env]) simp_all
  with Work(11) show ?case
    by (cases "upcall S env (Inr (a_handle_input a, h1))") (auto simp: settle_def explained_def)
next
  case (Work_Faults k s i h env recvs f)
  have "alive (policy c) (reactor_thread c) h" using held_by Work_Faults(1,2,3,7) by blast
  from input_fault [OF this Work_Faults(6)] Work_Faults(5) show ?case by (simp add: explained_def)
next
  case (Thread_Faults i s h recvs f)
  have "alive (policy c) (reactor_thread c) h" using held_by Thread_Faults(1,2,5) by blast
  from thread_fault [OF Thread_Faults(4) this] Thread_Faults(3) show ?case by (simp add: explained_def)
next
  case (Timeout s i x h env mem)
  have "armed c s" using Timeout(5) by (simp add: sys_inv_def)
  moreover from this Timeout(1,3) have "\<not> gone h"
    unfolding armed_def by (metis option.distinct(1) option.inject)
  ultimately have "time_value max_client_timeout \<le> clock s"
    using Timeout(1,2,3) unfolding armed_def fresh_timer_def by fastforce
  then show ?case by (simp add: timeout_inv(1) [OF Timeout(5,1,2,3)] explained_def)
qed (simp_all add: explained_def)

lemma system_reach_explained: "system_reach S c s t \<Longrightarrow> sys_inv c s \<Longrightarrow> explained c s \<Longrightarrow> explained c t"
proof (induction rule: system_reach.induct)
  case (Then s t u)
  from system_step_explained [OF Then(3) system_reach_inv [OF Then(1,5)] Then(2)] show ?case .
qed

lemma new_system_explained: "explained c new_system"
  by (simp add: explained_def new_system_def)

text \<open>A living connection ends the process within thirty minutes, by waiting alone.\<close>

lemma living_kills:
  assumes inv: "sys_inv c s" and up: "crashed s = None" and h: "conns s i = Some h" "\<not> gone h"
  shows "\<exists>t u x. timers s i = Some x \<and> due x \<le> clock s + time_value max_client_timeout \<and>
    system_reach S c s t \<and> clock t = max (clock s) (due x) \<and> conns t = conns s \<and>
    system_step S c t u \<and> crashed u = Some Null_Deref"
proof -
  obtain x where x: "timers s i = Some x" "due x \<le> clock s + time_value max_client_timeout"
    using inv h by (fastforce simp: sys_inv_def armed_def fresh_timer_def)
  let ?t = "s\<lparr>clock := max (clock s) (due x)\<rparr>"
  have t: "system_reach S c s ?t"
  proof (cases "clock s < due x")
    case True
    from system_reach_step [OF up system_step.Tick [OF True]] True show ?thesis by simp
  next
    case False
    then have "?t = s" by simp
    then show ?thesis using system_reach.Here by metis
  qed
  note it = system_reach_inv [OF t inv]
  have pre: "timers ?t i = Some x" "due x \<le> clock ?t" "conns ?t i = Some h" using x h by simp_all
  define env where "env = \<lparr>e_schedule_timer = 0, e_get_remote_addr = 0, e_addr_string = [],
     e_host_name = [], e_register_handler = 0, e_activate = 0, e_enqueue = 0,
     e_now = 0, e_self = reactor_thread c, e_closes = True\<rparr>"
  have "e_self env = reactor_thread c" by (simp add: env_def)
  from system_step.Timeout [OF pre this, where S = S and mem = "\<lambda>_. None"] timeout_inv(1) [OF it pre]
  have "\<exists>u. system_step S c ?t u \<and> crashed u = Some Null_Deref" by fastforce
  with x t show ?thesis by force
qed

section \<open>Reachable states\<close>

lemma system_inv: "system_reach S c new_system s \<Longrightarrow> sys_inv c s"
  by (rule system_reach_inv [OF _ new_system_inv])

lemma owners_of_reachable:
  assumes "system_reach S c new_system s"
  shows "(\<forall>i. count (owned s) i \<le> 1) \<and>
    (\<forall>k l i. k < length (workers (sys_pool s)) \<and> l < length (workers (sys_pool s)) \<and>
       workers (sys_pool s) ! k = Got (Some i) \<and> workers (sys_pool s) ! l = Got (Some i) \<longrightarrow> k = l) \<and>
    (\<forall>i. i \<in># owned s \<longrightarrow> (\<exists>h. conns s i = Some h \<and> alive (policy c) (reactor_thread c) h)) \<and>
    (benign c \<longrightarrow> (\<forall>i h. conns s i = Some h \<and> \<not> gone h \<longrightarrow> count (owned s) i = 1))"
proof -
  have inv: "sys_inv c s" by (rule system_inv [OF assms])
  then have fin: "finite (reading s)" "finite (threads s)" and one: "count (owned s) i \<le> 1" for i
    by (simp_all add: sys_inv_defs)
  have "k = l" if "k < length (workers (sys_pool s))" "l < length (workers (sys_pool s))"
    "workers (sys_pool s) ! k = Got (Some i)" "workers (sys_pool s) ! l = Got (Some i)" for k l i
  proof (rule ccontr)
    assume "k \<noteq> l"
    from in_hand_twice [OF that(1,2) this that(3,4)] one [of i] show False
      by (simp add: count_owned fin)
  qed
  moreover have "\<exists>h. conns s i = Some h \<and> alive (policy c) (reactor_thread c) h" if "i \<in># owned s" for i
    using inv that unfolding sys_inv_def owners_def armed_def by blast
  moreover have "count (owned s) i = 1" if "benign c" "conns s i = Some h" "\<not> gone h" for i h
  proof -
    have "i \<in># owned s" using inv that unfolding sys_inv_def owners_def by blast
    then have "0 < count (owned s) i" by simp
    with one [of i] show ?thesis by linarith
  qed
  ultimately show ?thesis using one by blast
qed

lemma crash_causes: "system_reach S c new_system s \<Longrightarrow> explained c s"
  by (rule system_reach_explained [OF _ new_system_inv new_system_explained])

lemma connection_kills:
  assumes "system_reach S c new_system s" "crashed s = None" "conns s i = Some h" "\<not> gone h"
  shows "\<exists>t u. system_reach S c s t \<and> conns t = conns s \<and>
    clock t \<le> clock s + time_value max_client_timeout \<and> system_step S c t u \<and>
    crashed u = Some Null_Deref"
proof -
  have "0 \<le> time_value max_client_timeout" by (simp add: time_value_def max_client_timeout_def)
  with living_kills [OF system_inv [OF assms(1)] assms(2-4)] show ?thesis by fastforce
qed

end

end
