(* ===== verification/Server_Answers.thy ===== *)
theory Server_Answers
  imports Server_Invariants Proc_Spec
begin

text \<open>
  The extended contract of a server that answers: what a handler replies to a request that
  arrives in one read is given by a specification, a function from the request and an
  abstract state. It follows that every sequence of requests on a waiting connection can be
  served, under each of the three strategies of the acceptor.
\<close>

fun answers_of :: "(string \<Rightarrow> 'a \<Rightarrow> string \<times> 'a) \<Rightarrow> string list \<Rightarrow> 'a \<Rightarrow> string list \<times> 'a" where
  "answers_of spec [] st = ([], st)"
| "answers_of spec (req # reqs) st =
     (let (x, st1) = spec req st; (out, st2) = answers_of spec reqs st1 in (x # out, st2))"

definition idle_worker :: "'h system \<Rightarrow> nat \<Rightarrow> bool" where
  "idle_worker s k \<longleftrightarrow> k < length (workers (sys_pool s)) \<and> workers (sys_pool s) ! k = Waiting \<and>
     msg_queue (sys_pool s) = []"

definition can_serve :: "setting \<Rightarrow> nat \<Rightarrow> 'h system \<Rightarrow> nat \<Rightarrow> bool" where
  \<comment> \<open>connection \<open>i\<close> waits for input, and under the pool worker \<open>k\<close> waits for work\<close>
  "can_serve c k s i \<longleftrightarrow> crashed s = None \<and>
     (case policy c of
        single_threaded \<Rightarrow> i \<in> reading s
      | thread_per_connection \<Rightarrow> i \<in> threads s
      | thread_pool \<Rightarrow> i \<in> reading s \<and> idle_worker s k)"

definition request_limit :: "setting \<Rightarrow> nat" where
  \<comment> \<open>the size of the buffer the connection's input is read into\<close>
  "request_limit c = (if policy c = thread_per_connection then BUFSIZ else cmd_buffer_len)"

definition whole_request :: "nat \<Rightarrow> string \<Rightarrow> bool" where
  "whole_request n req \<longleftrightarrow> plain req \<and> LF \<in> set req \<and> length req < n"

locale answering_server = connection_server S alive gone
  for S :: "'h server" and alive gone +
  fixes sent :: "'h \<Rightarrow> string list"
    and state_of :: "'h \<Rightarrow> 'a"
    and spec :: "string \<Rightarrow> 'a \<Rightarrow> string \<times> 'a"
  assumes queue_keeps: "alive thread_pool self h \<Longrightarrow> e_self env = self \<Longrightarrow>
      sv_input S env recvs h = Inr (r, h1) \<Longrightarrow> sent h1 = sent h \<and> state_of h1 = state_of h"
    and input_answers: "alive c self h \<Longrightarrow> c \<noteq> thread_pool \<or> e_self env \<noteq> self \<Longrightarrow>
      whole_request cmd_buffer_len req \<Longrightarrow>
      \<exists>h1. sv_input S env [req] h = Inr (0, h1) \<and> sent h1 = sent h @ [fst (spec req (state_of h))] \<and>
        state_of h1 = snd (spec req (state_of h))"
    and process_answers: "alive c self h \<Longrightarrow> whole_request BUFSIZ req \<Longrightarrow>
      \<exists>h1. sv_process S BUFSIZ [req] h = Inr (0, h1) \<and>
        sent h1 = sent h @ [fst (spec req (state_of h))] \<and> state_of h1 = snd (spec req (state_of h))"
begin

definition answered :: "setting \<Rightarrow> nat \<Rightarrow> nat \<Rightarrow> string list \<Rightarrow> 'h system \<Rightarrow> 'h \<Rightarrow> 'h system \<Rightarrow> bool" where
  \<comment> \<open>the requests have been answered from \<open>s\<close>, where the connection is \<open>h\<close>, to \<open>t\<close>\<close>
  "answered c k i reqs s h t \<longleftrightarrow> system_reach S c s t \<and> can_serve c k t i \<and>
     (\<exists>h'. conns t i = Some h' \<and> sent h' = sent h @ fst (answers_of spec reqs (state_of h)) \<and>
       state_of h' = snd (answers_of spec reqs (state_of h)))"

lemma answer_single:
  assumes pol: "policy c = single_threaded" and up: "crashed s = None" and inv: "sys_inv c s"
    and i: "i \<in> reading s" "conns s i = Some h" and req: "whole_request cmd_buffer_len req"
  shows "\<exists>t. answered c k i [req] s h t"
proof -
  let ?env = "sample_env\<lparr>e_self := reactor_thread c, e_now := clock s\<rparr>"
  have al: "alive single_threaded (reactor_thread c) h"
    using held_by [OF inv i(2)] i(1) pol by simp
  obtain h1 where h1: "sv_input S ?env [req] h = Inr (0, h1)"
      "sent h1 = sent h @ [fst (spec req (state_of h))]" "state_of h1 = snd (spec req (state_of h))"
    using input_answers [OF al _ req, of ?env] by auto
  obtain out where "sv_calls S h1 = sv_calls S h @ map Send_n out"
    using input_law [OF al _ h1(1)] by auto
  have nq: "Pool_Enqueue \<notin> Send_n ` set out" by auto
  let ?p = "snd (enqueue True True (Some i) (sys_pool s))"
  have e: "sv_enqueue S True True (Some i) (sys_pool s) = (e_enqueue ?env, ?p)"
    by (simp add: pool_law enqueue_def sample_env_def)
  let ?t = "conn_step S ?env i (sv_calls S h) h1 s"
  have "system_step S c s ?t"
    using system_step.Ready [where S = S and c = c and recvs = "[req]", OF i _ _ _ _ e refl]
      h1(1) req \<open>sv_calls S h1 = _\<close> nq
    by (simp add: upcall_def settle_def queued_def fits_def whole_request_def)
  then have "system_reach S c s ?t" by (rule system_reach_step [OF up])
  moreover have "i \<in> reading ?t" using i \<open>sv_calls S h1 = _\<close> by simp
  ultimately show ?thesis
    using h1(2,3) pol up by (intro exI [of _ ?t]) (simp add: answered_def can_serve_def split_beta Let_def)
qed

lemma answer_thread:
  assumes pol: "policy c = thread_per_connection" and up: "crashed s = None" and inv: "sys_inv c s"
    and i: "i \<in> threads s" "conns s i = Some h" and req: "whole_request BUFSIZ req"
  shows "\<exists>t. answered c k i [req] s h t"
proof -
  have al: "alive thread_per_connection (reactor_thread c) h"
    using held_by [OF inv i(2)] i(1) pol by simp
  obtain h1 where h1: "sv_process S BUFSIZ [req] h = Inr (0, h1)"
      "sent h1 = sent h @ [fst (spec req (state_of h))]" "state_of h1 = snd (spec req (state_of h))"
    using process_answers [OF al req] by blast
  obtain out where "sv_calls S h1 = sv_calls S h @ map Send_n out"
    using process_law [OF al h1(1)] by auto
  let ?t = "conn_step S sample_env i (sv_calls S h) h1 s"
  have r: "thread_round S [req] h = Inr (False, h1)" using h1(1) by (simp add: thread_round_def)
  have "system_step S c s ?t"
    using system_step.Thread_Round [OF i _ r, of c sample_env] req
    by (simp add: fits_def whole_request_def)
  then have "system_reach S c s ?t" by (rule system_reach_step [OF up])
  moreover have "i \<in> threads ?t" using i \<open>sv_calls S h1 = _\<close> by simp
  ultimately show ?thesis
    using h1(2,3) pol up by (intro exI [of _ ?t]) (simp add: answered_def can_serve_def split_beta Let_def)
qed

text \<open>Under the pool a request takes three steps: the reactor queues, a worker takes, a worker answers.\<close>

lemma queue_step:
  assumes pol: "policy c = thread_pool" and inv: "sys_inv c s"
    and i: "i \<in> reading s" "conns s i = Some h"
  shows "\<exists>t h'. system_step S c s t \<and> crashed t = crashed s \<and> conns t = (conns s)(i \<mapsto> h') \<and>
    sent h' = sent h \<and> state_of h' = state_of h \<and>
    workers (sys_pool t) = workers (sys_pool s) \<and>
    msg_queue (sys_pool t) = msg_queue (sys_pool s) @ [Some i]"
proof -
  let ?env = "sample_env\<lparr>e_self := reactor_thread c, e_now := clock s\<rparr>"
  have al: "alive thread_pool (reactor_thread c) h"
    using held_by [OF inv i(2)] i(1) pol by simp
  obtain h1 where h1: "sv_input S ?env [] h = Inr (0, h1)"
      "sv_calls S h1 = sv_calls S h @ [Remove_Handler True, Pool_Enqueue]"
    using queue_law [OF al, of ?env "[]"] by (auto simp: sample_env_def)
  have keeps: "sent h1 = sent h \<and> state_of h1 = state_of h"
    using queue_keeps [OF al _ h1(1)] by simp
  let ?p = "snd (enqueue True True (Some i) (sys_pool s))"
  have e: "sv_enqueue S True True (Some i) (sys_pool s) = (e_enqueue ?env, ?p)"
    by (simp add: pool_law enqueue_def sample_env_def)
  let ?t = "conn_step S ?env i (sv_calls S h) h1 (s\<lparr>sys_pool := ?p\<rparr>)"
  have "system_step S c s ?t"
    using system_step.Ready [where S = S and c = c and recvs = "[]", OF i _ _ _ _ e refl] h1
    by (simp add: upcall_def settle_def queued_def fits_def)
  then show ?thesis
    using keeps by (intro exI [of _ ?t] exI [of _ h1]) (simp add: enqueue_def)
qed

lemma take_step:
  assumes "k < length (workers (sys_pool s))" "workers (sys_pool s) ! k = Waiting"
    "msg_queue (sys_pool s) = [Some i]"
  shows "\<exists>t. system_step S c s t \<and> crashed t = crashed s \<and> conns t = conns s \<and>
    workers (sys_pool t) = (workers (sys_pool s))[k := Got (Some i)] \<and> msg_queue (sys_pool t) = []"
proof -
  let ?a = "\<lparr>a_cancelled = False, a_getq_fails = False, a_handle_input = 0\<rparr>"
  let ?p = "(sys_pool s)\<lparr>msg_queue := [], taken_log := taken_log (sys_pool s) @ [Some i]\<rparr>"
  have "sv_svc S ?a (workers (sys_pool s) ! k) (sys_pool s) = Some (Got (Some i), ?p)"
    using assms by (simp add: pool_law)
  from system_step.Worker [where S = S and c = c, OF assms(1) _ _ this] assms(2)
  have "system_step S c s (s\<lparr>sys_pool := set_worker k (Got (Some i)) ?p\<rparr>)" by simp
  then show ?thesis
    by (rule exI [of _ "s\<lparr>sys_pool := set_worker k (Got (Some i)) ?p\<rparr>", OF conjI])
      (simp add: set_worker_def)
qed

lemma answer_step:
  assumes inv: "sys_inv c s" and pol: "policy c = thread_pool"
    and k: "k < length (workers (sys_pool s))" "workers (sys_pool s) ! k = Got (Some i)"
    and i: "conns s i = Some h" and req: "whole_request cmd_buffer_len req"
  shows "\<exists>t h'. system_step S c s t \<and> crashed t = crashed s \<and> conns t = (conns s)(i \<mapsto> h') \<and>
    sent h' = sent h @ [fst (spec req (state_of h))] \<and>
    state_of h' = snd (spec req (state_of h)) \<and> i \<in> reading t \<and>
    workers (sys_pool t) = (workers (sys_pool s))[k := Waiting] \<and>
    msg_queue (sys_pool t) = msg_queue (sys_pool s)"
proof -
  let ?env = "sample_env\<lparr>e_self := Suc (reactor_thread c), e_now := clock s\<rparr>"
  let ?a = "\<lparr>a_cancelled = False, a_getq_fails = False, a_handle_input = 0\<rparr>"
  have al: "alive thread_pool (reactor_thread c) h"
    using held_by [OF inv i] k pol by auto
  have self: "thread_pool \<noteq> thread_pool \<or> e_self ?env \<noteq> reactor_thread c" by simp
  obtain h1 where h1: "sv_input S ?env [req] h = Inr (a_handle_input ?a, h1)"
      "sent h1 = sent h @ [fst (spec req (state_of h))]" "state_of h1 = snd (spec req (state_of h))"
    using input_answers [OF al self req] by auto
  obtain out where out: "sv_calls S h1 = sv_calls S h @ map Send_n out @ [Register_Handler]"
    using input_law [OF al self h1(1)] by auto
  obtain q where sv: "sv_svc S ?a (Got (Some i)) (sys_pool s) = Some (Waiting, q)"
      "workers q = workers (sys_pool s)" "msg_queue q = msg_queue (sys_pool s)"
    by (simp add: Let_def guard_defs pool_law)
  let ?t = "conn_step S ?env i (sv_calls S h) h1 (s\<lparr>sys_pool := set_worker k Waiting q\<rparr>)"
  have "system_step S c s ?t"
    using system_step.Work [where S = S and c = c, OF k i _ _ _ _ h1(1) sv(1)] req
    by (simp add: upcall_def settle_def fits_def whole_request_def sample_env_def)
  then show ?thesis
    using h1(2,3) sv(2,3) out
    by (intro exI [of _ ?t] exI [of _ h1]) (simp add: set_worker_def sample_env_def)
qed

lemma answer_pooled:
  assumes pol: "policy c = thread_pool" and up: "crashed s = None" and inv: "sys_inv c s"
    and i: "i \<in> reading s" "conns s i = Some h" and k: "idle_worker s k"
    and req: "whole_request cmd_buffer_len req"
  shows "\<exists>t. answered c k i [req] s h t"
proof -
  have k': "k < length (workers (sys_pool s))" "workers (sys_pool s) ! k = Waiting"
    "msg_queue (sys_pool s) = []" using k by (simp_all add: idle_worker_def)
  obtain t1 h1 where s1: "system_step S c s t1" "crashed t1 = None" "conns t1 = (conns s)(i \<mapsto> h1)"
    "sent h1 = sent h" "state_of h1 = state_of h"
    "workers (sys_pool t1) = workers (sys_pool s)" "msg_queue (sys_pool t1) = [Some i]"
    using queue_step [OF pol inv i] k'(3) up by auto
  then obtain t2 where s2: "system_step S c t1 t2" "crashed t2 = None" "conns t2 = conns t1"
    "workers (sys_pool t2) = (workers (sys_pool s))[k := Got (Some i)]" "msg_queue (sys_pool t2) = []"
    using take_step [of k t1 i c] k' by auto
  have inv2: "sys_inv c t2"
    using system_step_inv [OF s2(1) system_step_inv [OF s1(1) inv]] .
  have w2: "k < length (workers (sys_pool t2))" "workers (sys_pool t2) ! k = Got (Some i)"
    "conns t2 i = Some h1" using s1 s2 k' by simp_all
  obtain t3 h3 where s3: "system_step S c t2 t3" "crashed t3 = None" "conns t3 = (conns t2)(i \<mapsto> h3)"
    "sent h3 = sent h @ [fst (spec req (state_of h))]"
    "state_of h3 = snd (spec req (state_of h))" "i \<in> reading t3"
    "workers (sys_pool t3) = (workers (sys_pool t2))[k := Waiting]" "msg_queue (sys_pool t3) = []"
    using answer_step [OF inv2 pol w2 req] s1 s2 by auto
  have "system_reach S c s t3"
    using system_reach.Then [OF system_reach.Then [OF system_reach_step [OF up s1(1)] s1(2) s2(1)] s2(2) s3(1)] .
  with s3 s2(4) k' pol show ?thesis
    by (intro exI [of _ t3])
      (simp add: answered_def can_serve_def idle_worker_def split_beta Let_def)
qed

lemma answer_one:
  assumes "sys_inv c s" "can_serve c k s i" "conns s i = Some h"
    and "whole_request (request_limit c) req"
  shows "\<exists>t. answered c k i [req] s h t"
  using assms answer_single answer_thread answer_pooled
  by (cases "policy c") (simp_all add: can_serve_def request_limit_def)

lemma answer_all:
  assumes "sys_inv c s" "can_serve c k s i" "conns s i = Some h"
    and "list_all (whole_request (request_limit c)) reqs"
  shows "\<exists>t. answered c k i reqs s h t"
  using assms
proof (induction reqs arbitrary: s h)
  case Nil
  then show ?case
    by (intro exI [of _ s]) (simp add: answered_def system_reach.Here)
next
  case (Cons req reqs)
  then obtain t where "answered c k i [req] s h t" using answer_one by fastforce
  then obtain g where t: "system_reach S c s t" "can_serve c k t i" "conns t i = Some g"
    "sent g = sent h @ [fst (spec req (state_of h))]" "state_of g = snd (spec req (state_of h))"
    by (auto simp: answered_def split_beta Let_def)
  from Cons.IH [OF system_reach_inv [OF t(1) Cons.prems(1)] t(2,3)] Cons.prems(4)
  obtain u where "answered c k i reqs t g u" by auto
  with t show ?case
    by (intro exI [of _ u])
      (auto simp: answered_def split_beta Let_def intro: system_reach_trans)
qed

end

end
