(* ===== verification/Server_Sessions.thy ===== *)
theory Server_Sessions
  imports Server_Answers
begin

text \<open>
  The abstract specification of a server, as its clients see it: each connection is a session
  of its own, which greets, answers requests by the specification one after the other, and
  ends, with or without a farewell. The relation of Reactor_System, with its threads, queue
  and timers, is shown to refine it: whatever step the server takes, every connection takes
  the steps of a session, and no step mixes two connections.
\<close>

section \<open>Sessions\<close>

datatype 'a session = No_Session | Session (session_sent: "string list") (session_state: 'a) (session_open: bool)

inductive session_step ::
    "(string \<Rightarrow> string) \<Rightarrow> (ace_env \<Rightarrow> string) \<Rightarrow> (string \<Rightarrow> 'a \<Rightarrow> string \<times> 'a) \<Rightarrow> 'a \<Rightarrow>
     'a session \<Rightarrow> 'a session \<Rightarrow> bool"
  for hello farewell spec st0 where
  Greet: "session_step hello farewell spec st0 No_Session (Session [hello host] st0 True)"
| Answer: "spec req st = (reply, st') \<Longrightarrow>
    session_step hello farewell spec st0 (Session out st True) (Session (out @ [reply]) st' True)"
| End: "session_step hello farewell spec st0 (Session out st True) (Session out st False)"
| Farewell: "session_step hello farewell spec st0 (Session out st True)
    (Session (out @ [farewell env]) st False)"

text \<open>A session in closed form: the greeting, the replies to the requests, and a farewell at most.\<close>

definition told :: "(string \<Rightarrow> string) \<Rightarrow> (ace_env \<Rightarrow> string) \<Rightarrow> (string \<Rightarrow> 'a \<Rightarrow> string \<times> 'a) \<Rightarrow> 'a \<Rightarrow>
    'a session \<Rightarrow> bool" where
  "told hello farewell spec st0 x \<longleftrightarrow>
     (case x of
        No_Session \<Rightarrow> True
      | Session out st op \<Rightarrow> \<exists>host reqs bye.
          out = hello host # fst (answers_of spec reqs st0) @ bye \<and>
          st = snd (answers_of spec reqs st0) \<and> (op \<longrightarrow> bye = []) \<and>
          (bye = [] \<or> (\<exists>env. bye = [farewell env])))"

lemma answers_of_snoc: "answers_of spec (reqs @ [req]) st =
    (fst (answers_of spec reqs st) @ [fst (spec req (snd (answers_of spec reqs st)))],
     snd (spec req (snd (answers_of spec reqs st))))"
  by (induction reqs arbitrary: st) (simp_all add: split_beta Let_def)

lemma told_open: "told hello farewell spec st0 (Session out st True) \<longleftrightarrow>
    (\<exists>host reqs. out = hello host # fst (answers_of spec reqs st0) \<and>
       st = snd (answers_of spec reqs st0))"
  by (auto simp: told_def)

lemma told_closed: "out = hello host # fst (answers_of spec reqs st0) @ bye \<Longrightarrow>
    st = snd (answers_of spec reqs st0) \<Longrightarrow> bye = [] \<or> (\<exists>env. bye = [farewell env]) \<Longrightarrow>
    told hello farewell spec st0 (Session out st False)"
  by (auto simp: told_def)

lemma session_step_told:
  "session_step hello farewell spec st0 x y \<Longrightarrow> told hello farewell spec st0 x \<Longrightarrow>
   told hello farewell spec st0 y"
proof (induction rule: session_step.induct)
  case (Greet host)
  have "[hello host] = hello host # fst (answers_of spec [] st0) \<and> st0 = snd (answers_of spec [] st0)"
    by simp
  then show ?case unfolding told_open by blast
next
  case (Answer req st reply st' out)
  then obtain host reqs where "out = hello host # fst (answers_of spec reqs st0)"
    "st = snd (answers_of spec reqs st0)" by (auto simp: told_open)
  with Answer(1) have "out @ [reply] = hello host # fst (answers_of spec (reqs @ [req]) st0) \<and>
      st' = snd (answers_of spec (reqs @ [req]) st0)"
    by (simp add: answers_of_snoc)
  then show ?case unfolding told_open by blast
next
  case (End out st)
  then show ?case by (auto simp: told_open intro: told_closed [where bye = "[]"])
next
  case (Farewell out st env)
  then show ?case by (auto simp: told_open intro: told_closed [where bye = "[farewell env]"])
qed

section \<open>Servers that keep to sessions\<close>

locale session_server = answering_server S alive gone sent state_of spec
  for S :: "'h server" and alive gone sent state_of and spec :: "string \<Rightarrow> 'a \<Rightarrow> string \<times> 'a" +
  fixes hello :: "string \<Rightarrow> string" and farewell :: "ace_env \<Rightarrow> string" and st0 :: 'a
  assumes open_greets: "sv_open S env (Some c) (sv_new S host self mx) = Inr (r, h) \<Longrightarrow>
      sent h = [hello host] \<and> state_of h = st0"
    and input_replies: "alive c self h \<Longrightarrow> c \<noteq> thread_pool \<or> e_self env \<noteq> self \<Longrightarrow>
      sv_input S env recvs h = Inr (r, h1) \<Longrightarrow>
      sent h1 = sent h \<and> state_of h1 = state_of h \<or>
      (\<exists>req. sent h1 = sent h @ [fst (spec req (state_of h))] \<and>
        state_of h1 = snd (spec req (state_of h)))"
    and process_replies: "alive c self h \<Longrightarrow> sv_process S BUFSIZ recvs h = Inr (r, h1) \<Longrightarrow>
      sent h1 = sent h \<and> state_of h1 = state_of h \<or>
      (\<exists>req. sent h1 = sent h @ [fst (spec req (state_of h))] \<and>
        state_of h1 = snd (spec req (state_of h)))"
    and close_silent: "sv_close S h = Inr (r, h1) \<Longrightarrow> sent h1 = sent h \<and> state_of h1 = state_of h"
    and handle_close_bids: "alive c self h \<Longrightarrow> sv_handle_close S env h = Inr (r, h1) \<Longrightarrow>
      sent h1 = sent h @ [farewell env] \<and> state_of h1 = state_of h"
begin

abbreviation steps :: "'a session \<Rightarrow> 'a session \<Rightarrow> bool" where
  "steps \<equiv> (session_step hello farewell spec st0)\<^sup>*\<^sup>*"

definition view :: "'h option \<Rightarrow> 'a session" where
  "view x = (case x of None \<Rightarrow> No_Session | Some h \<Rightarrow> Session (sent h) (state_of h) (\<not> gone h))"

definition replied :: "'h \<Rightarrow> 'h \<Rightarrow> bool" where
  \<comment> \<open>from the first handler to the second at most one request has been answered\<close>
  "replied h h1 \<longleftrightarrow> sent h1 = sent h \<and> state_of h1 = state_of h \<or>
     (\<exists>req. sent h1 = sent h @ [fst (spec req (state_of h))] \<and>
        state_of h1 = snd (spec req (state_of h)))"

lemma replied_steps:
  assumes "replied h h1" "\<not> gone h" "\<not> gone h1"
  shows "steps (view (Some h)) (view (Some h1))"
proof -
  have "steps (Session out st True) (Session (out @ [fst (spec req st)]) (snd (spec req st)) True)"
    for out st req
    by (rule r_into_rtranclp, rule session_step.Answer [OF surjective_pairing])
  with assms show ?thesis by (auto simp: replied_def view_def)
qed

lemma end_steps:
  assumes "\<not> gone h" "gone h1" "sent h1 = sent h \<or> (\<exists>env. sent h1 = sent h @ [farewell env])"
    and "state_of h1 = state_of h"
  shows "steps (view (Some h)) (view (Some h1))"
  using assms
  by (auto simp: view_def intro!: r_into_rtranclp session_step.End session_step.Farewell)

lemma upcall_steps:
  assumes a: "alive c self h" and r: "replied h h1" and a1: "alive c self h1"
    and u: "upcall S env (Inr (r, h1)) = Inr g"
  shows "steps (view (Some h)) (view (Some g))"
proof -
  have ng: "\<not> gone h" "\<not> gone h1" using a a1 alive_not_gone by blast+
  note first = replied_steps [OF r ng]
  show ?thesis
  proof (cases "r = -1")
    case True
    obtain h2 where h2: "sv_handle_close S env h1 = Inr (0, h2)" "gone h2"
      using handle_close_law [OF ng(2)] by blast
    have "g = h2" using u True h2(1) by (simp add: upcall_def)
    with end_steps [OF ng(2) h2(2)] handle_close_bids [OF a1 h2(1)]
    have "steps (view (Some h1)) (view (Some g))" by blast
    with first show ?thesis by (rule rtranclp_trans)
  next
    case False
    with u first show ?thesis by (simp add: upcall_def)
  qed
qed

lemma accepted_steps:
  assumes "accepted S env c (sv_new S host self mx) = Inr g"
  shows "steps No_Session (view (Some g))"
proof -
  obtain h where h: "sv_open S env (Some c) (sv_new S host self mx) = Inr (open_result c env, h)"
      "alive c self h"
    using open_law by blast
  have ng: "\<not> gone h" using alive_not_gone [OF h(2)] .
  have first: "steps No_Session (view (Some h))"
    using open_greets [OF h(1)] ng
    by (auto simp: view_def intro!: r_into_rtranclp session_step.Greet)
  show ?thesis
  proof (cases "open_result c env = -1")
    case True
    obtain h2 where h2: "sv_close S h = Inr (0, h2)" "gone h2" using close_law [OF ng] by blast
    have "g = h2" using assms True h h2(1) by (simp add: accepted_def)
    with end_steps [OF ng h2(2)] close_silent [OF h2(1)]
    have "steps (view (Some h)) (view (Some g))" by blast
    with first show ?thesis by (rule rtranclp_trans)
  next
    case False
    with assms h(1) first show ?thesis by (simp add: accepted_def)
  qed
qed

lemma thread_steps:
  assumes a: "alive c self h" and t: "thread_round S recvs h = Inr (ended, g)"
  shows "steps (view (Some h)) (view (Some g))"
proof -
  obtain r h1 where p: "sv_process S BUFSIZ recvs h = Inr (r, h1)"
    using t by (auto simp: thread_round_def split: sum.splits)
  have ng: "\<not> gone h" "\<not> gone h1" using a process_law [OF a p] alive_not_gone by blast+
  have "replied h h1" using process_replies [OF a p] by (simp add: replied_def)
  note first = replied_steps [OF this ng]
  show ?thesis
  proof (cases "r = -1")
    case True
    obtain h2 where h2: "sv_close S h1 = Inr (0, h2)" "gone h2" using close_law [OF ng(2)] by blast
    have "g = h2" using t p True h2(1) by (simp add: thread_round_def)
    with end_steps [OF ng(2) h2(2)] close_silent [OF h2(1)]
    have "steps (view (Some h1)) (view (Some g))" by blast
    with first show ?thesis by (rule rtranclp_trans)
  next
    case False
    with t p first show ?thesis by (simp add: thread_round_def)
  qed
qed

lemma input_replied:
  assumes a: "alive c self h" and i: "sv_input S env recvs h = Inr (r, h1)"
  shows "replied h h1 \<and> alive c self h1"
proof (cases "c = thread_pool \<and> e_self env = self")
  case True
  with queue_law [of self h env recvs] queue_keeps [of self h env recvs r h1] a i show ?thesis
    by (auto simp: replied_def)
next
  case False
  then have "c \<noteq> thread_pool \<or> e_self env \<noteq> self" by blast
  from input_replies [OF a this i] input_law [OF a this i] show ?thesis by (simp add: replied_def)
qed

lemma input_steps:
  assumes a: "alive c self h" and u: "upcall S env (sv_input S env recvs h) = Inr g"
  shows "steps (view (Some h)) (view (Some g))"
proof -
  obtain r h1 where i: "sv_input S env recvs h = Inr (r, h1)"
    using u by (cases "sv_input S env recvs h") (auto simp: upcall_def)
  from upcall_steps [OF a _ _ u [unfolded i]] input_replied [OF a i] show ?thesis by blast
qed

text \<open>The simulation: a step of the server is, for each connection, steps of its session.\<close>

lemma settle_steps:
  assumes "\<And>g. res = Inr g \<Longrightarrow> steps (view (conns s i)) (view (Some g))" "conns s' = conns s"
  shows "steps (view (conns s j)) (view (conns (settle S env i old res s') j))"
  using assms by (cases res) (auto simp: settle_def)

lemma system_step_sessions:
  assumes "system_step S c s t" "sys_inv c s"
  shows "steps (view (conns s j)) (view (conns t j))"
  using assms
proof (induction rule: system_step.induct)
  case (Accept s i env host)
  show ?case
    by (rule settle_steps) (use Accept accepted_steps in \<open>auto simp: view_def\<close>)
next
  case (Ready i s h env al pu recvs p res)
  have "alive (policy c) (reactor_thread c) h" using held_by Ready(1,2,9) by blast
  from input_steps [OF this] Ready(2,8) show ?case by (intro settle_steps) auto
next
  case (Work k s i h env recvs a h1 w p)
  have al: "alive (policy c) (reactor_thread c) h" using held_by Work(1,2,3,10) by blast
  from input_steps [OF al, of env recvs] Work(3,8) show ?case by (intro settle_steps) auto
next
  case (Thread_Round i s h recvs ended h')
  have "alive (policy c) (reactor_thread c) h" using held_by Thread_Round(1,2,5) by blast
  from thread_steps [OF this Thread_Round(4)] Thread_Round(2) show ?case by simp
next
  case (Timeout s i x h env mem)
  show ?case by (simp add: timeout_inv(1) [OF Timeout(5,1,2,3)])
qed simp_all

lemma system_reach_sessions: "system_reach S c s t \<Longrightarrow> sys_inv c s \<Longrightarrow>
    steps (view (conns s j)) (view (conns t j))"
proof (induction rule: system_reach.induct)
  case (Then s t u)
  from Then.IH [OF Then.prems] system_step_sessions [OF Then(3) system_reach_inv [OF Then(1) Then.prems]]
  show ?case by (rule rtranclp_trans)
qed simp

lemma steps_told: "steps x y \<Longrightarrow> told hello farewell spec st0 x \<Longrightarrow> told hello farewell spec st0 y"
  by (induction rule: rtranclp_induct) (auto intro: session_step_told)

lemma reachable_told:
  assumes "system_reach S c new_system s"
  shows "told hello farewell spec st0 (view (conns s i))"
  using steps_told [OF system_reach_sessions [OF assms new_system_inv]]
  by (simp add: new_system_def view_def told_def)

end

end
