(* ===== verification/Proc_Typing.thy ===== *)
theory Proc_Typing
  imports Proc_Properties
begin

text \<open>
  The shape every connection handler keeps, whatever the client sends, and the bound on what
  a client can make the daemon send: the session locale for bounded replies, interpreted on
  \<open>process\<close> with both of the buffers the program passes.
\<close>

definition proc_typed :: "proc_handler \<Rightarrow> bool" where
  \<comment> \<open>the invariant of a connection, with a token the parser can have left\<close>
  "proc_typed h \<longleftrightarrow> proc_inv h \<and> length (m_strToken h) \<le> constMaxTokenLength \<and>
     SPACE \<notin> set (m_strToken h)"

definition max_reply :: nat where
  \<comment> \<open>the longest token, its NUL, the longest error text and the line's end\<close>
  "max_reply = constMaxTokenLength + 1 + 4 + 46 + 2"

lemma judge_token:
  assumes "judge req tok b = (tok', v)" "length tok \<le> constMaxTokenLength" "SPACE \<notin> set tok"
  shows "length tok' \<le> constMaxTokenLength \<and> SPACE \<notin> set tok'"
  using assms
  by (auto simp: judge_def words_of_Some split: if_splits option.splits prod.splits)

lemma packet_error_text_bound: "length (packet_error_text pe) \<le> 46"
  by (cases pe) simp_all

lemma reply_bound:
  assumes "length tok \<le> constMaxTokenLength" "SPACE \<notin> set tok"
    and "spec_step req (tok, b) = (x, (tok', b'))"
  shows "length x \<le> max_reply \<and> length tok' \<le> constMaxTokenLength \<and> SPACE \<notin> set tok'"
proof -
  obtain t v where j: "judge req tok b = (t, v)" by fastforce
  then have t: "length t \<le> constMaxTokenLength" "SPACE \<notin> set t"
    using judge_token [OF _ assms(1,2)] by auto
  have "length (error_reply t e) \<le> max_reply" "length (login_reply t) \<le> max_reply" for e
    using t(1) packet_error_text_bound [of e]
    by (simp_all add: error_reply_def login_reply_def crlf_def max_reply_def)
  with t j assms(3) show ?thesis
    by (auto simp: spec_step_def split: if_splits option.splits)
qed

lemma process_typed:
  assumes t: "proc_typed h" and n: "buffer_ok n" and p: "process n recvs h = Inr (r, h')"
  shows "proc_typed h' \<and> (\<exists>out. proc_sent h' = proc_sent h @ out \<and> length out \<le> 1 \<and>
    list_all (\<lambda>x. length x \<le> max_reply) out)"
proof -
  let ?h = "h\<lparr>m_proc_packet_error := peNoPacketError\<rparr>"
  have inv: "proc_inv h" and tok: "length (m_strToken h) \<le> constMaxTokenLength"
      "SPACE \<notin> set (m_strToken h)"
    using t by (simp_all add: proc_typed_def)
  have inv': "proc_inv h'" using process_step [OF inv n p] by simp
  have "h' = ?h \<or> (\<exists>req. length req \<le> constCommandBufferLength + n \<and> answer_request req ?h = (r, h'))"
    using process_loop_result [of "replicate n NUL" "[]" recvs ?h r h'] p n
    by (auto simp: process_def buffer_ok_def)
  then show ?thesis
  proof (elim disjE exE conjE)
    assume "h' = ?h"
    with inv' tok show ?thesis by (auto simp: proc_typed_def proc_sent_def)
  next
    fix req
    assume len: "length req \<le> constCommandBufferLength + n" and a: "answer_request req ?h = (r, h')"
    have ok: "size_ok req"
      using len n
      by (simp add: size_ok_def buffer_ok_def cmd_buffer_len_def constCommandBufferLength_def
          npos_def)
    obtain x tk b where s: "spec_step req (spec_of ?h) = (x, (tk, b))" by (rule prod_cases3)
    have "ops h' = ops ?h @ [Send_n x]" "spec_of h' = (tk, b)"
      using answer_request_refines [OF proc_inv_reset [OF inv] ok, of peNoPacketError] a s by auto
    moreover have "length x \<le> max_reply \<and> length tk \<le> constMaxTokenLength \<and> SPACE \<notin> set tk"
      using reply_bound [of "m_strToken ?h" req "authenticated ?h"] s tok by (simp add: spec_of_def)
    ultimately show ?thesis using inv' by (simp add: proc_typed_def proc_sent_def spec_of_def)
  qed
qed

lemma bounded_process:
  assumes "buffer_ok n"
  shows "bounded_session (process n) proc_sent proc_typed (\<lambda>x. length x \<le> max_reply)"
proof unfold_locales
  fix h recvs r h' out
  assume a: "proc_typed h" "process n recvs h = Inr (r, h')"
  note step = process_typed [OF a(1) assms a(2)]
  show "proc_typed h'" using step ..
  show "\<exists>out. proc_sent h' = proc_sent h @ out \<and> length out \<le> 1" using step by blast
  show "proc_sent h' = proc_sent h @ out \<Longrightarrow> list_all (\<lambda>x. length x \<le> max_reply) out"
    using step by auto
qed

interpretation pt: bounded_session "process cmd_buffer_len" proc_sent proc_typed
    "\<lambda>x. length x \<le> max_reply"
  by (rule bounded_process [OF buffer_ok_used(1)])

interpretation st: bounded_session "process BUFSIZ" proc_sent proc_typed
    "\<lambda>x. length x \<le> max_reply"
  by (rule bounded_process [OF buffer_ok_used(2)])

lemma opened_typed:
  assumes "open_handler env accept (new_proc_handler host self mx) = Inr (r, h)"
  shows "proc_typed h"
proof -
  have "m_strToken h = []"
    using assms
    by (auto simp: open_handler_def output_boiler_plate_def map_commands_def silent_def
        new_proc_handler_def stream_def output_prompt_def flush_stream_to_connector_def
        concurrency_def log_op_def Let_def split: option.splits if_splits)
  with open_handler_cases [OF assms] show ?thesis by (simp add: proc_typed_def)
qed

text \<open>
  C8. The type every session keeps. From \<open>open\<close> on, for whatever bytes arrive in whatever
  pieces, with either buffer of the program, the handler keeps its shape: nothing is left in
  the output stream, the command map and the connection state hold what they may hold, and
  the token it echoes has at most ten characters and no space. Hence no client can make the
  daemon answer one call of \<open>process\<close> with more than 63 bytes.
\<close>
theorem session_well_typed:
  assumes "open_handler env accept (new_proc_handler host self mx) = Inr (r, h)"
    and "n = cmd_buffer_len \<or> n = BUFSIZ"
    and "serve (process n) inputs h = Inr (b, h')"
  shows "proc_typed h' \<and> (\<exists>out. proc_sent h' = greeting (c_str host) # out \<and>
    list_all (\<lambda>x. length x \<le> 63) out)"
proof -
  have t: "proc_typed h" by (rule opened_typed [OF assms(1)])
  obtain out where out: "proc_sent h' = proc_sent h @ out"
    using assms(2,3) pt.sent_serve [OF t] st.sent_serve [OF t] by blast
  have "proc_typed h'" "list_all (\<lambda>x. length x \<le> max_reply) out"
    using assms(2,3) pt.inv_serve [OF t] st.inv_serve [OF t] pt.fits_serve [OF t _ out]
      st.fits_serve [OF t _ out] by blast+
  with out open_handler_cases [OF assms(1)] show ?thesis
    by (simp add: max_reply_def constMaxTokenLength_def)
qed

theorem session_well_typed_witness:
  "\<exists>b h'. serve (process cmd_buffer_len) [[login_line], [login_line]] sample_handler = Inr (b, h') \<and>
     proc_typed h'"
proof -
  obtain h' where s: "serve (process cmd_buffer_len) [[login_line], [login_line]] sample_handler = Inr (False, h')"
    using serve_whole_requests [OF sample_inv(1) _ buffer_ok_used(1), of "[login_line, login_line]"]
      login_line_ok by auto
  with session_well_typed [OF sample_open disjI1 [OF refl] s] show ?thesis by auto
qed

end
