(* ===== verification/Dispatcher.thy ===== *)
theory Dispatcher
  imports Server_Sessions Proc_Typing
begin

text \<open>
  The dispatcher as a whole: the operations of its handler (Proc_Handler, Proc_Reactor) and of
  its pool (Pool) as the parts of a server of Reactor_System. The contracts of
  Server_Contract and Server_Answers are discharged for them; the properties then hold in all
  interleavings of the reactor, the workers, the threads of the connections, the timers and
  the thread that stops the pool, under each strategy of the acceptor.
\<close>

definition proc_server :: "proc_handler server" where
  "proc_server = \<lparr>sv_new = new_proc_handler, sv_open = open_handler, sv_close = close,
     sv_input = handle_input, sv_process = process, sv_handle_close = handle_close,
     sv_timeout = handle_timeout, sv_calls = ops, sv_start = start, sv_enqueue = enqueue,
     sv_svc = svc_step, sv_stop = stop_step\<rparr>"

lemma proc_server_sel [simp]:
  "sv_new proc_server = new_proc_handler" "sv_open proc_server = open_handler"
  "sv_close proc_server = close" "sv_input proc_server = handle_input"
  "sv_process proc_server = process" "sv_handle_close proc_server = handle_close"
  "sv_timeout proc_server = handle_timeout" "sv_calls proc_server = ops"
  "sv_start proc_server = start" "sv_enqueue proc_server = enqueue"
  "sv_svc proc_server = svc_step" "sv_stop proc_server = stop_step"
  by (simp_all add: proc_server_def)

section \<open>What a call does to a handler\<close>

definition proc_alive :: "concurrency_t \<Rightarrow> nat \<Rightarrow> proc_handler \<Rightarrow> bool" where
  "proc_alive c self h \<longleftrightarrow> \<not> deleted h \<and> proc_typed h \<and> m_proc_acceptor h = Some c \<and> creator h = self"

lemma answer_request_keeps:
  assumes "proc_inv h" "size_ok req" "answer_request req h = (r, h')"
  shows "deleted h' = deleted h \<and> creator h' = creator h \<and> m_proc_acceptor h' = m_proc_acceptor h"
  using assms(1,2)
proof (cases rule: answer_request_cases)
  case (short h1)
  with assms(3) show ?thesis by (auto simp: send_reply_def elim!: refusedE)
next
  case (error h1)
  with assms(3) show ?thesis by (auto simp: send_reply_def elim!: refusedE)
next
  case (login h1)
  with assms(3) show ?thesis by (auto simp: send_reply_def elim!: logged_inE)
qed

lemma process_keeps:
  assumes inv: "proc_inv h" and n: "buffer_ok n" and p: "process n recvs h = Inr (r, h')"
  shows "deleted h' = deleted h \<and> creator h' = creator h \<and> m_proc_acceptor h' = m_proc_acceptor h"
proof -
  let ?h = "h\<lparr>m_proc_packet_error := peNoPacketError\<rparr>"
  have "h' = ?h \<or> (\<exists>req. length req \<le> constCommandBufferLength + n \<and> answer_request req ?h = (r, h'))"
    using process_loop_result [of "replicate n NUL" "[]" recvs ?h r h'] p n
    by (auto simp: process_def buffer_ok_def)
  then show ?thesis
  proof (elim disjE exE conjE)
    fix req
    assume len: "length req \<le> constCommandBufferLength + n" and a: "answer_request req ?h = (r, h')"
    have "size_ok req"
      using len n
      by (simp add: size_ok_def buffer_ok_def cmd_buffer_len_def constCommandBufferLength_def
          npos_def)
    from answer_request_keeps [OF proc_inv_reset [OF inv] this a] show ?thesis by simp
  qed simp
qed

lemma alive_upd [simp]:
  "proc_alive c self (h\<lparr>ops := xs\<rparr>) = proc_alive c self h"
  "proc_alive c self (h\<lparr>m_lastActivityTime := t\<rparr>) = proc_alive c self h"
  by (simp_all add: proc_alive_def proc_typed_def proc_inv_def)

lemma process_alive:
  assumes a: "proc_alive c self h" and n: "buffer_ok n" and p: "process n recvs h = Inr (r, h1)"
  shows "proc_alive c self h1 \<and> (\<exists>out. ops h1 = ops h @ map Send_n out)"
proof -
  have t: "proc_typed h" "proc_inv h" using a by (simp_all add: proc_alive_def proc_typed_def)
  obtain out where "ops h1 = ops h @ map Send_n out" using process_step [OF t(2) n p] by blast
  then show ?thesis
    using a process_keeps [OF t(2) n p] process_typed [OF t(1) n p] by (auto simp: proc_alive_def)
qed

lemma process_fault_overread:
  assumes "process n recvs h = Inl f" "4 < n"
  shows "f = Overread \<and> \<not> fits n recvs"
proof -
  have "f = Overread"
    using assms(1) by (auto simp: process_def process_loop_outcome split: read_outcome.splits)
  with process_no_fault [of recvs n h] assms show ?thesis by (force simp: fits_def list_all_iff)
qed

lemma handle_input_queues:
  assumes "proc_alive thread_pool self h" "e_self env = self"
  shows "handle_input env recvs h = Inr (e_enqueue env,
    h\<lparr>m_lastActivityTime := e_now env, ops := ops h @ [Remove_Handler True, Pool_Enqueue]\<rparr>)"
  using assms
  by (simp add: proc_alive_def handle_input_def concurrency_def enqueue_self_def log_op_def Let_def)

lemma handle_input_processes:
  assumes "proc_alive c self h" "c \<noteq> thread_pool \<or> e_self env \<noteq> self"
  shows "handle_input env recvs h =
    (case process cmd_buffer_len recvs (h\<lparr>m_lastActivityTime := e_now env\<rparr>) of
       Inl f \<Rightarrow> Inl f
     | Inr (r, h) \<Rightarrow> Inr (r, if c = thread_pool \<and> r \<noteq> -1 then log_op Register_Handler h else h))"
  using assms
  by (auto simp: proc_alive_def handle_input_def concurrency_def Let_def split: sum.splits)

lemma log_op_alive [simp]: "proc_alive c self (log_op x h) = proc_alive c self h"
  by (simp add: log_op_def)

lemma open_accepts:
  "\<exists>h hello. open_handler env (Some c) (new_proc_handler host self mx) = Inr (open_result c env, h) \<and>
     proc_alive c self h \<and> ops h = Send_n hello # open_calls c env mx"
proof -
  let ?o = "open_handler env (Some c) (new_proc_handler host self mx)"
  have "\<exists>h hello. ?o = Inr (open_result c env, h) \<and> ops h = Send_n hello # open_calls c env mx"
    by (simp add: open_handler_def output_boiler_plate_def map_commands_def silent_def
        new_proc_handler_def stream_def output_prompt_def flush_stream_to_connector_def
        concurrency_def log_op_def Let_def open_result_def open_calls_def)
  then obtain h hello where h: "?o = Inr (open_result c env, h)" "ops h = Send_n hello # open_calls c env mx"
    by blast
  have "proc_alive c self h"
    using open_handler_cases [OF h(1)] opened_typed [OF h(1)] by (simp add: proc_alive_def)
  with h show ?thesis by blast
qed

lemma close_deletes:
  assumes "\<not> deleted h"
  shows "\<exists>h1. close h = Inr (0, h1) \<and> deleted h1 \<and>
    ops h1 = ops h @ [Remove_Handler True, Delete_This, Peer_Close]"
  using assms by (simp add: close_def destroy_def destructor_def log_op_def)

lemma handle_close_deletes:
  assumes "\<not> deleted h"
  shows "\<exists>h1 bye. handle_close env h = Inr (0, h1) \<and> deleted h1 \<and>
    ops h1 = ops h @ map Send_n bye @ [Remove_Handler True, Delete_This, Peer_Close]"
  using assms
  by (auto simp: handle_close_def destroy_def destructor_def flush_stream_to_connector_def stream_def
      log_op_def Let_def intro: exI [of _ "[]"] exI [of _ "[x]" for x])

interpretation pv: connection_server proc_server proc_alive deleted
proof unfold_locales
  fix c self h recvs r h1 and env :: ace_env
  assume "proc_alive c self h" "c \<noteq> thread_pool \<or> e_self env \<noteq> self"
    and "sv_input proc_server env recvs h = Inr (r, h1)"
  then obtain g where g: "process cmd_buffer_len recvs (h\<lparr>m_lastActivityTime := e_now env\<rparr>) = Inr (r, g)"
      "h1 = (if c = thread_pool \<and> r \<noteq> -1 then log_op Register_Handler g else g)"
    by (auto simp: handle_input_processes split: sum.splits)
  have "proc_alive c self (h\<lparr>m_lastActivityTime := e_now env\<rparr>)" using \<open>proc_alive c self h\<close> by simp
  from process_alive [OF this buffer_ok_used(1) g(1)] g(2)
  show "proc_alive c self h1 \<and> (\<exists>out. sv_calls proc_server h1 = sv_calls proc_server h @
      map Send_n out @ (if c = thread_pool \<and> r \<noteq> -1 then [Register_Handler] else []))"
    by auto
next
  fix c self h recvs f and env :: ace_env
  assume a: "proc_alive c self h" and i: "sv_input proc_server env recvs h = Inl f"
  have "c \<noteq> thread_pool \<or> e_self env \<noteq> self"
    using a i handle_input_queues [of self h env recvs] by auto
  with a i show "f = Overread \<and> \<not> fits cmd_buffer_len recvs"
    by (auto simp: handle_input_processes cmd_buffer_len_def dest: process_fault_overread split: sum.splits)
next
  fix mem now c self h and env :: ace_env
  show "sv_timeout proc_server env mem now (void_ptr timer_id) h = Inl Null_Deref"
    by (simp add: handle_timeout_def void_ptr_def timer_id_def)
next
  fix self h recvs and env :: ace_env
  assume "proc_alive thread_pool self h" "e_self env = self"
  then show "\<exists>h1. sv_input proc_server env recvs h = Inr (e_enqueue env, h1) \<and>
      proc_alive thread_pool self h1 \<and>
      sv_calls proc_server h1 = sv_calls proc_server h @ [Remove_Handler True, Pool_Enqueue]"
    by (simp add: handle_input_queues)
next
  fix c self h recvs f
  assume "sv_process proc_server BUFSIZ recvs h = Inl f"
  then show "f = Overread \<and> \<not> fits BUFSIZ recvs"
    using process_fault_overread [of BUFSIZ recvs h f] by (simp add: BUFSIZ_def)
next
  fix c self h recvs r h1
  assume "proc_alive c self h" "sv_process proc_server BUFSIZ recvs h = Inr (r, h1)"
  then show "proc_alive c self h1 \<and>
      (\<exists>out. sv_calls proc_server h1 = sv_calls proc_server h @ map Send_n out)"
    using process_alive [OF _ buffer_ok_used(2)] by simp
next
  fix c host self mx and env :: ace_env
  show "\<exists>h hello. sv_open proc_server env (Some c) (sv_new proc_server host self mx) =
      Inr (open_result c env, h) \<and> proc_alive c self h \<and>
      sv_calls proc_server h = Send_n hello # open_calls c env mx"
    using open_accepts [of env c host self mx] by simp
next
  fix h :: proc_handler and env :: ace_env
  assume "\<not> deleted h"
  then show "\<exists>h1 bye. sv_handle_close proc_server env h = Inr (0, h1) \<and> deleted h1 \<and>
      sv_calls proc_server h1 = sv_calls proc_server h @ map Send_n bye @
        [Remove_Handler True, Delete_This, Peer_Close]"
    using handle_close_deletes [of h env] by simp
qed (simp_all add: close_deletes, simp add: proc_alive_def)

interpretation pa: answering_server proc_server proc_alive deleted proc_sent spec_of spec_step
proof unfold_locales
  fix self h recvs r h1 and env :: ace_env
  assume "proc_alive thread_pool self h" "e_self env = self" "sv_input proc_server env recvs h = Inr (r, h1)"
  then show "proc_sent h1 = proc_sent h \<and> spec_of h1 = spec_of h"
    by (auto simp: handle_input_queues proc_sent_def spec_of_def authenticated_def
        check_connection_state_def)
next
  fix c self h req and env :: ace_env
  assume a: "proc_alive c self h" "c \<noteq> thread_pool \<or> e_self env \<noteq> self"
    and req: "whole_request cmd_buffer_len req"
  let ?g = "h\<lparr>m_lastActivityTime := e_now env\<rparr>"
  have inv: "proc_inv ?g" using a by (simp add: proc_alive_def proc_typed_def proc_inv_def)
  have sp: "spec_of ?g = spec_of h" "proc_sent ?g = proc_sent h"
    by (simp_all add: spec_of_def proc_sent_def authenticated_def check_connection_state_def)
  obtain h1 where p: "process cmd_buffer_len [req] ?g = Inr (0, h1)"
      "proc_sent h1 = proc_sent h @ [fst (spec_step req (spec_of h))]"
      "spec_of h1 = snd (spec_step req (spec_of h))"
    using process_whole_request [OF inv _ _ _ buffer_ok_used(1), of req "[]"] req sp
    by (auto simp: whole_request_def)
  have "proc_sent (log_op Register_Handler h1) = proc_sent h1"
    "spec_of (log_op Register_Handler h1) = spec_of h1"
    by (simp_all add: spec_of_def proc_sent_def authenticated_def check_connection_state_def)
  with p show "\<exists>h1. sv_input proc_server env [req] h = Inr (0, h1) \<and>
      proc_sent h1 = proc_sent h @ [fst (spec_step req (spec_of h))] \<and>
      spec_of h1 = snd (spec_step req (spec_of h))"
    by (simp add: handle_input_processes [OF a])
next
  fix c self h req
  assume a: "proc_alive c self h" and req: "whole_request BUFSIZ req"
  then have "proc_inv h" by (simp add: proc_alive_def proc_typed_def)
  from process_whole_request [OF this _ _ _ buffer_ok_used(2), of req "[]"] req
  show "\<exists>h1. sv_process proc_server BUFSIZ [req] h = Inr (0, h1) \<and>
      proc_sent h1 = proc_sent h @ [fst (spec_step req (spec_of h))] \<and>
      spec_of h1 = snd (spec_step req (spec_of h))"
    by (auto simp: whole_request_def)
qed

lemma answers_spec_run: "answers_of spec_step reqs st = spec_run reqs st"
  by (induction reqs arbitrary: st) (simp_all add: spec_run_Cons, simp add: spec_run_def)

section \<open>The sessions of the dispatcher\<close>

definition goodbye :: "ace_env \<Rightarrow> string" where
  "goodbye env = '' * goodbye '' @ client_addr env @ ''......chromatic unvierse cci-daemon-dispatcher'' @ crlf"

lemma process_replies:
  assumes inv: "proc_inv h" and n: "buffer_ok n" and p: "process n recvs h = Inr (r, h1)"
  shows "proc_sent h1 = proc_sent h \<and> spec_of h1 = spec_of h \<or>
    (\<exists>req. proc_sent h1 = proc_sent h @ [fst (spec_step req (spec_of h))] \<and>
      spec_of h1 = snd (spec_step req (spec_of h)))"
proof -
  have "h1 = reset_error h \<or>
      (\<exists>req. length req \<le> constCommandBufferLength + n \<and> answer_request req (reset_error h) = (r, h1))"
    using process_loop_result [of "replicate n NUL" "[]" recvs "reset_error h" r h1] p n
    by (auto simp: process_def buffer_ok_def)
  then show ?thesis
  proof (elim disjE exE conjE)
    assume "h1 = reset_error h"
    then show ?thesis by (simp add: proc_sent_def)
  next
    fix req
    assume "length req \<le> constCommandBufferLength + n" and a: "answer_request req (reset_error h) = (r, h1)"
    then have "size_ok req" using small_ok [OF n, of req] by simp
    from answer_request_refines [OF proc_inv_reset [OF inv] this, of peNoPacketError] a
    have "proc_sent h1 = proc_sent h @ [fst (spec_step req (spec_of h))] \<and>
        spec_of h1 = snd (spec_step req (spec_of h))"
      by (auto simp: proc_sent_def)
    then show ?thesis by blast
  qed
qed

lemma handle_close_bids_goodbye:
  assumes "proc_inv h" "handle_close env h = Inr (r, h1)"
  shows "proc_sent h1 = proc_sent h @ [goodbye env] \<and> spec_of h1 = spec_of h"
  using assms
  by (auto simp: handle_close_def proc_inv_def destroy_def destructor_def goodbye_def
      flush_stream_to_connector_def stream_def log_op_def proc_sent_def spec_of_def
      authenticated_def check_connection_state_def Let_def split: if_splits)

lemma opened_token:
  "open_handler env accept (new_proc_handler host self mx) = Inr (r, h) \<Longrightarrow> m_strToken h = []"
  by (auto simp: open_handler_def output_boiler_plate_def map_commands_def silent_def
      new_proc_handler_def stream_def output_prompt_def flush_stream_to_connector_def
      concurrency_def log_op_def Let_def split: option.splits if_splits)

interpretation px: session_server proc_server proc_alive deleted proc_sent spec_of spec_step
    "\<lambda>host. greeting (c_str host)" goodbye "([], False)"
proof unfold_locales
  fix env :: ace_env and c host self mx r h
  assume "sv_open proc_server env (Some c) (sv_new proc_server host self mx) = Inr (r, h)"
  then have "open_handler env (Some c) (new_proc_handler host self mx) = Inr (r, h)" by simp
  from open_handler_cases [OF this] opened_token [OF this]
  show "proc_sent h = [greeting (c_str host)] \<and> spec_of h = ([], False)" by (simp add: spec_of_def)
next
  fix env :: ace_env and c self h recvs r h1
  assume a: "proc_alive c self h" "c \<noteq> thread_pool \<or> e_self env \<noteq> self"
    and "sv_input proc_server env recvs h = Inr (r, h1)"
  then obtain g where g: "process cmd_buffer_len recvs (h\<lparr>m_lastActivityTime := e_now env\<rparr>) = Inr (r, g)"
      "h1 = (if c = thread_pool \<and> r \<noteq> -1 then log_op Register_Handler g else g)"
    by (auto simp: handle_input_processes split: sum.splits)
  let ?h = "h\<lparr>m_lastActivityTime := e_now env\<rparr>"
  have "proc_inv ?h" using a(1) by (simp add: proc_alive_def proc_typed_def proc_inv_def)
  note rep = process_replies [OF this buffer_ok_used(1) g(1)]
  have "proc_sent h1 = proc_sent g" "spec_of h1 = spec_of g" "proc_sent ?h = proc_sent h" "spec_of ?h = spec_of h"
    by (simp_all add: g(2) proc_sent_def spec_of_def authenticated_def check_connection_state_def)
  with rep show "proc_sent h1 = proc_sent h \<and> spec_of h1 = spec_of h \<or>
      (\<exists>req. proc_sent h1 = proc_sent h @ [fst (spec_step req (spec_of h))] \<and>
        spec_of h1 = snd (spec_step req (spec_of h)))" by (simp only:)
next
  fix c self h recvs r h1
  assume "proc_alive c self h" "sv_process proc_server BUFSIZ recvs h = Inr (r, h1)"
  then show "proc_sent h1 = proc_sent h \<and> spec_of h1 = spec_of h \<or>
      (\<exists>req. proc_sent h1 = proc_sent h @ [fst (spec_step req (spec_of h))] \<and>
        spec_of h1 = snd (spec_step req (spec_of h)))"
    using process_replies [OF _ buffer_ok_used(2)] by (simp add: proc_alive_def proc_typed_def)
next
  fix h r h1
  assume "sv_close proc_server h = Inr (r, h1)"
  then show "proc_sent h1 = proc_sent h \<and> spec_of h1 = spec_of h"
    by (auto simp: close_def destroy_def destructor_def log_op_def proc_sent_def spec_of_def
        authenticated_def check_connection_state_def split: if_splits)
next
  fix env :: ace_env and c self h r h1
  assume "proc_alive c self h" "sv_handle_close proc_server env h = Inr (r, h1)"
  then show "proc_sent h1 = proc_sent h @ [goodbye env] \<and> spec_of h1 = spec_of h"
    using handle_close_bids_goodbye by (simp add: proc_alive_def proc_typed_def)
qed

text \<open>The machine acknowledges a login at most once.\<close>

lemma strip_end_length: "length (strip_end s) \<le> length s"
  by (simp add: strip_end_def)

lemma command_word_length: "length (command_word s) \<le> length s"
  by (auto simp: command_word_def words_of_Some strip_end_length split: option.splits)

lemma short_line_judged: "short_line req \<Longrightarrow> judge req tok b = (tok', v) \<Longrightarrow> v \<noteq> None"
proof (rule notI)
  assume s: "short_line req" and j: "judge req tok b = (tok', v)" and "v = None"
  then obtain t rest where r: "words_of req = Some (t, rest)" "map tolower (command_word rest) = ''login''"
    by (auto simp: judge_def split: if_splits option.splits prod.splits)
  have "length (map tolower (command_word rest)) = 5" by (simp only: r(2)) simp
  then have "length (command_word rest) = 5" by simp
  with command_word_length [of rest] r(1) s show False
    by (auto simp: words_of_Some short_line_def)
qed

lemma judge_error: "judge req tok b = (tok', Some e) \<Longrightarrow> e \<noteq> peNoPacketError"
  by (auto simp: judge_def split: if_splits option.splits prod.splits)

lemma spec_step_ack:
  assumes "spec_step req (tok, b) = (x, (tok', b'))"
  shows "is_login_ack x = (\<not> b \<and> b')" "b \<Longrightarrow> b'"
proof -
  obtain t v where j: "judge req tok b = (t, v)" by fastforce
  have "v = None \<Longrightarrow> \<not> b" using j by (auto simp: judge_def split: if_splits option.splits prod.splits)
  with assms j short_line_judged [OF _ j] judge_error [of req tok b t]
  show "is_login_ack x = (\<not> b \<and> b')" "b \<Longrightarrow> b'"
    by (auto simp: spec_step_def error_reply_no_ack split: option.splits if_splits)
qed

lemma spec_run_acks:
  "length (filter is_login_ack (fst (spec_run reqs (tok, b)))) + (if b then 1 else 0) =
     (if snd (snd (spec_run reqs (tok, b))) then 1 else 0)"
proof (induction reqs arbitrary: tok b)
  case Nil
  then show ?case by (simp add: spec_run_def)
next
  case (Cons req reqs)
  obtain x tok' b' where s: "spec_step req (tok, b) = (x, (tok', b'))" by (rule prod_cases3)
  from Cons.IH [of tok' b'] spec_step_ack [OF s] s show ?case
    by (auto simp: spec_run_Cons split_beta split: if_splits)
qed

lemma goodbye_no_ack: "\<not> is_login_ack (goodbye env)"
  by (auto simp: is_login_ack_def goodbye_def suffix_to_prefix crlf_def)

definition proc_session :: "proc_handler option \<Rightarrow> (string \<times> bool) session" where
  "proc_session x =
     (case x of None \<Rightarrow> No_Session | Some h \<Rightarrow> Session (proc_sent h) (spec_of h) (\<not> deleted h))"

lemma proc_session_view: "proc_session = px.view"
  by (simp add: fun_eq_iff proc_session_def px.view_def)

section \<open>A running dispatcher\<close>

text \<open>A pool with one worker, started, and one connection, accepted by thread 1.\<close>

definition demo_setting :: setting where
  "demo_setting = \<lparr>policy = thread_pool, reactor_thread = 1, benign = True, small_reads = True\<rparr>"

definition demo_handler :: proc_handler where
  "demo_handler = snd (projr (open_handler sample_env (Some thread_pool)
     (new_proc_handler ''node1'' 1 (time_value max_client_timeout))))"

lemma demo_opened: "open_handler sample_env (Some thread_pool)
    (new_proc_handler ''node1'' 1 (time_value max_client_timeout)) = Inr (0, demo_handler)"
  by (simp add: demo_handler_def sample_env_def open_handler_def concurrency_def Let_def
      output_boiler_plate_def map_commands_def silent_def new_proc_handler_def stream_def
      output_prompt_def flush_stream_to_connector_def)

lemma demo_fields: "m_strToken demo_handler = []" "\<not> deleted demo_handler"
  "\<exists>hello. ops demo_handler = Send_n hello #
     open_calls thread_pool sample_env (time_value max_client_timeout)"
  by (simp_all add: demo_handler_def sample_env_def open_handler_def concurrency_def Let_def
      output_boiler_plate_def map_commands_def silent_def new_proc_handler_def stream_def
      output_prompt_def flush_stream_to_connector_def open_calls_def)

lemma demo_sent: "proc_sent demo_handler = [greeting (c_str ''node1'')]" "spec_of demo_handler = ([], False)"
  using open_handler_cases [OF demo_opened] demo_fields(1) by (simp_all add: spec_of_def)

lemma pool_running:
  assumes "policy c = thread_pool" "reactor_thread c = 1"
  shows "\<exists>s. system_reach proc_server c new_system s \<and> conns s = [7 \<mapsto> demo_handler] \<and>
     reading s = {7} \<and> workers (sys_pool s) = [Waiting] \<and> msg_queue (sys_pool s) = [] \<and>
     crashed s = None"
proof -
  let ?S = "proc_server" and ?c = "c" and ?s0 = "new_system :: proc_handler system"
  let ?a = "\<lparr>a_cancelled = False, a_getq_fails = False, a_handle_input = 0\<rparr>"
  let ?s1 = "?s0\<lparr>sys_pool := snd (start True 1 new_pool)\<rparr>"
  have s1: "system_step ?S ?c ?s0 ?s1"
    using system_step.Start_Pool [of ?c ?s0 ?S True 1]
    by (simp add: new_system_def new_pool_def assms)
  have w1: "workers (sys_pool ?s1) = [Starting]" "msg_queue (sys_pool ?s1) = []"
    by (simp_all add: start_def new_pool_def)
  let ?s2 = "?s1\<lparr>sys_pool := set_worker 0 Waiting (counter_guard (sys_pool ?s1))\<rparr>"
  have s2: "system_step ?S ?c ?s1 ?s2"
    by (rule system_step.Worker [where a = ?a]) (use w1 in simp_all)
  have w2: "workers (sys_pool ?s2) = [Waiting]" "msg_queue (sys_pool ?s2) = []"
    using w1 by (simp_all add: set_worker_def counter_guard_def)
  let ?s3 = "conn_step ?S sample_env 7 [] demo_handler ?s2"
  have "accepted ?S sample_env (policy ?c) (sv_new ?S ''node1'' (reactor_thread ?c)
      (time_value max_client_timeout)) = Inr demo_handler"
    using demo_opened by (simp add: accepted_def assms)
  then have s3: "system_step ?S ?c ?s2 ?s3"
    using system_step.Accept [of ?s2 7 ?S ?c sample_env "''node1''"] by (simp add: settle_def new_system_def)
  have "reading ?s3 = {7}"
  proof -
    obtain hello where "ops demo_handler = Send_n hello #
        open_calls thread_pool sample_env (time_value max_client_timeout)"
      using demo_fields(3) by blast
    then show ?thesis by (simp add: open_calls_def sample_env_def new_system_def)
  qed
  moreover have "conns ?s3 = [7 \<mapsto> demo_handler]" "crashed ?s3 = None" by (simp_all add: new_system_def)
  moreover have "system_reach ?S ?c ?s0 ?s3"
    using system_reach.Then [OF system_reach.Then [OF system_reach_step [OF _ s1] _ s2] _ s3]
    by (simp add: new_system_def)
  ultimately show ?thesis using w2 by (intro exI [of _ ?s3]) simp
qed

lemmas demo_running = pool_running [of demo_setting, simplified demo_setting_def setting.simps simp_thms,
    folded demo_setting_def]

section \<open>A registration that fails\<close>

text \<open>
  The worker does not look at the result of registering the handler again: if it fails, the
  connection stays open and nobody holds it any more.
\<close>

lemma registration_failure_leaks:
  assumes c: "policy c = thread_pool" "reactor_thread c = 1" "\<not> benign c"
  shows "\<exists>s h. system_reach proc_server c new_system s \<and> conns s 7 = Some h \<and> \<not> deleted h \<and>
     count (owned s) 7 = 0"
proof -
  let ?env = "sample_env\<lparr>e_self := 2, e_register_handler := -1\<rparr>"
  let ?a = "\<lparr>a_cancelled = False, a_getq_fails = False, a_handle_input = 0\<rparr>"
  obtain s where s: "system_reach proc_server c new_system s" "conns s = [7 \<mapsto> demo_handler]"
    "reading s = {7}" "workers (sys_pool s) = [Waiting]" "msg_queue (sys_pool s) = []" "crashed s = None"
    using pool_running [OF c(1,2)] by blast
  have i: "7 \<in> reading s" "conns s 7 = Some demo_handler" using s by simp_all
  obtain t1 h1 where t1: "system_step proc_server c s t1" "crashed t1 = None"
    "conns t1 = (conns s)(7 \<mapsto> h1)" "workers (sys_pool t1) = [Waiting]"
    "msg_queue (sys_pool t1) = [Some 7]"
    using pa.queue_step [OF c(1) pv.system_inv [OF s(1)] i] s by auto
  then obtain t2 where t2: "system_step proc_server c t1 t2" "crashed t2 = None" "conns t2 7 = Some h1"
    "workers (sys_pool t2) = [Got (Some 7)]" "msg_queue (sys_pool t2) = []"
    using pa.take_step [of 0 t1 7 c] by auto
  have r2: "system_reach proc_server c new_system t2"
    using system_reach.Then [OF system_reach.Then [OF s(1,6) t1(1)] t1(2) t2(1)] .
  note inv = pv.system_inv [OF r2]
  then have fin: "finite (reading t2)" "finite (threads t2)" "count (owned t2) 7 \<le> 1"
    by (simp_all add: pv.sys_inv_defs)
  have al: "proc_alive thread_pool 1 h1" using pv.held_by [OF inv t2(3)] t2(4) c by auto
  let ?env' = "?env\<lparr>e_now := clock t2\<rparr>"
  let ?g = "h1\<lparr>m_lastActivityTime := clock t2, m_proc_packet_error := peNoPacketError\<rparr>"
  have hi: "sv_input proc_server ?env' [] h1 = Inr (a_handle_input ?a, log_op Register_Handler ?g)"
    by (simp add: handle_input_processes [OF al] process_def)
  obtain q where sv: "svc_step ?a (Got (Some 7)) (sys_pool t2) = Some (Waiting, q)"
    "workers q = workers (sys_pool t2)" "msg_queue q = []" using t2(5) by (simp add: Let_def guard_defs)
  let ?t = "conn_step proc_server ?env' 7 (ops h1) (log_op Register_Handler ?g)
    (t2\<lparr>sys_pool := set_worker 0 Waiting q\<rparr>)"
  have "system_step proc_server c t2 ?t"
    using system_step.Work [where c = c, OF _ _ t2(3) _ _ _ _ hi, of 0 Waiting q] t2(4) c sv(1)
    by (simp add: upcall_def settle_def fits_def)
  then have r: "system_reach proc_server c new_system ?t" by (rule system_reach.Then [OF r2 t2(2)])
  have "7 \<notin> reading t2 \<and> 7 \<notin> threads t2"
    using fin t2(4) by (auto simp: count_owned split: if_splits)
  then have "count (owned ?t) 7 = 0" using fin sv t2(4) by (simp add: count_owned set_worker_def)
  moreover have "\<not> deleted (log_op Register_Handler ?g)" using al by (simp add: proc_alive_def)
  ultimately show ?thesis using r by (intro exI [of _ ?t] exI [of _ "log_op Register_Handler ?g"]) simp
qed

lemma thread_strategy:
  assumes "system_reach proc_server c new_system s" and c: "policy c = thread_per_connection"
  shows "reading s = {}" "benign c \<Longrightarrow> conns s i = Some h \<Longrightarrow> \<not> deleted h \<Longrightarrow> i \<in> threads s"
proof -
  note inv = pv.system_inv [OF assms(1)]
  with c show "reading s = {}" by (simp add: pv.sys_inv_defs)
  with inv c show "benign c \<Longrightarrow> conns s i = Some h \<Longrightarrow> \<not> deleted h \<Longrightarrow> i \<in> threads s"
    by (auto simp: pv.sys_inv_defs owned_def)
qed

lemma thread_strategy_answers:
  assumes "system_reach proc_server c new_system s" "policy c = thread_per_connection" "benign c"
    and "crashed s = None" "conns s i = Some h" "\<not> deleted h"
    and "\<forall>req \<in> set reqs. plain req \<and> LF \<in> set req \<and> length req < BUFSIZ"
  shows "\<exists>t h'. system_reach proc_server c s t \<and> conns t i = Some h' \<and>
    proc_sent h' = proc_sent h @ fst (spec_run reqs (spec_of h))"
proof -
  have "can_serve c 0 s i"
    using thread_strategy(2) [OF assms(1-3,5,6)] assms(2,4) by (simp add: can_serve_def)
  moreover have "list_all (whole_request (request_limit c)) reqs"
    using assms(2,7) by (auto simp: whole_request_def request_limit_def list_all_iff)
  ultimately show ?thesis
    using pa.answer_all [OF pv.system_inv [OF assms(1)] _ assms(5)]
    by (fastforce simp: pa.answered_def answers_spec_run)
qed

section \<open>Properties of the dispatcher\<close>

text \<open>
  C3. The concurrent server refines independent sessions. Whatever step the dispatcher takes
  from a reachable state - whichever thread takes it, under each strategy and whatever ACE
  answers - every connection takes steps of its own abstract session, which greets, answers
  requests by the protocol machine one after the other, and ends with at most a goodbye. So
  everything any connection has ever sent is the greeting, the replies of one run of the
  machine and, if it has been closed, possibly a goodbye; replies are never lost, repeated or
  mixed up between connections or threads, and each connection has acknowledged at most one
  login, exactly if it is logged in.
\<close>
theorem dispatcher_refines_sessions:
  assumes "system_reach proc_server c new_system s"
  shows "(\<forall>t i. system_step proc_server c s t \<longrightarrow>
      (session_step (\<lambda>host. greeting (c_str host)) goodbye spec_step ([], False))\<^sup>*\<^sup>*
        (proc_session (conns s i)) (proc_session (conns t i))) \<and>
    (\<forall>i h. conns s i = Some h \<longrightarrow>
      (\<exists>host reqs bye. proc_sent h = greeting (c_str host) # fst (spec_run reqs ([], False)) @ bye \<and>
         spec_of h = snd (spec_run reqs ([], False)) \<and>
         (bye = [] \<or> deleted h \<and> (\<exists>env. bye = [goodbye env]))) \<and>
      length (filter is_login_ack (proc_sent h)) = (if authenticated h then 1 else 0))"
proof -
  have "length (filter is_login_ack (proc_sent h)) = (if authenticated h then 1 else 0)"
    if "proc_sent h = greeting (c_str host) # fst (spec_run reqs ([], False)) @ bye"
      "spec_of h = snd (spec_run reqs ([], False))" "bye = [] \<or> (\<exists>env. bye = [goodbye env])"
    for h host reqs bye
  proof -
    have "authenticated h = snd (snd (spec_run reqs ([], False)))"
      using arg_cong [OF that(2), where f = snd] by (simp add: spec_of_def)
    with that(1,3) spec_run_acks [of reqs "[]" False] greeting_no_ack [of "c_str host"] goodbye_no_ack
    show ?thesis by auto
  qed
  moreover have "\<exists>host reqs bye. proc_sent h = greeting (c_str host) # fst (spec_run reqs ([], False)) @ bye \<and>
         spec_of h = snd (spec_run reqs ([], False)) \<and>
         (bye = [] \<or> deleted h \<and> (\<exists>env. bye = [goodbye env]))" if "conns s i = Some h" for i h
    using px.reachable_told [OF assms, of i] that
    by (simp add: told_def px.view_def answers_spec_run) blast
  ultimately show ?thesis
    using px.system_step_sessions [OF _ pv.system_inv [OF assms]]
    unfolding proc_session_view by meson
qed

theorem dispatcher_refines_sessions_witness:
  "\<exists>s. system_reach proc_server demo_setting new_system s \<and> conns s 7 = Some demo_handler \<and>
     (\<exists>host reqs bye. proc_sent demo_handler =
        greeting (c_str host) # fst (spec_run reqs ([], False)) @ bye) \<and>
     length (filter is_login_ack (proc_sent demo_handler)) = 0"
proof -
  obtain s where s: "system_reach proc_server demo_setting new_system s" "conns s = [7 \<mapsto> demo_handler]"
    using demo_running by blast
  have h: "conns s 7 = Some demo_handler" using s(2) by simp
  have "\<not> authenticated demo_handler" using demo_sent by (simp add: spec_of_def)
  with conjunct2 [OF dispatcher_refines_sessions [OF s(1)], rule_format, OF h] s(1) h show ?thesis
    by (metis (no_types, lifting))
qed

text \<open>
  C2. Every connection has one owner. In all interleavings of the reactor's thread, the
  workers, the connections' threads, timers, starting and stopping, under each strategy and
  whatever ACE answers: a handler is registered with the reactor, or has a running thread, or
  waits in the queue once, or is in the hands of one worker, and never two of these; no two
  workers hold the same handler; whoever holds a handler finds it not deleted and well formed.
  If allocations, the queue and registrations do not fail, every connection that has not been
  closed has its owner: none is ever forgotten.
\<close>
theorem connections_owned_once:
  assumes "system_reach proc_server c new_system s"
  shows "(\<forall>i. count (owned s) i \<le> 1) \<and>
    (\<forall>k l i. k < length (workers (sys_pool s)) \<and> l < length (workers (sys_pool s)) \<and>
       workers (sys_pool s) ! k = Got (Some i) \<and> workers (sys_pool s) ! l = Got (Some i) \<longrightarrow> k = l) \<and>
    (\<forall>i. i \<in># owned s \<longrightarrow> (\<exists>h. conns s i = Some h \<and> \<not> deleted h \<and> proc_typed h \<and>
       m_proc_acceptor h = Some (policy c))) \<and>
    (benign c \<longrightarrow> (\<forall>i h. conns s i = Some h \<and> \<not> deleted h \<longrightarrow> count (owned s) i = 1))"
  using pv.owners_of_reachable [OF assms] by (auto simp: proc_alive_def)

theorem connections_owned_once_witness:
  "\<exists>s. system_reach proc_server demo_setting new_system s \<and> conns s 7 = Some demo_handler \<and>
     count (owned s) 7 = 1"
proof -
  obtain s where s: "system_reach proc_server demo_setting new_system s" "conns s = [7 \<mapsto> demo_handler]"
    using demo_running by blast
  with connections_owned_once [OF s(1)] demo_fields(2) show ?thesis by (auto simp: demo_setting_def)
qed

text \<open>
  C5. The dispatcher answers. From every reachable state in which a connection waits for input
  - under the pool also a worker waits - and for every sequence of requests that arrive on it,
  each in one read, there are steps that answer them all with exactly the replies of the
  abstract protocol machine, and end with the connection waiting again. This holds for a
  single thread, a thread for each connection and the pool alike.
\<close>
theorem dispatcher_serves:
  assumes "system_reach proc_server c new_system s" "can_serve c k s i" "conns s i = Some h"
    and "list_all (whole_request (request_limit c)) reqs"
  shows "\<exists>t h'. system_reach proc_server c s t \<and> can_serve c k t i \<and> conns t i = Some h' \<and>
    proc_sent h' = proc_sent h @ fst (spec_run reqs (spec_of h)) \<and>
    spec_of h' = snd (spec_run reqs (spec_of h))"
  using pa.answer_all [OF pv.system_reach_inv [OF assms(1) pv.new_system_inv] assms(2-4)]
  by (auto simp: pa.answered_def answers_spec_run)

theorem dispatcher_serves_witness:
  "\<exists>s t h'. system_reach proc_server demo_setting new_system s \<and>
     system_reach proc_server demo_setting s t \<and> conns t 7 = Some h' \<and>
     proc_sent h' = greeting (c_str ''node1'') # fst (spec_run [login_line] ([], False))"
proof -
  obtain s where s: "system_reach proc_server demo_setting new_system s" "conns s = [7 \<mapsto> demo_handler]"
    "reading s = {7}" "workers (sys_pool s) = [Waiting]" "msg_queue (sys_pool s) = []" "crashed s = None"
    using demo_running by blast
  then have c: "can_serve demo_setting 0 s 7" "conns s 7 = Some demo_handler"
    by (simp_all add: can_serve_def idle_worker_def demo_setting_def)
  have "list_all (whole_request (request_limit demo_setting)) [login_line]"
    using login_line_ok by (simp add: whole_request_def request_limit_def demo_setting_def)
  from dispatcher_serves [OF s(1) c this] s(1) demo_sent show ?thesis by auto
qed

text \<open>
  C6. What brings the dispatcher down. The process has undefined behaviour in two cases only:
  it reads past a buffer, which needs a read that fills it, or a timer expires, which takes
  thirty minutes. No interleaving uses a deleted handler. But every connection is fatal: from
  any state with a connection that is not closed, idle or not, thirty minutes of waiting alone
  lead to the timer of that connection, whose expiry dereferences a null pointer.
\<close>
theorem dispatcher_crashes:
  assumes "system_reach proc_server c new_system s"
  shows "(\<forall>f. crashed s = Some f \<longrightarrow>
      f = Null_Deref \<and> time_value 1800 \<le> clock s \<or> f = Overread \<and> \<not> small_reads c) \<and>
    (\<forall>i h. crashed s = None \<and> conns s i = Some h \<and> \<not> deleted h \<longrightarrow>
      (\<exists>t u. system_reach proc_server c s t \<and> conns t = conns s \<and>
         clock t \<le> clock s + time_value 1800 \<and> system_step proc_server c t u \<and>
         crashed u = Some Null_Deref))"
  using pv.crash_causes [OF assms] pv.connection_kills [OF assms]
  by (simp add: pv.explained_def max_client_timeout_def) blast

theorem dispatcher_crashes_witness:
  "\<exists>s t u. system_reach proc_server demo_setting new_system s \<and>
     system_reach proc_server demo_setting s t \<and> clock t \<le> clock s + time_value 1800 \<and>
     system_step proc_server demo_setting t u \<and> crashed u = Some Null_Deref"
proof -
  obtain s where s: "system_reach proc_server demo_setting new_system s" "conns s = [7 \<mapsto> demo_handler]"
    "crashed s = None" using demo_running by blast
  with dispatcher_crashes [OF s(1)] demo_fields(2) show ?thesis by (metis fun_upd_same)
qed

end
