(* ===== verification/Auth_Server.thy ===== *)
theory Auth_Server
  imports Server_Sessions Auth_Properties Acceptor
begin

text \<open>
  The authentication manager as a whole: its handler (Auth_Handler) and its pool (Acceptor) as
  the parts of a server of Reactor_System, with the contracts of Server_Contract and
  Server_Answers discharged for them. What holds of the dispatcher in all interleavings holds
  of the manager, with replies of its own.
\<close>

definition auth_server :: "auth_mgr_handler server" where
  "auth_server = \<lparr>sv_new = new_auth_mgr_handler, sv_open = auth_open_handler, sv_close = auth_close,
     sv_input = auth_handle_input, sv_process = auth_process, sv_handle_close = auth_handle_close,
     sv_timeout = auth_handle_timeout, sv_calls = ops_a, sv_start = auth_pool_start,
     sv_enqueue = auth_pool_enqueue, sv_svc = auth_pool_svc_step, sv_stop = auth_pool_stop_step\<rparr>"

lemma auth_server_sel [simp]:
  "sv_new auth_server = new_auth_mgr_handler" "sv_open auth_server = auth_open_handler"
  "sv_close auth_server = auth_close" "sv_input auth_server = auth_handle_input"
  "sv_process auth_server = auth_process" "sv_handle_close auth_server = auth_handle_close"
  "sv_timeout auth_server = auth_handle_timeout" "sv_calls auth_server = ops_a"
  by (simp_all add: auth_server_def)

lemma auth_pool_functions:
  "sv_start auth_server = start" "sv_enqueue auth_server = enqueue"
  "sv_svc auth_server = svc_step" "sv_stop auth_server = stop_step"
  by (auto simp: auth_server_def fun_eq_iff auth_pool_start_def start_def auth_pool_enqueue_eq
      auth_pool_svc_step_eq auth_pool_stop_step_eq)

section \<open>What a call does to a handler\<close>

definition auth_same :: "auth_mgr_handler \<Rightarrow> auth_mgr_handler \<Rightarrow> bool" where
  \<comment> \<open>the attributes that answering a request leaves alone\<close>
  "auth_same a b \<longleftrightarrow> deleted_a b = deleted_a a \<and> creator_a b = creator_a a \<and>
     m_auth_mgr_acceptor b = m_auth_mgr_acceptor a"

lemma auth_same_basic [simp]:
  "auth_same a (auth_stream s b) = auth_same a b"
  "auth_same a (auth_log_op x b) = auth_same a b"
  "auth_same a (b\<lparr>m_ostr_a := s\<rparr>) = auth_same a b"
  "auth_same a (b\<lparr>m_auth_packet_error := e\<rparr>) = auth_same a b"
  "auth_same a (b\<lparr>m_current_command_a := k\<rparr>) = auth_same a b"
  "auth_same a a"
  by (simp_all add: auth_same_def auth_stream_def auth_log_op_def)

lemma auth_same_flush [simp]: "auth_same a (auth_flush_stream_to_connector b) = auth_same a b"
  by (simp add: auth_flush_stream_to_connector_def)

lemma auth_same_parse: "auth_parse_command p ps a = (a1, parts) \<Longrightarrow> auth_same a a1"
proof -
  assume "auth_parse_command p ps a = (a1, parts)"
  with auth_parse_frame [of p ps a]
  have "a1 = a\<lparr>m_str_token := m_str_token a1, m_str_command := m_str_command a1,
      m_auth_packet_error := m_auth_packet_error a1\<rparr>" by simp
  moreover have "auth_same a (a\<lparr>m_str_token := t, m_str_command := k, m_auth_packet_error := e\<rparr>)"
    for t k e by (simp add: auth_same_def)
  ultimately show ?thesis by metis
qed

lemma auth_same_perform: "auth_same a (auth_perform req a)"
proof (cases "req = []")
  case False
  obtain a1 parts where p: "auth_parse_command req [] a = (a1, parts)" by fastforce
  have "auth_same a (snd (auth_call_command f s a1))" for f s
    using auth_same_parse [OF p] by (cases f) (simp add: auth_on_login_def)
  with False p auth_same_parse [OF p] show ?thesis
    by (simp add: auth_perform_def Let_def split: option.splits)
qed (simp add: auth_perform_def)

lemma auth_same_answer: "auth_same a (snd (auth_answer_request req a))"
  using auth_same_perform [of a req]
  by (simp add: auth_answer_request_def auth_format_packet_error_def Let_def)

definition auth_alive :: "concurrency_t \<Rightarrow> nat \<Rightarrow> auth_mgr_handler \<Rightarrow> bool" where
  "auth_alive c self a \<longleftrightarrow> \<not> deleted_a a \<and> auth_inv a \<and> m_auth_mgr_acceptor a = Some c \<and>
     creator_a a = self"

lemma auth_alive_upd [simp]:
  "auth_alive c self (a\<lparr>ops_a := xs\<rparr>) = auth_alive c self a"
  "auth_alive c self (a\<lparr>m_last_activity_time := t\<rparr>) = auth_alive c self a"
  "auth_alive c self (auth_log_op x a) = auth_alive c self a"
  by (simp_all add: auth_alive_def auth_inv_def auth_log_op_def)

lemma auth_process_alive:
  assumes a: "auth_alive c self h" and n: "buffer_ok n" and p: "auth_process n recvs h = Inr (r, h1)"
  shows "auth_alive c self h1 \<and> (\<exists>out. ops_a h1 = ops_a h @ map Send_n out)"
proof -
  have inv: "auth_inv h" using a by (simp add: auth_alive_def)
  have "auth_same h (snd (auth_answer_request req (auth_reset_error h)))" for req
    using auth_same_answer [of "auth_reset_error h" req] by (simp add: auth_same_def)
  then have "auth_same h h1"
    using p by (auto simp: auth_process_def auth_process_loop_outcome split: read_outcome.splits)
      (metis snd_conv)
  with a auth_process_step [OF inv n p] show ?thesis by (auto simp: auth_alive_def auth_same_def)
qed

lemma auth_process_overread:
  assumes "auth_process n recvs h = Inl f" "4 < n"
  shows "f = Overread \<and> \<not> fits n recvs"
proof -
  have "read_request (replicate n NUL) [] recvs = Read_Overrun \<and> f = Overread"
    using assms(1) by (auto simp: auth_process_def auth_process_loop_outcome split: read_outcome.splits)
  then have "process n recvs g = Inl Overread" for g
    by (simp add: process_def process_loop_outcome)
  moreover have "f = Overread"
    using assms(1) by (auto simp: auth_process_def auth_process_loop_outcome split: read_outcome.splits)
  ultimately show ?thesis
    using process_no_fault [of recvs n] assms(2) by (force simp: fits_def list_all_iff)
qed

lemma auth_handle_input_queues:
  assumes "auth_alive thread_pool self h" "e_self env = self"
  shows "auth_handle_input env recvs h = Inr (e_enqueue env,
    h\<lparr>m_last_activity_time := e_now env, ops_a := ops_a h @ [Remove_Handler True, Pool_Enqueue]\<rparr>)"
  using assms
  by (simp add: auth_alive_def auth_handle_input_def auth_concurrency_def auth_enqueue_self_def
      auth_log_op_def Let_def)

lemma auth_handle_input_processes:
  assumes "auth_alive c self h" "c \<noteq> thread_pool \<or> e_self env \<noteq> self"
  shows "auth_handle_input env recvs h =
    (case auth_process cmd_buffer_len recvs (h\<lparr>m_last_activity_time := e_now env\<rparr>) of
       Inl f \<Rightarrow> Inl f
     | Inr (r, h) \<Rightarrow> Inr (r, if c = thread_pool \<and> r \<noteq> -1 then auth_log_op Register_Handler h else h))"
  using assms
  by (auto simp: auth_alive_def auth_handle_input_def auth_concurrency_def Let_def split: sum.splits)

lemma auth_open_accepts:
  "\<exists>h hello. auth_open_handler env (Some c) (new_auth_mgr_handler host self mx) =
     Inr (open_result c env, h) \<and> auth_alive c self h \<and> ops_a h = Send_n hello # open_calls c env mx"
  by (simp add: auth_open_handler_def auth_output_boiler_plate_def auth_map_commands_def
      new_auth_mgr_handler_def auth_stream_def auth_output_prompt_def
      auth_flush_stream_to_connector_def auth_concurrency_def auth_log_op_def Let_def
      open_result_def open_calls_def auth_alive_def auth_inv_def)

lemma auth_close_deletes:
  assumes "\<not> deleted_a h"
  shows "\<exists>h1. auth_close h = Inr (0, h1) \<and> deleted_a h1 \<and>
    ops_a h1 = ops_a h @ [Remove_Handler True, Delete_This, Peer_Close]"
  using assms by (simp add: auth_close_def auth_destroy_def auth_destructor_def auth_log_op_def)

lemma auth_handle_close_deletes:
  assumes "\<not> deleted_a h"
  shows "\<exists>h1 bye. auth_handle_close env h = Inr (0, h1) \<and> deleted_a h1 \<and>
    ops_a h1 = ops_a h @ map Send_n bye @ [Remove_Handler True, Delete_This, Peer_Close]"
  using assms
  by (auto simp: auth_handle_close_def auth_destroy_def auth_destructor_def
      auth_flush_stream_to_connector_def auth_stream_def auth_log_op_def Let_def
      intro: exI [of _ "[x]" for x])

interpretation av: connection_server auth_server auth_alive deleted_a
proof unfold_locales
  fix c self h recvs r h1 and env :: ace_env
  assume a: "auth_alive c self h" "c \<noteq> thread_pool \<or> e_self env \<noteq> self"
    and "sv_input auth_server env recvs h = Inr (r, h1)"
  then obtain g where g: "auth_process cmd_buffer_len recvs (h\<lparr>m_last_activity_time := e_now env\<rparr>) = Inr (r, g)"
      "h1 = (if c = thread_pool \<and> r \<noteq> -1 then auth_log_op Register_Handler g else g)"
    by (auto simp: auth_handle_input_processes split: sum.splits)
  have "auth_alive c self (h\<lparr>m_last_activity_time := e_now env\<rparr>)" using a by simp
  from auth_process_alive [OF this buffer_ok_used(1) g(1)] g(2)
  show "auth_alive c self h1 \<and> (\<exists>out. sv_calls auth_server h1 = sv_calls auth_server h @
      map Send_n out @ (if c = thread_pool \<and> r \<noteq> -1 then [Register_Handler] else []))"
    by (auto simp: auth_log_op_def)
next
  fix c self h recvs f and env :: ace_env
  assume a: "auth_alive c self h" and i: "sv_input auth_server env recvs h = Inl f"
  have "c \<noteq> thread_pool \<or> e_self env \<noteq> self"
    using a i auth_handle_input_queues [of self h env recvs] by auto
  with a i show "f = Overread \<and> \<not> fits cmd_buffer_len recvs"
    by (auto simp: auth_handle_input_processes cmd_buffer_len_def dest: auth_process_overread
        split: sum.splits)
next
  fix mem now c self h and env :: ace_env
  show "sv_timeout auth_server env mem now (void_ptr timer_id) h = Inl Null_Deref"
    by (simp add: auth_handle_timeout_def void_ptr_def timer_id_def)
next
  fix self h recvs and env :: ace_env
  assume "auth_alive thread_pool self h" "e_self env = self"
  then show "\<exists>h1. sv_input auth_server env recvs h = Inr (e_enqueue env, h1) \<and>
      auth_alive thread_pool self h1 \<and>
      sv_calls auth_server h1 = sv_calls auth_server h @ [Remove_Handler True, Pool_Enqueue]"
    by (simp add: auth_handle_input_queues)
next
  fix c self h recvs f
  assume "sv_process auth_server BUFSIZ recvs h = Inl f"
  then show "f = Overread \<and> \<not> fits BUFSIZ recvs"
    using auth_process_overread [of BUFSIZ recvs h f] by (simp add: BUFSIZ_def)
next
  fix c self h recvs r h1
  assume "auth_alive c self h" "sv_process auth_server BUFSIZ recvs h = Inr (r, h1)"
  then show "auth_alive c self h1 \<and>
      (\<exists>out. sv_calls auth_server h1 = sv_calls auth_server h @ map Send_n out)"
    using auth_process_alive [OF _ buffer_ok_used(2)] by simp
next
  fix c host self mx and env :: ace_env
  show "\<exists>h hello. sv_open auth_server env (Some c) (sv_new auth_server host self mx) =
      Inr (open_result c env, h) \<and> auth_alive c self h \<and>
      sv_calls auth_server h = Send_n hello # open_calls c env mx"
    using auth_open_accepts [of env c host self mx] by simp
next
  fix h :: auth_mgr_handler and env :: ace_env
  assume "\<not> deleted_a h"
  then show "\<exists>h1 bye. sv_handle_close auth_server env h = Inr (0, h1) \<and> deleted_a h1 \<and>
      sv_calls auth_server h1 = sv_calls auth_server h @ map Send_n bye @
        [Remove_Handler True, Delete_This, Peer_Close]"
    using auth_handle_close_deletes [of h env] by simp
qed (simp_all add: auth_pool_functions auth_close_deletes, simp add: auth_alive_def)

interpretation aa: answering_server auth_server auth_alive deleted_a auth_sent m_str_token auth_spec_step
proof unfold_locales
  fix self h recvs r h1 and env :: ace_env
  assume "auth_alive thread_pool self h" "e_self env = self" "sv_input auth_server env recvs h = Inr (r, h1)"
  then show "auth_sent h1 = auth_sent h \<and> m_str_token h1 = m_str_token h"
    by (auto simp: auth_handle_input_queues auth_sent_def)
next
  fix c self h req and env :: ace_env
  assume a: "auth_alive c self h" "c \<noteq> thread_pool \<or> e_self env \<noteq> self"
    and req: "whole_request cmd_buffer_len req"
  let ?g = "h\<lparr>m_last_activity_time := e_now env\<rparr>"
  have inv: "auth_inv ?g" using a by (simp add: auth_alive_def auth_inv_def)
  obtain h1 where p: "auth_process cmd_buffer_len [req] ?g = Inr (0, h1)"
      "auth_sent h1 = auth_sent h @ [fst (auth_spec_step req (m_str_token h))]"
      "m_str_token h1 = snd (auth_spec_step req (m_str_token h))"
    using auth_whole_request [OF inv _ _ _ buffer_ok_used(1), of req "[]"] req
    by (auto simp: whole_request_def auth_sent_def)
  have "auth_sent (auth_log_op Register_Handler h1) = auth_sent h1"
    "m_str_token (auth_log_op Register_Handler h1) = m_str_token h1"
    by (simp_all add: auth_sent_def auth_log_op_def)
  with p show "\<exists>h1. sv_input auth_server env [req] h = Inr (0, h1) \<and>
      auth_sent h1 = auth_sent h @ [fst (auth_spec_step req (m_str_token h))] \<and>
      m_str_token h1 = snd (auth_spec_step req (m_str_token h))"
    by (simp add: auth_handle_input_processes [OF a])
next
  fix c self h req
  assume a: "auth_alive c self h" and req: "whole_request BUFSIZ req"
  then have "auth_inv h" by (simp add: auth_alive_def)
  from auth_whole_request [OF this _ _ _ buffer_ok_used(2), of req "[]"] req
  show "\<exists>h1. sv_process auth_server BUFSIZ [req] h = Inr (0, h1) \<and>
      auth_sent h1 = auth_sent h @ [fst (auth_spec_step req (m_str_token h))] \<and>
      m_str_token h1 = snd (auth_spec_step req (m_str_token h))"
    by (auto simp: whole_request_def)
qed

lemma answers_auth_spec_run: "answers_of auth_spec_step reqs st = auth_spec_run reqs st"
  by (induction reqs arbitrary: st) simp_all

section \<open>The sessions of the manager\<close>

definition auth_goodbye :: "ace_env \<Rightarrow> string" where
  "auth_goodbye env = '' * goodbye '' @ auth_client_addr env @ ''......chromatic auth-manager...'' @ crlf"

lemma auth_process_replies:
  assumes inv: "auth_inv a" and n: "buffer_ok n" and p: "auth_process n recvs a = Inr (r, a1)"
  shows "auth_sent a1 = auth_sent a \<and> m_str_token a1 = m_str_token a \<or>
    (\<exists>req. auth_sent a1 = auth_sent a @ [fst (auth_spec_step req (m_str_token a))] \<and>
      m_str_token a1 = snd (auth_spec_step req (m_str_token a)))"
proof (cases "read_request (replicate n NUL) [] recvs")
  case (Request_Read req)
  have "length req \<le> constCommandBufferLength + n"
    using read_request_bound [OF Request_Read] n by (simp add: buffer_ok_def)
  then have ok: "size_ok req" using small_ok [OF n, of req] by simp
  have "auth_inv (auth_reset_error a)" using inv by (simp add: auth_inv_def)
  from auth_answer_refines [OF this ok] Request_Read p
  have "auth_sent a1 = auth_sent a @ [fst (auth_spec_step req (m_str_token a))] \<and>
      m_str_token a1 = snd (auth_spec_step req (m_str_token a))"
    by (auto simp: auth_process_def auth_process_loop_outcome auth_sent_def)
  then show ?thesis by blast
qed (use p in \<open>auto simp: auth_process_def auth_process_loop_outcome auth_sent_def\<close>)

lemma auth_handle_close_bids_goodbye:
  assumes "auth_inv a" "auth_handle_close env a = Inr (r, a1)"
  shows "auth_sent a1 = auth_sent a @ [auth_goodbye env] \<and> m_str_token a1 = m_str_token a"
  using assms
  by (auto simp: auth_handle_close_def auth_inv_def auth_destroy_def auth_destructor_def
      auth_goodbye_def auth_flush_stream_to_connector_def auth_stream_def auth_log_op_def
      auth_sent_def Let_def split: if_splits)

interpretation ax: session_server auth_server auth_alive deleted_a auth_sent m_str_token auth_spec_step
    "\<lambda>host. auth_greeting (c_str host)" auth_goodbye "[]"
proof unfold_locales
  fix env :: ace_env and c host self mx r h
  assume "sv_open auth_server env (Some c) (sv_new auth_server host self mx) = Inr (r, h)"
  then have "auth_open_handler env (Some c) (new_auth_mgr_handler host self mx) = Inr (r, h)" by simp
  from auth_open_cases [OF this]
  show "auth_sent h = [auth_greeting (c_str host)] \<and> m_str_token h = []" by simp
next
  fix env :: ace_env and c self h recvs r h1
  assume a: "auth_alive c self h" "c \<noteq> thread_pool \<or> e_self env \<noteq> self"
    and "sv_input auth_server env recvs h = Inr (r, h1)"
  then obtain g where g: "auth_process cmd_buffer_len recvs (h\<lparr>m_last_activity_time := e_now env\<rparr>) = Inr (r, g)"
      "h1 = (if c = thread_pool \<and> r \<noteq> -1 then auth_log_op Register_Handler g else g)"
    by (auto simp: auth_handle_input_processes split: sum.splits)
  let ?h = "h\<lparr>m_last_activity_time := e_now env\<rparr>"
  have "auth_inv ?h" using a(1) by (simp add: auth_alive_def auth_inv_def)
  note rep = auth_process_replies [OF this buffer_ok_used(1) g(1)]
  have "auth_sent h1 = auth_sent g" "m_str_token h1 = m_str_token g" "auth_sent ?h = auth_sent h"
    "m_str_token ?h = m_str_token h"
    by (simp_all add: g(2) auth_sent_def auth_log_op_def)
  with rep show "auth_sent h1 = auth_sent h \<and> m_str_token h1 = m_str_token h \<or>
      (\<exists>req. auth_sent h1 = auth_sent h @ [fst (auth_spec_step req (m_str_token h))] \<and>
        m_str_token h1 = snd (auth_spec_step req (m_str_token h)))" by (simp only:)
next
  fix c self h recvs r h1
  assume "auth_alive c self h" "sv_process auth_server BUFSIZ recvs h = Inr (r, h1)"
  then show "auth_sent h1 = auth_sent h \<and> m_str_token h1 = m_str_token h \<or>
      (\<exists>req. auth_sent h1 = auth_sent h @ [fst (auth_spec_step req (m_str_token h))] \<and>
        m_str_token h1 = snd (auth_spec_step req (m_str_token h)))"
    using auth_process_replies [OF _ buffer_ok_used(2)] by (simp add: auth_alive_def)
next
  fix h r h1
  assume "sv_close auth_server h = Inr (r, h1)"
  then show "auth_sent h1 = auth_sent h \<and> m_str_token h1 = m_str_token h"
    by (auto simp: auth_close_def auth_destroy_def auth_destructor_def auth_log_op_def
        auth_sent_def split: if_splits)
next
  fix env :: ace_env and c self h r h1
  assume "auth_alive c self h" "sv_handle_close auth_server env h = Inr (r, h1)"
  then show "auth_sent h1 = auth_sent h @ [auth_goodbye env] \<and> m_str_token h1 = m_str_token h"
    using auth_handle_close_bids_goodbye by (simp add: auth_alive_def)
qed

definition auth_session :: "auth_mgr_handler option \<Rightarrow> string session" where
  "auth_session x =
     (case x of None \<Rightarrow> No_Session | Some a \<Rightarrow> Session (auth_sent a) (m_str_token a) (\<not> deleted_a a))"

lemma auth_session_view: "auth_session = ax.view"
  by (simp add: fun_eq_iff auth_session_def ax.view_def)

section \<open>A running manager\<close>

text \<open>The strategy the service chooses: a thread for each connection; one connection.\<close>

definition threaded_setting :: setting where
  "threaded_setting = \<lparr>policy = thread_per_connection, reactor_thread = 1, benign = True,
     small_reads = True\<rparr>"

lemma auth_running:
  "\<exists>s h. system_reach auth_server threaded_setting new_system s \<and> conns s 5 = Some h \<and>
     can_serve threaded_setting 0 s 5 \<and> \<not> deleted_a h \<and> m_str_token h = [] \<and>
     auth_sent h = [auth_greeting (c_str ''node1'')]"
proof -
  let ?s0 = "new_system :: auth_mgr_handler system" and ?mx = "time_value max_client_timeout"
  obtain h hello where h: "auth_open_handler sample_env (Some thread_per_connection)
      (new_auth_mgr_handler ''node1'' 1 ?mx) = Inr (0, h)" "auth_alive thread_per_connection 1 h"
      "ops_a h = Send_n hello # open_calls thread_per_connection sample_env ?mx"
    using auth_open_accepts [of sample_env thread_per_connection "''node1''" 1 ?mx]
    by (auto simp: open_result_def sample_env_def)
  let ?t = "conn_step auth_server sample_env 5 [] h ?s0"
  have "accepted auth_server sample_env (policy threaded_setting)
      (sv_new auth_server ''node1'' (reactor_thread threaded_setting) ?mx) = Inr h"
    using h(1) by (simp add: accepted_def threaded_setting_def)
  then have "system_step auth_server threaded_setting ?s0 ?t"
    using system_step.Accept [of ?s0 5 auth_server threaded_setting sample_env "''node1''"]
    by (simp add: settle_def new_system_def)
  then have "system_reach auth_server threaded_setting ?s0 ?t"
    by (rule system_reach_step [rotated]) (simp add: new_system_def)
  moreover have "can_serve threaded_setting 0 ?t 5"
    by (simp add: can_serve_def threaded_setting_def new_system_def h(3) sample_env_def)
  ultimately show ?thesis
    using h(2) auth_open_cases [OF h(1)]
    by (intro exI [of _ ?t] exI [of _ h]) (simp add: auth_alive_def)
qed

section \<open>Properties of the authentication manager\<close>

text \<open>
  C27. The authentication manager refines independent sessions. Whatever step it takes from a
  reachable state, under each strategy, every connection takes steps of its own abstract
  session: a greeting, replies of the manager's specification one after the other, and an end
  with at most a goodbye. So what a connection has sent is the greeting, the replies to some
  sequence of requests and, if it is closed, possibly a goodbye, and its token is the one
  these requests leave.
\<close>
theorem auth_manager_refines_sessions:
  assumes "system_reach auth_server c new_system s"
  shows "(\<forall>t i. system_step auth_server c s t \<longrightarrow>
      (session_step (\<lambda>host. auth_greeting (c_str host)) auth_goodbye auth_spec_step [])\<^sup>*\<^sup>*
        (auth_session (conns s i)) (auth_session (conns t i))) \<and>
    (\<forall>i a. conns s i = Some a \<longrightarrow>
      (\<exists>host reqs bye. auth_sent a = auth_greeting (c_str host) # fst (auth_spec_run reqs []) @ bye \<and>
         m_str_token a = snd (auth_spec_run reqs []) \<and>
         (bye = [] \<or> deleted_a a \<and> (\<exists>env. bye = [auth_goodbye env]))))"
proof -
  have "\<exists>host reqs bye. auth_sent a = auth_greeting (c_str host) # fst (auth_spec_run reqs []) @ bye \<and>
         m_str_token a = snd (auth_spec_run reqs []) \<and>
         (bye = [] \<or> deleted_a a \<and> (\<exists>env. bye = [auth_goodbye env]))" if "conns s i = Some a" for i a
    using ax.reachable_told [OF assms, of i] that
    by (simp add: told_def ax.view_def answers_auth_spec_run) blast
  then show ?thesis
    using ax.system_step_sessions [OF _ av.system_inv [OF assms]]
    unfolding auth_session_view by blast
qed

theorem auth_manager_refines_sessions_witness:
  "\<exists>s h. system_reach auth_server threaded_setting new_system s \<and> conns s 5 = Some h \<and>
     (\<exists>host reqs bye. auth_sent h = auth_greeting (c_str host) # fst (auth_spec_run reqs []) @ bye)"
proof -
  obtain s h where s: "system_reach auth_server threaded_setting new_system s" "conns s 5 = Some h"
    using auth_running by blast
  from conjunct2 [OF auth_manager_refines_sessions [OF s(1)], rule_format, OF s(2)] s show ?thesis
    by (metis (no_types, lifting))
qed

text \<open>
  C26. The connections of the authentication manager. In all interleavings and under each
  strategy every connection has at most one owner, who finds it not deleted, with nothing left
  in its stream and its command map complete; if ACE does not fail none is forgotten. Only an
  expired timer or a read that fills its buffer gives the process undefined behaviour, and
  every connection that is not closed does so within thirty minutes.
\<close>
theorem auth_connections_owned:
  assumes "system_reach auth_server c new_system s"
  shows "(\<forall>i. count (owned s) i \<le> 1) \<and>
    (\<forall>i. i \<in># owned s \<longrightarrow> (\<exists>a. conns s i = Some a \<and> \<not> deleted_a a \<and> auth_inv a)) \<and>
    (benign c \<longrightarrow> (\<forall>i a. conns s i = Some a \<and> \<not> deleted_a a \<longrightarrow> count (owned s) i = 1)) \<and>
    (\<forall>f. crashed s = Some f \<longrightarrow>
      f = Null_Deref \<and> time_value 1800 \<le> clock s \<or> f = Overread \<and> \<not> small_reads c) \<and>
    (\<forall>i a. crashed s = None \<and> conns s i = Some a \<and> \<not> deleted_a a \<longrightarrow>
      (\<exists>t u. system_reach auth_server c s t \<and> clock t \<le> clock s + time_value 1800 \<and>
         system_step auth_server c t u \<and> crashed u = Some Null_Deref))"
proof -
  note own = av.owners_of_reachable [OF assms]
  have "\<exists>a. conns s i = Some a \<and> \<not> deleted_a a \<and> auth_inv a" if "i \<in># owned s" for i
    using own that by (auto simp: auth_alive_def)
  moreover have "\<exists>t u. system_reach auth_server c s t \<and> clock t \<le> clock s + time_value 1800 \<and>
         system_step auth_server c t u \<and> crashed u = Some Null_Deref"
    if "crashed s = None" "conns s i = Some a" "\<not> deleted_a a" for i a
    using av.connection_kills [OF assms that] by (auto simp: max_client_timeout_def)
  moreover have "f = Null_Deref \<and> time_value 1800 \<le> clock s \<or> f = Overread \<and> \<not> small_reads c"
    if "crashed s = Some f" for f
    using av.crash_causes [OF assms] that by (simp add: av.explained_def max_client_timeout_def)
  ultimately show ?thesis using own by blast
qed

theorem auth_connections_owned_witness:
  "\<exists>s. system_reach auth_server threaded_setting new_system s \<and> count (owned s) 5 = 1"
proof -
  obtain s h where s: "system_reach auth_server threaded_setting new_system s" "conns s 5 = Some h"
    "\<not> deleted_a h" using auth_running by blast
  with auth_connections_owned [OF s(1)] show ?thesis by (auto simp: threaded_setting_def)
qed

text \<open>
  C28. The authentication manager answers. From every reachable state in which a connection
  waits, and a worker if there is a pool, every sequence of requests that arrive in one read
  each can be answered with exactly the replies of the manager's specification, under each of
  the three strategies, and the connection then waits again.
\<close>
theorem auth_manager_serves:
  assumes "system_reach auth_server c new_system s" "can_serve c k s i" "conns s i = Some a"
    and "list_all (whole_request (request_limit c)) reqs"
  shows "\<exists>t a'. system_reach auth_server c s t \<and> can_serve c k t i \<and> conns t i = Some a' \<and>
    auth_sent a' = auth_sent a @ fst (auth_spec_run reqs (m_str_token a)) \<and>
    m_str_token a' = snd (auth_spec_run reqs (m_str_token a))"
  using aa.answer_all [OF av.system_inv [OF assms(1)] assms(2-4)]
  by (auto simp: aa.answered_def answers_auth_spec_run)

theorem auth_manager_serves_witness:
  "\<exists>s t a. system_reach auth_server threaded_setting new_system s \<and>
     system_reach auth_server threaded_setting s t \<and> conns t 5 = Some a \<and>
     auth_sent a = [auth_greeting (c_str ''node1''), []]"
proof -
  obtain s h where s: "system_reach auth_server threaded_setting new_system s"
    "can_serve threaded_setting 0 s 5" "conns s 5 = Some h" "m_str_token h = []"
    "auth_sent h = [auth_greeting (c_str ''node1'')]" using auth_running by blast
  have "list_all (whole_request (request_limit threaded_setting)) [auth_login_line]"
    using auth_login_ok
    by (simp add: whole_request_def request_limit_def threaded_setting_def auth_login_line_def crlf_def BUFSIZ_def)
  from auth_manager_serves [OF s(1-3) this] auth_login_ok s show ?thesis
    by (auto simp: auth_spec_step_def auth_login_judged)
qed

end
