(* ===== verification/Inotify.thy ===== *)
theory Inotify
  imports Os Cpp_String "HOL-Library.Word"
begin

text \<open>
  The file watcher of the cache service: cci_daemon/src/ccifs/HA_ccifs_dynamic.cpp. The
  buffer that read fills is a list of \<open>BUF_LEN\<close> bytes; the loop over it reads each event's
  header and name where the source's pointer arithmetic puts them, in little-endian order.
  What the operating system answers is a list: for each iteration the running flag and the
  result of read. When the list ends the thread is waiting in read, the value None.
\<close>

unbundle bit_operations_syntax

section \<open>Events in memory\<close>

definition sizeof_inotify_event :: nat where "sizeof_inotify_event = 16"
definition NAME_MAX :: nat where "NAME_MAX = 255"
definition BUF_LEN :: nat where "BUF_LEN = 10 * (sizeof_inotify_event + NAME_MAX + 1)"
definition IN_CREATE :: "32 word" where "IN_CREATE = 256"
definition IN_ALL_EVENTS :: "32 word" where "IN_ALL_EVENTS = 4095"

fun le_nat :: "string \<Rightarrow> nat" where
  \<comment> \<open>an unsigned integer in memory, low byte first\<close>
  "le_nat [] = 0"
| "le_nat (c # cs) = of_char c + 256 * le_nat cs"

definition u32_at :: "string \<Rightarrow> nat \<Rightarrow> 32 word" where
  "u32_at buf p = word_of_nat (le_nat (take 4 (drop p buf)))"

definition show_event :: "32 word \<Rightarrow> 32 word \<Rightarrow> string option \<Rightarrow> string" where
  "show_event wd cookie name =
     ''<created> decriptor: '' @ decimal_int (sint wd) @ '' cookie:'' @ decimal (unat cookie) @ '' '' @
     (case name of None \<Rightarrow> [] | Some s \<Rightarrow> ''name='' @ s)"

definition display_inotify_event :: "string \<Rightarrow> nat \<Rightarrow> fault + string list" where
  \<comment> \<open>the event at position \<open>p\<close>: the lines it logs\<close>
  "display_inotify_event buf p =
     (if u32_at buf (p + 4) AND IN_CREATE \<noteq> 0
      then if u32_at buf (p + 12) > 0
        then let name = drop (p + sizeof_inotify_event) buf in
          if NUL \<in> set name
          then Inr [show_event (u32_at buf p) (u32_at buf (p + 8)) (Some (c_str name))]
          else Inl Overread
        else Inr [show_event (u32_at buf p) (u32_at buf (p + 8)) None]
      else Inr [])"

section \<open>The loop over the buffer\<close>

function events_loop :: "string \<Rightarrow> nat \<Rightarrow> nat \<Rightarrow> string list \<Rightarrow> fault + string list" where
  "events_loop buf num_read p logged =
     (if p < num_read
      then if p + sizeof_inotify_event > length buf then Inl Overread
        else case display_inotify_event buf p of
          Inl f \<Rightarrow> Inl f
        | Inr ls \<Rightarrow> events_loop buf num_read
            (p + (sizeof_inotify_event + unat (u32_at buf (p + 12)))) (logged @ ls)
      else Inr logged)"
  by pat_completeness auto
termination
  by (relation "measure (\<lambda>(buf, n, p, ls). n - p)") (auto simp: sizeof_inotify_event_def)

declare events_loop.simps [simp del]

section \<open>The watcher\<close>

datatype read_result = Read_Error | Read_Nothing | Read_Bytes string

record ccifs =
  m_thread_id_fs :: int
  m_b_running :: bool
  m_str_tmpfs :: string

definition new_ccifs :: ccifs where
  "new_ccifs = \<lparr>m_thread_id_fs = 0, m_b_running = True, m_str_tmpfs = ''/var/ccifs/cache''\<rparr>"

definition fs :: "ccifs \<Rightarrow> string" where "fs c = m_str_tmpfs c"

fun inotify_loop :: "string \<Rightarrow> (bool \<times> read_result) list \<Rightarrow> string list
    \<Rightarrow> (int run \<times> string list) option" where
  "inotify_loop buf [] logged = None"
| "inotify_loop buf ((running, r) # answers) logged =
     (if \<not> running then Some (Return 0, logged)
      else case r of
        Read_Nothing \<Rightarrow> Some (Return (-1), logged)
      | Read_Error \<Rightarrow> Some (Return (-1), logged)
      | Read_Bytes bytes \<Rightarrow>
          let buf = bytes @ drop (length bytes) buf
          in case events_loop buf (length bytes) 0 [] of
               Inl f \<Rightarrow> Some (Crashes f, logged)
             | Inr ls \<Rightarrow> inotify_loop buf answers (logged @ ls))"

definition ccifs_inotify :: "int \<Rightarrow> (string \<Rightarrow> int) \<Rightarrow> string \<Rightarrow> (bool \<times> read_result) list \<Rightarrow> ccifs
    \<Rightarrow> (int run \<times> string list) option" where
  \<comment> \<open>the answers of inotify_init and inotify_add_watch, the buffer before the first read\<close>
  "ccifs_inotify inotify_fd add_watch buf answers c =
     (if inotify_fd = -1 then Some (Return (-1), [])
      else let wd = add_watch (m_str_tmpfs c) in
        if wd = -1 then Some (Return (-1), [])
        else inotify_loop buf answers [''ccifs added notify watch=>'' @ m_str_tmpfs c])"

section \<open>Events as the kernel writes them\<close>

record inotify_event =
  ev_wd :: "32 word"
  ev_mask :: "32 word"
  ev_cookie :: "32 word"
  ev_name :: string            \<comment> \<open>with its padding; its length is the field \<open>len\<close>\<close>

primrec le_bytes :: "nat \<Rightarrow> nat \<Rightarrow> string" where
  "le_bytes 0 n = []"
| "le_bytes (Suc k) n = char_of n # le_bytes k (n div 256)"

definition encode_event :: "inotify_event \<Rightarrow> string" where
  "encode_event e = le_bytes 4 (unat (ev_wd e)) @ le_bytes 4 (unat (ev_mask e)) @
     le_bytes 4 (unat (ev_cookie e)) @ le_bytes 4 (length (ev_name e)) @ ev_name e"

definition wf_event :: "inotify_event \<Rightarrow> bool" where
  "wf_event e \<longleftrightarrow> length (ev_name e) < 2 ^ 32 \<and> (ev_name e \<noteq> [] \<longrightarrow> NUL \<in> set (ev_name e))"

definition event_lines :: "inotify_event \<Rightarrow> string list" where
  "event_lines e =
     (if ev_mask e AND IN_CREATE \<noteq> 0
      then [show_event (ev_wd e) (ev_cookie e)
              (if ev_name e = [] then None else Some (c_str (ev_name e)))]
      else [])"

lemma length_le_bytes [simp]: "length (le_bytes k n) = k"
  by (induction k arbitrary: n) auto

lemma le_nat_bytes: "n < 256 ^ k \<Longrightarrow> le_nat (le_bytes k n) = n"
proof (induction k arbitrary: n)
  case (Suc k)
  then have "n div 256 < 256 ^ k" by (simp add: div_less_iff_less_mult mult.commute)
  with Suc.IH show ?case by simp
qed simp

lemma u32_at_bytes:
  assumes "buf = pre @ le_bytes 4 (unat w) @ rest" "length pre = p"
  shows "u32_at buf p = (w :: 32 word)"
proof -
  have "unat w < 2 ^ LENGTH(32)" by (rule unsigned_less)
  then have "unat w < 256 ^ 4" by simp
  with assms show ?thesis by (simp add: u32_at_def le_nat_bytes)
qed

lemma c_str_append_right: "NUL \<in> set s \<Longrightarrow> c_str (s @ t) = c_str s"
  by (simp add: c_str_def)

lemma event_fields:
  assumes "buf = pre @ encode_event e @ rest" "length pre = p" "length (ev_name e) < 2 ^ 32"
  shows "u32_at buf p = ev_wd e" "u32_at buf (p + 4) = ev_mask e" "u32_at buf (p + 8) = ev_cookie e"
    "unat (u32_at buf (p + 12)) = length (ev_name e)" "drop (p + 16) buf = ev_name e @ rest"
proof -
  have len: "unat (word_of_nat (length (ev_name e)) :: 32 word) = length (ev_name e)"
    using assms(3) by (simp add: unsigned_of_nat take_bit_nat_eq_self)
  let ?wd = "le_bytes 4 (unat (ev_wd e))" and ?mask = "le_bytes 4 (unat (ev_mask e))"
    and ?cookie = "le_bytes 4 (unat (ev_cookie e))" and ?len = "le_bytes 4 (length (ev_name e))"
  show "u32_at buf p = ev_wd e"
    by (rule u32_at_bytes [where pre = pre and rest = "?mask @ ?cookie @ ?len @ ev_name e @ rest"])
      (use assms in \<open>simp_all add: encode_event_def\<close>)
  show "u32_at buf (p + 4) = ev_mask e"
    by (rule u32_at_bytes [where pre = "pre @ ?wd" and rest = "?cookie @ ?len @ ev_name e @ rest"])
      (use assms in \<open>simp_all add: encode_event_def\<close>)
  show "u32_at buf (p + 8) = ev_cookie e"
    by (rule u32_at_bytes [where pre = "pre @ ?wd @ ?mask" and rest = "?len @ ev_name e @ rest"])
      (use assms in \<open>simp_all add: encode_event_def\<close>)
  have "u32_at buf (p + 12) = word_of_nat (length (ev_name e))"
    by (rule u32_at_bytes [where pre = "pre @ ?wd @ ?mask @ ?cookie" and rest = "ev_name e @ rest"])
      (use assms len in \<open>simp_all add: encode_event_def\<close>)
  with len show "unat (u32_at buf (p + 12)) = length (ev_name e)" by simp
  show "drop (p + 16) buf = ev_name e @ rest"
    using assms(1,2) by (simp add: encode_event_def)
qed

lemma display_encoded:
  assumes "buf = pre @ encode_event e @ rest" "length pre = p" "wf_event e"
  shows "display_inotify_event buf p = Inr (event_lines e)"
proof -
  have "length (ev_name e) < 2 ^ 32" using assms(3) by (simp add: wf_event_def)
  note f = event_fields [OF assms(1,2) this]
  have "0 < u32_at buf (p + 12) \<longleftrightarrow> ev_name e \<noteq> []"
    using f(4) by (simp add: word_less_nat_alt)
  with f assms(3) show ?thesis
    by (auto simp: display_inotify_event_def event_lines_def sizeof_inotify_event_def wf_event_def
        Let_def c_str_append_right)
qed

lemma events_loop_encoded:
  assumes "list_all wf_event es" "buf = pre @ concat (map encode_event es) @ rest"
    and "length pre = p" "num_read = p + length (concat (map encode_event es))"
  shows "events_loop buf num_read p logged = Inr (logged @ concat (map event_lines es))"
  using assms
proof (induction es arbitrary: pre p logged)
  case Nil
  then show ?case by (subst events_loop.simps) simp
next
  case (Cons e es)
  let ?rest = "concat (map encode_event es) @ rest"
  have e: "buf = pre @ encode_event e @ ?rest" "wf_event e" using Cons.prems by simp_all
  have l: "length (encode_event e) = 16 + length (ev_name e)" by (simp add: encode_event_def)
  have n: "unat (u32_at buf (p + 12)) = length (ev_name e)"
    using event_fields(4) [OF e(1) Cons.prems(3)] e(2) by (simp add: wf_event_def)
  have "events_loop buf num_read p logged =
      events_loop buf num_read (p + length (encode_event e)) (logged @ event_lines e)"
    using display_encoded [OF e(1) Cons.prems(3) e(2)] Cons.prems(3,4) l n e(1)
    by (subst events_loop.simps) (simp add: sizeof_inotify_event_def)
  also have "\<dots> = Inr ((logged @ event_lines e) @ concat (map event_lines es))"
    by (rule Cons.IH [where pre = "pre @ encode_event e"]) (use Cons.prems in simp_all)
  finally show ?case by simp
qed

text \<open>
  C32. Whatever events the kernel puts into the buffer in one read, each with a name that is
  terminated by a NUL or with none, the loop visits every one of them and logs exactly those
  that announce a new file, with its name; it never leaves the buffer. This holds for any
  earlier contents of the buffer and for as many reads as there are.
\<close>
theorem watcher_logs_created:
  assumes "list_all (list_all wf_event) batches"
    and "\<forall>es \<in> set batches. length (concat (map encode_event es)) \<le> length buf"
  shows "inotify_loop buf (map (\<lambda>es. (True, Read_Bytes (concat (map encode_event es)))) batches
      @ [(False, r)]) logged =
    Some (Return 0, logged @ concat (map (\<lambda>es. concat (map event_lines es)) batches))"
  using assms
proof (induction batches arbitrary: buf logged)
  case (Cons es batches)
  let ?bytes = "concat (map encode_event es)"
  let ?buf = "?bytes @ drop (length ?bytes) buf"
  have "events_loop ?buf (length ?bytes) 0 [] = Inr (concat (map event_lines es))"
    using events_loop_encoded [of es ?buf "[]" "drop (length ?bytes) buf" 0] Cons.prems by simp
  moreover have "length ?buf = length buf" using Cons.prems by simp
  ultimately show ?case using Cons.IH [of ?buf] Cons.prems by (simp add: Let_def)
qed simp

definition demo_event :: "string \<Rightarrow> inotify_event" where
  "demo_event name = \<lparr>ev_wd = 1, ev_mask = IN_CREATE, ev_cookie = 0,
     ev_name = name @ replicate 3 NUL\<rparr>"

lemma digit_chars: "char_of (49 :: nat) = CHR ''1''" "char_of (48 :: nat) = CHR ''0''"
  by code_simp+

theorem watcher_logs_created_witness:
  "inotify_loop (replicate BUF_LEN NUL)
     [(True, Read_Bytes (concat (map encode_event [demo_event ''a'', demo_event ''b'']))),
      (False, Read_Error)] [] =
   Some (Return 0, [''<created> decriptor: 1 cookie:0 name=a'', ''<created> decriptor: 1 cookie:0 name=b''])"
proof -
  have l: "event_lines (demo_event n) = [''<created> decriptor: 1 cookie:0 name='' @ n]"
    if "n = ''a'' \<or> n = ''b''" for n
    using that by (elim disjE) (simp_all add: event_lines_def demo_event_def show_event_def IN_CREATE_def
        decimal_int_def decimal.simps c_str_def NUL_def numeral_3_eq_3 digit_chars)
  have w: "list_all (list_all wf_event) [[demo_event ''a'', demo_event ''b'']]"
    by (simp add: wf_event_def demo_event_def numeral_3_eq_3)
  have b: "\<forall>es \<in> set [[demo_event ''a'', demo_event ''b'']].
      length (concat (map encode_event es)) \<le> length (replicate BUF_LEN NUL)"
    by (simp add: encode_event_def demo_event_def BUF_LEN_def sizeof_inotify_event_def NAME_MAX_def)
  show ?thesis
    using watcher_logs_created [OF w b, of Read_Error "[]"] by (simp add: l)
qed

end
