(* ===== verification/Services.thy ===== *)
theory Services
  imports Os Acceptor Inotify Auth_Handler
begin

text \<open>
  The services the coordinator loads: their \<open>init\<close>, \<open>fini\<close> and \<open>info\<close>, in
  HA_dispatcher_protocol_dynamic.cpp, HA_manager_protocol_dynamic.cpp and
  HA_ccifs_dynamic.cpp; the python service, HA_python_bootstrap.cpp, follows in Python_Boot and
  shares the configuration and the character arrays of this theory. The parts of ACE they call are a record of answers: what the
  option parser finds in an argument vector, in order, whether a configuration file can be
  imported and what its sections hold, whether a thread can be spawned, whether a port can
  be opened. Character arrays keep their size, so that strings longer than the array are
  where the source has them. Messages to the ACE log are left out unless named.
\<close>

section \<open>The environment\<close>

datatype opt = Opt_f string | Opt_missing_argument char | Opt_other

record ace_service =
  long_option :: int                                    \<comment> \<open>-1 if it could not be added\<close>
  get_opt :: "string list \<Rightarrow> opt list"
  import_config :: "string \<Rightarrow> int"
  has_section :: "string \<Rightarrow> string \<Rightarrow> bool"             \<comment> \<open>of an imported file\<close>
  integer_value :: "string \<Rightarrow> string \<Rightarrow> string \<Rightarrow> 32 word option"
  string_value :: "string \<Rightarrow> string \<Rightarrow> string \<Rightarrow> string option"
  can_spawn :: bool                                     \<comment> \<open>the workers of a pool\<close>
  base_open :: "16 word \<Rightarrow> int"
  base_close :: int
  thread_spawn :: int                                   \<comment> \<open>a group's number, -1 on failure\<close>
  spawned_id :: int                                     \<comment> \<open>the thread, if one was spawned\<close>

section \<open>Character arrays\<close>

definition MAXPATHLEN :: nat where "MAXPATHLEN = 4096"

definition strcpy :: "string \<Rightarrow> string \<Rightarrow> string" where
  \<comment> \<open>the array after the copy; no source here is longer than its array\<close>
  "strcpy dst src = c_str src @ [NUL] @ drop (Suc (length (c_str src))) dst"

definition strncpy :: "string \<Rightarrow> string \<Rightarrow> nat \<Rightarrow> string" where
  \<comment> \<open>exactly \<open>n\<close> bytes are written, without a NUL if the source has \<open>n\<close> or more\<close>
  "strncpy dst src n =
     take n (c_str src) @ replicate (n - length (c_str src)) NUL @ drop n dst"

definition c_read :: "string \<Rightarrow> fault + string" where
  "c_read buf = (if NUL \<in> set buf then Inr (c_str buf) else Inl Overread)"

lemma c_read_strncpy:
  "c_read (strncpy dst src (length dst)) =
     (if length (c_str src) < length dst then Inr (c_str src) else Inl Overread)"
proof (cases "length (c_str src) < length dst")
  case True
  then obtain k where k: "length dst = Suc (length (c_str src) + k)"
    by (metis less_imp_Suc_add add_Suc_right)
  have "no_nul (c_str src)" by (auto simp: no_nul_def c_str_def dest: set_takeWhileD)
  with k show ?thesis by (simp add: c_read_def strncpy_def)
next
  case False
  have "NUL \<notin> set (c_str src)" by (auto simp: c_str_def dest: set_takeWhileD)
  with False show ?thesis by (auto simp: c_read_def strncpy_def dest: in_set_takeD)
qed

section \<open>The command line of a service\<close>

fun config_options :: "string \<Rightarrow> opt list \<Rightarrow> string option" where
  \<comment> \<open>the array \<open>config_file\<close> after the loop, None for an early return\<close>
  "config_options config_file [] = Some config_file"
| "config_options config_file (Opt_f arg # opts) =
     config_options (strncpy config_file arg MAXPATHLEN) opts"
| "config_options config_file (Opt_missing_argument c # opts) = None"
| "config_options config_file (Opt_other # opts) = None"

definition config_path_of ::
    "ace_service \<Rightarrow> string \<Rightarrow> string \<Rightarrow> string list \<Rightarrow> (string run) option" where
  \<comment> \<open>the file to import: None for the result -1; \<open>stack\<close> is the array before it is written\<close>
  "config_path_of e conf_path stack argv =
     (if long_option e = -1 then None
      else case config_options (strcpy stack conf_path) (get_opt e argv) of
        None \<Rightarrow> None
      | Some buf \<Rightarrow> (case c_read buf of Inl f \<Rightarrow> Some (Crashes f) | Inr p \<Rightarrow> Some (Return p)))"

definition open_config ::
    "ace_service \<Rightarrow> string \<Rightarrow> string \<Rightarrow> string \<Rightarrow> string list \<Rightarrow> (string run) option" where
  \<comment> \<open>the part of every \<open>init\<close> up to its section\<close>
  "open_config e conf_path section_name stack argv =
     (case config_path_of e conf_path stack argv of
        Some (Return p) \<Rightarrow>
          if import_config e p = -1 then None
          else if \<not> has_section e p section_name then None
          else Some (Return p)
      | r \<Rightarrow> r)"

section \<open>The dispatcher\<close>

record proc_service =
  m_acceptor :: "proc_protocol_data acceptor"
  m_data :: proc_protocol_data
  listen_address :: "16 word option"     \<comment> \<open>the port of the address given to \<open>open\<close>\<close>
  hr_timer :: bool                       \<comment> \<open>the reactor's timer queue uses the high resolution timer\<close>

definition proc_conf_path :: string where
  "proc_conf_path = ''/etc/chromatic-universe/ha_proc_ace_acceptor.ini''"

definition new_proc_service :: proc_service where
  "new_proc_service = \<lparr>m_acceptor = new_proc_acceptor thread_per_connection,
     m_data = new_proc_protocol_data ''proc_ace_acceptor'', listen_address = None, hr_timer = False\<rparr>"

definition proc_service_init ::
    "ace_service \<Rightarrow> string \<Rightarrow> string list \<Rightarrow> proc_service \<Rightarrow> int run \<times> proc_service" where
  "proc_service_init e stack argv s =
     (case open_config e proc_conf_path ''HA_proc_ace_acceptor'' stack argv of
        None \<Rightarrow> (Return (-1), s)
      | Some (Return p) \<Rightarrow>
          (case integer_value e p ''HA_proc_ace_acceptor'' ''listen_port'' of
             None \<Rightarrow> (Return (-1), s)
           | Some dispatcher_port \<Rightarrow>
               let s = s\<lparr>m_data := (m_data s)\<lparr>m_dwPort := ucast dispatcher_port\<rparr>\<rparr>;
                   s = s\<lparr>hr_timer := True\<rparr>;
                   addr = ucast (m_dwPort (m_data s));
                   (r, a) = proc_acceptor_open (can_spawn e) (base_open e addr) (Some (m_data s))
                     (sint (ucast (m_dwThreads (m_data s)) :: 32 word)) (m_acceptor s);
                   s = s\<lparr>m_acceptor := a, listen_address := Some addr\<rparr>
               in if r = -1 then (Return (-1), s) else (Return 0, s))
      | Some (Crashes f) \<Rightarrow> (Crashes f, s)
      | Some r \<Rightarrow> (Return (-1), s))"

definition proc_service_fini :: "ace_service \<Rightarrow> proc_service \<Rightarrow> int \<times> proc_service" where
  "proc_service_fini e s =
     (let (r, a) = proc_acceptor_close (base_close e) (m_acceptor s) in (0, s\<lparr>m_acceptor := a\<rparr>))"

definition info_into :: "string \<Rightarrow> string option \<Rightarrow> nat \<Rightarrow> int run \<times> string option" where
  \<comment> \<open>the end of every \<open>info\<close>: the caller's array, None if it passed a null pointer\<close>
  "info_into buf str len =
     (case str of
        None \<Rightarrow> (Return (int (length buf)), Some (buf @ [NUL]))
      | Some s \<Rightarrow> let s = strncpy s buf len in
          (case c_read s of Inl f \<Rightarrow> (Crashes f, Some s) | Inr t \<Rightarrow> (Return (int (length t)), Some s)))"

definition proc_service_info :: "proc_service \<Rightarrow> string option \<Rightarrow> nat \<Rightarrow> int run \<times> string option" where
  "proc_service_info s str len =
     info_into (''HA_proc_ace_accepotr listening on port '' @ decimal (unat (m_dwPort (m_data s))) @ [LF])
       str len"

definition SIGINT_number :: int where "SIGINT_number = 2"

definition proc_service_signal :: "int \<Rightarrow> nat \<Rightarrow> int \<times> nat" where
  \<comment> \<open>its \<open>proc_signal_handler\<close>: the global \<open>g_dw_finished\<close>, which nothing reads\<close>
  "proc_service_signal signum g_dw_finished =
     (0, if signum = SIGINT_number then 1 else g_dw_finished)"

section \<open>The authentication manager\<close>

record auth_service =
  m_acceptor_a :: "auth_mgr_protocol_data acceptor"
  m_data_a :: auth_mgr_protocol_data
  listen_address_a :: "16 word option"
  hr_timer_a :: bool

definition auth_conf_path :: string where
  "auth_conf_path = ''/etc/chromatic-universe/ha_mgr_ace_acceptor.ini''"

definition new_auth_service :: auth_service where
  "new_auth_service = \<lparr>m_acceptor_a = new_auth_acceptor thread_per_connection,
     m_data_a = new_auth_mgr_protocol_data ''auth_mgr_acceptor'', listen_address_a = None, hr_timer_a = False\<rparr>"

definition auth_service_init ::
    "ace_service \<Rightarrow> string \<Rightarrow> string list \<Rightarrow> auth_service \<Rightarrow> int run \<times> auth_service" where
  "auth_service_init e stack argv s =
     (case open_config e auth_conf_path ''HA_auth_mgr_acceptor'' stack argv of
        None \<Rightarrow> (Return (-1), s)
      | Some (Return p) \<Rightarrow>
          (case integer_value e p ''HA_auth_mgr_acceptor'' ''listen_port'' of
             None \<Rightarrow> (Return (-1), s)
           | Some dispatcher_port \<Rightarrow>
               let s = s\<lparr>m_data_a := (m_data_a s)\<lparr>m_dwPort_a := ucast dispatcher_port\<rparr>\<rparr>;
                   s = s\<lparr>hr_timer_a := True\<rparr>;
                   addr = ucast (m_dwPort_a (m_data_a s));
                   (r, a) = auth_acceptor_open (can_spawn e) (base_open e addr) (Some (m_data_a s))
                     (sint (ucast (m_dw_threads (m_data_a s)) :: 32 word)) (m_acceptor_a s);
                   s = s\<lparr>m_acceptor_a := a, listen_address_a := Some addr\<rparr>
               in if r = -1 then (Return (-1), s) else (Return 0, s))
      | Some (Crashes f) \<Rightarrow> (Crashes f, s)
      | Some r \<Rightarrow> (Return (-1), s))"

definition auth_service_fini :: "ace_service \<Rightarrow> auth_service \<Rightarrow> int \<times> auth_service" where
  "auth_service_fini e s =
     (let (r, a) = auth_acceptor_close (base_close e) (m_acceptor_a s) in (0, s\<lparr>m_acceptor_a := a\<rparr>))"

definition auth_service_info :: "auth_service \<Rightarrow> string option \<Rightarrow> nat \<Rightarrow> int run \<times> string option" where
  "auth_service_info s str len =
     info_into (''HA_auth_mgr_acceptor listening on port '' @
       decimal (unat (m_dwPort_a (m_data_a s))) @ [LF]) str len"

section \<open>The cache\<close>

definition ccifs_conf_path :: string where
  "ccifs_conf_path = ''/etc/chromatic-universe/ha_ccifs.ini''"

definition ccifs_init ::
    "ace_service \<Rightarrow> string \<Rightarrow> string list \<Rightarrow> ccifs \<Rightarrow> int run \<times> string list \<times> ccifs" where
  \<comment> \<open>the result, what it logs of the thread, the object; \<open>fifo\<close> and the mount are read into
    locals that nothing uses, and spawn's -1 counts as success\<close>
  "ccifs_init e stack argv c =
     (case open_config e ccifs_conf_path ''HA_ccifs'' stack argv of
        None \<Rightarrow> (Return (-1), [], c)
      | Some (Return p) \<Rightarrow>
          (case integer_value e p ''HA_ccifs'' ''fifo'' of
             None \<Rightarrow> (Return (-1), [], c)
           | Some dispatcher_port \<Rightarrow>
               (case string_value e p ''HA_ccifs'' ''ccifs_tmpfs_mount'' of
                  None \<Rightarrow> (Return (-1), [], c)
                | Some mount_point \<Rightarrow>
                    let c = (if thread_spawn e = -1 then c else c\<lparr>m_thread_id_fs := spawned_id e\<rparr>)
                    in if thread_spawn e \<noteq> 0
                    then (Return 0, [''..spawned ccifs notify thread..''], c)
                    else (Return 0, [''..spawning ccifs notify failed..''], c)))
      | Some (Crashes f) \<Rightarrow> (Crashes f, [], c)
      | Some r \<Rightarrow> (Return (-1), [], c))"

datatype thread_call = Thread_Cancel int | Thread_Testcancel int

definition ccifs_fini :: "ccifs \<Rightarrow> int \<times> thread_call list \<times> ccifs" where
  "ccifs_fini c =
     (let c = (if m_b_running c then c\<lparr>m_b_running := False\<rparr> else c)
      in (0, [Thread_Cancel (m_thread_id_fs c), Thread_Testcancel (m_thread_id_fs c)], c))"

definition ccifs_info :: "string option \<Rightarrow> nat \<Rightarrow> int run \<times> string option" where
  "ccifs_info str len = info_into ''HA_ccifs initialized'' str len"

definition ccifs_func :: "int \<Rightarrow> (string \<Rightarrow> int) \<Rightarrow> string \<Rightarrow> (bool \<times> read_result) list \<Rightarrow> ccifs option
    \<Rightarrow> (unit run \<times> string list) option" where
  \<comment> \<open>the thread's function, and what it logs\<close>
  "ccifs_func inotify_fd add_watch buf answers ptr =
     (case ptr of
        None \<Rightarrow> Some (Return (), [])
      | Some c \<Rightarrow> (case ccifs_inotify inotify_fd add_watch buf answers c of
            Some (Crashes f, ls) \<Rightarrow> Some (Crashes f, ls)
          | Some (r, ls) \<Rightarrow> Some (Return (), ls)
          | None \<Rightarrow> None))"

section \<open>The configuration path\<close>

lemma length_strcpy: "length (c_str src) < length dst \<Longrightarrow> length (strcpy dst src) = length dst"
  by (simp add: strcpy_def)

lemma length_strncpy: "length (strncpy dst src n) = max n (length dst)"
  by (auto simp: strncpy_def max_def)

lemma c_read_strcpy: "c_read (strcpy dst src) = Inr (c_str src)"
proof -
  have "no_nul (c_str src)" by (auto simp: no_nul_def c_str_def dest: set_takeWhileD)
  then show ?thesis by (simp add: c_read_def strcpy_def)
qed

lemma config_options_args: "length buf = MAXPATHLEN \<Longrightarrow> args \<noteq> [] \<Longrightarrow>
    \<exists>buf'. config_options buf (map Opt_f args) = Some (strncpy buf' (last args) MAXPATHLEN) \<and>
      length buf' = MAXPATHLEN"
proof (induction args arbitrary: buf)
  case (Cons a args)
  then show ?case
    by (cases args) (auto simp: length_strncpy)
qed simp

text \<open>
  The configuration file a service imports. Without an option it is the service's own; with
  options it is the argument of the last one, if that is shorter than the array it is copied
  into. A longer argument is copied without its terminator, and the array is then read past
  its end.
\<close>

lemma config_path_of_opts:
  assumes "long_option e \<noteq> -1" "get_opt e argv = map Opt_f args"
    and "length stack = MAXPATHLEN" "length (c_str conf_path) < MAXPATHLEN"
  shows "config_path_of e conf_path stack argv =
    (if args = [] then Some (Return (c_str conf_path))
     else if length (c_str (last args)) < MAXPATHLEN then Some (Return (c_str (last args)))
     else Some (Crashes Overread))"
proof (cases "args = []")
  case True
  with assms show ?thesis by (simp add: config_path_of_def c_read_strcpy)
next
  case False
  have "length (strcpy stack conf_path) = MAXPATHLEN" using assms(3,4) by (simp add: length_strcpy)
  with config_options_args False obtain buf where
    "config_options (strcpy stack conf_path) (map Opt_f args) = Some (strncpy buf (last args) MAXPATHLEN)"
    "length buf = MAXPATHLEN" by blast
  with assms(1,2) False c_read_strncpy [of buf "last args"] show ?thesis
    by (simp add: config_path_of_def)
qed

definition demo_service :: ace_service where
  \<comment> \<open>a configuration with port 70000\<close>
  "demo_service = \<lparr>long_option = 0, get_opt = map Opt_f, import_config = (\<lambda>_. 0),
     has_section = (\<lambda>_ _. True), integer_value = (\<lambda>_ _ _. Some 70000),
     string_value = (\<lambda>_ _ _. Some ''/mnt/cache''), can_spawn = True, base_open = (\<lambda>_. 0),
     base_close = 0, thread_spawn = -1, spawned_id = 5\<rparr>"

lemma demo_service_sel [simp]:
  "long_option demo_service = 0" "get_opt demo_service = map Opt_f"
  by (simp_all add: demo_service_def)


section \<open>What the services share\<close>

lemma length_conf_paths [simp]:
  "length (c_str proc_conf_path) < MAXPATHLEN" "length (c_str auth_conf_path) < MAXPATHLEN"
  "length (c_str ccifs_conf_path) < MAXPATHLEN"
  by code_simp+


text \<open>
  Every service finds its configuration the same way before anything else. The locale says
  what \<open>init\<close> owes to that: without a configuration it fails and leaves the object alone, and
  it does not survive a fault in reading the path.
\<close>

locale configured_service =
  fixes init :: "ace_service \<Rightarrow> string \<Rightarrow> string list \<Rightarrow> 's \<Rightarrow> int run"
    and after :: "ace_service \<Rightarrow> string \<Rightarrow> string list \<Rightarrow> 's \<Rightarrow> 's"
    and conf :: string and sect :: string
  assumes none: "open_config e conf sect stack argv = None \<Longrightarrow>
      init e stack argv s = Return (-1) \<and> after e stack argv s = s"
    and faulty: "open_config e conf sect stack argv = Some (Crashes f) \<Longrightarrow>
      init e stack argv s = Crashes f \<and> after e stack argv s = s"
    and conf_fits: "length (c_str conf) < MAXPATHLEN"
begin

lemma overlong:
  assumes "long_option e \<noteq> -1" "get_opt e argv = map Opt_f args" "length stack = MAXPATHLEN"
    "args \<noteq> []" "MAXPATHLEN \<le> length (c_str (last args))"
  shows "init e stack argv s = Crashes Overread \<and> after e stack argv s = s"
  using config_path_of_opts [OF assms(1-3) conf_fits] assms(4,5)
  by (intro faulty) (simp add: open_config_def)

lemma unreadable:
  assumes "long_option e \<noteq> -1" "get_opt e argv = map Opt_f args" "length stack = MAXPATHLEN"
    "\<forall>a \<in> set args. length (c_str a) < MAXPATHLEN" "\<And>p. import_config e p = -1"
  shows "init e stack argv s = Return (-1) \<and> after e stack argv s = s"
proof (rule none)
  have "args \<noteq> [] \<Longrightarrow> length (c_str (last args)) < MAXPATHLEN" using assms(4) by simp
  then show "open_config e conf sect stack argv = None"
    using config_path_of_opts [OF assms(1-3) conf_fits] assms(5) by (simp add: open_config_def)
qed

lemma bad_option:
  assumes "get_opt e argv = map Opt_f args @ o' # others" "o' = Opt_other \<or> o' = Opt_missing_argument c"
  shows "init e stack argv s = Return (-1) \<and> after e stack argv s = s"
proof (rule none)
  have "config_options buf (map Opt_f args @ o' # others) = None" for buf
    using assms(2) by (induction args arbitrary: buf) auto
  then show "open_config e conf sect stack argv = None"
    using assms(1) by (simp add: open_config_def config_path_of_def)
qed

end

interpretation ds: configured_service "\<lambda>e stack argv s. fst (proc_service_init e stack argv s)"
    "\<lambda>e stack argv s. snd (proc_service_init e stack argv s)" proc_conf_path "''HA_proc_ace_acceptor''"
  by unfold_locales (simp_all add: proc_service_init_def)

interpretation ms: configured_service "\<lambda>e stack argv s. fst (auth_service_init e stack argv s)"
    "\<lambda>e stack argv s. snd (auth_service_init e stack argv s)" auth_conf_path "''HA_auth_mgr_acceptor''"
  by unfold_locales (simp_all add: auth_service_init_def)

interpretation cs: configured_service "\<lambda>e stack argv s. fst (ccifs_init e stack argv s)"
    "\<lambda>e stack argv s. snd (snd (ccifs_init e stack argv s))" ccifs_conf_path "''HA_ccifs''"
  by unfold_locales (simp_all add: ccifs_init_def)

section \<open>Properties of the services\<close>

text \<open>
  The dispatcher's service from \<open>init\<close> to \<open>fini\<close>. With a configuration that gives a port
  and a port that can be opened, \<open>init\<close> succeeds and hands the service's data to the
  acceptor, which listens on the low 16 bits of the configured number; \<open>info\<close> reports the
  number as configured. No thread of the acceptor's pool is ever started.
\<close>
theorem proc_service_life:
  assumes "open_config e proc_conf_path ''HA_proc_ace_acceptor'' stack argv = Some (Return p)"
    and "integer_value e p ''HA_proc_ace_acceptor'' ''listen_port'' = Some port"
    and "base_open e (ucast port) \<noteq> -1"
  shows "\<exists>s s' text. proc_service_init e stack argv new_proc_service = (Return 0, s) \<and>
    listen_address s = Some (ucast port) \<and> unat (m_dwPort (m_data s)) = unat port \<and>
    m_instance_data (m_acceptor s) = Some (m_data s) \<and>
    proc_service_info s None 0 = (Return (int (length text)), Some (text @ [NUL])) \<and>
    text = ''HA_proc_ace_accepotr listening on port '' @ decimal (unat port) @ [LF] \<and>
    proc_service_fini e s = (0, s') \<and> acceptor_ops (m_acceptor s') = [Base_Open, Base_Close]"
proof -
  let ?s = "snd (proc_service_init e stack argv new_proc_service)"
  have "unat port < 2 ^ LENGTH(32)" by (rule unsigned_less)
  then have u: "unat (ucast port :: 64 word) = unat port"
    by (simp add: unsigned_ucast_eq take_bit_nat_eq_self)
  have uu: "ucast (ucast port :: 64 word) = (ucast port :: 16 word)"
    by (rule ucast_up_ucast) (simp add: is_up)
  have "proc_service_init e stack argv new_proc_service = (Return 0, ?s)"
    "listen_address ?s = Some (ucast port)" "m_dwPort (m_data ?s) = ucast port"
    "m_instance_data (m_acceptor ?s) = Some (m_data ?s)"
    "acc_concurrency (m_acceptor ?s) = thread_per_connection"
    "acceptor_ops (m_acceptor ?s) = [Base_Open]"
    using assms uu by (simp_all add: proc_service_init_def new_proc_service_def new_proc_acceptor_def
        proc_acceptor_open_def acceptor_log_def Let_def)
  then obtain s where s: "proc_service_init e stack argv new_proc_service = (Return 0, s)"
    "listen_address s = Some (ucast port)" "m_dwPort (m_data s) = ucast port"
    "m_instance_data (m_acceptor s) = Some (m_data s)"
    "acc_concurrency (m_acceptor s) = thread_per_connection" "acceptor_ops (m_acceptor s) = [Base_Open]"
    by blast
  then obtain s' where "proc_service_fini e s = (0, s')" "acceptor_ops (m_acceptor s') = [Base_Open, Base_Close]"
    by (simp add: proc_service_fini_def proc_acceptor_close_def acceptor_log_def Let_def)
  moreover have "proc_service_info s None 0 = (Return (int (length
      (''HA_proc_ace_accepotr listening on port '' @ decimal (unat port) @ [LF]))),
      Some ((''HA_proc_ace_accepotr listening on port '' @ decimal (unat port) @ [LF]) @ [NUL]))"
    unfolding proc_service_info_def info_into_def s(3) u by simp
  ultimately show ?thesis using s(1-4) u by metis
qed

lemma demo_config: "open_config demo_service proc_conf_path ''HA_proc_ace_acceptor''
    (replicate MAXPATHLEN NUL) [''d.ini''] = Some (Return (c_str ''d.ini''))"
proof -
  have "length (c_str ''d.ini'') < MAXPATHLEN" by code_simp
  then show ?thesis
    using config_path_of_opts [of demo_service "[''d.ini'']" "[''d.ini'']" "replicate MAXPATHLEN NUL"
        proc_conf_path]
    by (simp add: open_config_def) (simp add: demo_service_def)
qed

theorem proc_service_life_witness:
  "\<exists>s str. proc_service_init demo_service (replicate MAXPATHLEN NUL) [''d.ini''] new_proc_service =
      (Return 0, s) \<and> listen_address s = Some 4464 \<and>
    proc_service_info s None 0 = (Return 45, str)"
proof -
  have i: "integer_value demo_service p ''HA_proc_ace_acceptor'' ''listen_port'' = Some 70000" for p
    by (simp add: demo_service_def)
  have b: "base_open demo_service (ucast (70000 :: 32 word)) \<noteq> -1" by (simp add: demo_service_def)
  have l: "length (''HA_proc_ace_accepotr listening on port '' @ decimal 70000 @ [LF]) = 45"
    by (simp add: decimal.simps)
  have "(ucast (70000 :: 32 word) :: 16 word) = 4464" by simp
  with proc_service_life [OF demo_config i b] l show ?thesis by auto
qed

text \<open>
  The text \<open>info\<close> puts into an array the caller passes, with its size: the whole text if
  there is room for its terminator; otherwise the array is left without one and the code
  counts its length beyond the end.
\<close>

lemma info_into_array:
  assumes "no_nul msg"
  shows "(length msg < length buf \<longrightarrow> (\<exists>s. info_into msg (Some buf) (length buf) =
      (Return (int (length msg)), Some s) \<and> length s = length buf \<and> c_str s = msg)) \<and>
    (length buf \<le> length msg \<longrightarrow> fst (info_into msg (Some buf) (length buf)) = Crashes Overread)"
proof -
  have "c_str s = msg" if "c_read (strncpy buf msg (length buf)) = Inr s'" "s = strncpy buf msg (length buf)"
    "length msg < length buf" for s s'
    using c_read_strncpy [of buf msg] assms that by (simp add: c_read_def split: if_splits)
  then show ?thesis
    using c_read_strncpy [of buf msg] assms
    by (auto simp: info_into_def Let_def length_strncpy split: if_splits)
qed

text \<open>
  The cache service does not use its configuration: whatever mount the file names, the
  thread watches the built-in directory. A thread that could not be spawned is reported as
  spawned.
\<close>
theorem ccifs_ignores_mount:
  assumes "ccifs_init e stack argv new_ccifs = (Return 0, ls, c)"
    and "ccifs_inotify fd add_watch buf answers c = Some (r, shown)" "fd \<noteq> -1"
    and "add_watch ''/var/ccifs/cache'' \<noteq> -1"
  shows "fs c = ''/var/ccifs/cache'' \<and>
    (\<exists>rest. shown = ''ccifs added notify watch=>/var/ccifs/cache'' # rest) \<and>
    (thread_spawn e = -1 \<longrightarrow> ls = [''..spawned ccifs notify thread..''])"
proof -
  have c: "m_str_tmpfs c = ''/var/ccifs/cache''"
    and s: "thread_spawn e = -1 \<Longrightarrow> ls = [''..spawned ccifs notify thread..'']"
    using assms(1) by (auto simp: ccifs_init_def new_ccifs_def Let_def
        split: option.splits run.splits if_splits)
  have "\<exists>rest. shown = l0 # rest" if "inotify_loop b xs (l0 # ls) = Some (r, shown)"
    for b xs l0 ls r
    using that
    by (induction b xs "l0 # ls" arbitrary: ls rule: inotify_loop.induct)
      (auto simp: Let_def split: if_splits read_result.splits sum.splits)
  with assms(2-4) c s show ?thesis
    by (auto simp: ccifs_inotify_def fs_def Let_def split: if_splits)
qed

lemma demo_ccifs: "ccifs_init demo_service (replicate MAXPATHLEN NUL) [] new_ccifs =
    (Return 0, [''..spawned ccifs notify thread..''], new_ccifs)"
proof -
  have "length (c_str ccifs_conf_path) < MAXPATHLEN" by code_simp
  then have "open_config demo_service ccifs_conf_path ''HA_ccifs'' (replicate MAXPATHLEN NUL) [] =
      Some (Return (c_str ccifs_conf_path))"
    using config_path_of_opts [of demo_service "[]" "[]" "replicate MAXPATHLEN NUL" ccifs_conf_path]
    by (simp add: open_config_def) (simp add: demo_service_def)
  then show ?thesis by (simp add: ccifs_init_def) (simp add: demo_service_def)
qed

theorem ccifs_ignores_mount_witness:
  "string_value demo_service p ''HA_ccifs'' ''ccifs_tmpfs_mount'' = Some ''/mnt/cache'' \<and>
   (\<exists>rest. ccifs_inotify 3 (\<lambda>_. 1) (replicate BUF_LEN NUL) [(False, Read_Error)] new_ccifs =
     Some (Return 0, ''ccifs added notify watch=>/var/ccifs/cache'' # rest))"
proof -
  have i: "ccifs_inotify 3 (\<lambda>_. 1) (replicate BUF_LEN NUL) [(False, Read_Error)] new_ccifs =
      Some (Return 0, snd (the (ccifs_inotify 3 (\<lambda>_. 1) (replicate BUF_LEN NUL) [(False, Read_Error)] new_ccifs)))"
    by (simp add: ccifs_inotify_def new_ccifs_def Let_def)
  from ccifs_ignores_mount [OF demo_ccifs i] i show ?thesis
    by (auto simp: demo_service_def)
qed

end
