(* ===== verification/Python_Boot.thy ===== *)
theory Python_Boot
  imports Services
begin

text \<open>
  The service that runs the Python application:
  cci_daemon/src/tornado/bootstrap/HA_python_bootstrap.cpp. The file system and the embedded
  interpreter are the record \<open>py_env\<close>; what the thread asks of them, in order, is a list of
  steps.
\<close>

section \<open>The service\<close>

record python_bootstrap =
  m_pid_py :: nat
  m_thread_id_py :: int
  m_port_py :: "32 word"
  m_str_private :: string
  m_str_home :: string

definition new_python_bootstrap :: python_bootstrap where
  "new_python_bootstrap = \<lparr>m_pid_py = 0, m_thread_id_py = 0, m_port_py = 0, m_str_private = [],
     m_str_home = []\<rparr>"

definition python_conf_path :: string where
  "python_conf_path = ''/etc/chromatic-universe/ha_python_bootstrap.ini''"

definition cci_trinity_app_moniker :: string where
  "cci_trinity_app_moniker = ''cci_trinity.py''"

definition cci_trinity_async_moniker :: string where
  "cci_trinity_async_moniker = ''cci_trinity_async.py''"

definition python_init ::
    "ace_service \<Rightarrow> string \<Rightarrow> string list \<Rightarrow> python_bootstrap \<Rightarrow> int run \<times> string list \<times> python_bootstrap" where
  "python_init e stack argv b =
     (case open_config e python_conf_path ''HA_python_bootstrap'' stack argv of
        None \<Rightarrow> (Return (-1), [], b)
      | Some (Return p) \<Rightarrow>
          (case integer_value e p ''HA_python_bootstrap'' ''listen_port'' of
             None \<Rightarrow> (Return (-1), [], b)
           | Some dispatcher_port \<Rightarrow>
               let b = b\<lparr>m_port_py := dispatcher_port\<rparr> in
               (case string_value e p ''HA_python_bootstrap'' ''cci_private'' of
                  None \<Rightarrow> (Return (-1), [], b)
                | Some cci_private \<Rightarrow>
                    let b = b\<lparr>m_str_private := c_str cci_private, m_str_home := c_str cci_private\<rparr>;
                        b = (if thread_spawn e = -1 then b else b\<lparr>m_thread_id_py := spawned_id e\<rparr>)
                    in if thread_spawn e \<noteq> 0
                       then (Return 0, [''..spawned python_bootstrap thread..''], b)
                       else (Return 0, [''..spawning of python bootstrap failed..''], b)))
      | Some (Crashes f) \<Rightarrow> (Crashes f, [], b)
      | Some r \<Rightarrow> (Return (-1), [], b))"

definition python_fini :: "python_bootstrap \<Rightarrow> int \<times> thread_call list" where
  "python_fini b = (0, [Thread_Cancel (m_thread_id_py b), Thread_Testcancel (m_thread_id_py b)])"

definition python_info :: "python_bootstrap \<Rightarrow> string option \<Rightarrow> nat \<Rightarrow> int run \<times> string option" where
  "python_info b str len =
     info_into (''HA_python_bootstrap listening on port '' @ decimal (unat (m_port_py b)) @ [LF]) str len"

section \<open>The thread\<close>

record py_env =
  can_chdir :: "string \<Rightarrow> bool"
  can_open :: "string \<Rightarrow> bool"
  initialize_throws :: bool
  run_string :: "string \<Rightarrow> int"
  run_file :: "string \<Rightarrow> int \<times> bool"     \<comment> \<open>the result and whether an error occurred\<close>
  write_fails :: bool                     \<comment> \<open>writing to the interpreter's stderr\<close>

datatype py_step =
    Set_Env string string | Set_Program_Name string | Initialize | Run_String string
  | Run_File string | Print_Error | Write_Newline | Clear_Error
  | Log string

definition set_py_env :: "python_bootstrap \<Rightarrow> py_step list" where
  "set_py_env b =
     (let prv = m_str_private b in
        [Set_Env ''PYTHONPATH''
           (prv @ ''/lib/python3.6/lib-dynload/:'' @ prv @ ''/lib/python3.6/:'' @
            prv @ ''/lib/python3.6/site-packages/:'' @ prv @ ''/bin/:'' @ m_str_home b),
         Set_Env ''CCI_ENTRYPOINT'' cci_trinity_app_moniker])"

definition file_exists :: "py_env \<Rightarrow> string \<Rightarrow> int" where
  "file_exists v filename = (if can_open v (c_str filename) then 1 else 0)"

definition validate_entry_point :: "py_env \<Rightarrow> string \<Rightarrow> int" where
  "validate_entry_point v entry =
     (let idx = str_find entry ''.'' in
        if idx = npos then -1
        else let str = substr_from entry (Suc idx) in
          if str \<noteq> ''pyo'' \<and> str \<noteq> ''py'' then -1 else file_exists v entry)"

definition open_entry_point :: "py_env \<Rightarrow> string \<Rightarrow> int \<times> py_step list" where
  \<comment> \<open>the file is not closed\<close>
  "open_entry_point v entry =
     (if \<not> can_open v (c_str entry) then (-1, [])
      else let (r, err) = run_file v (c_str entry)
        in if err
           then (1, [Run_File (c_str entry), Print_Error, Write_Newline] @
                  (if write_fails v then [Clear_Error] else []))
           else (r, [Run_File (c_str entry)]))"

definition import_line :: string where
  "import_line = ''import sys, logging , os , posix'' @ [LF]"

definition python_bootstrap_func :: "py_env \<Rightarrow> python_bootstrap \<Rightarrow> py_step list" where
  "python_bootstrap_func v boot =
     (if \<not> can_chdir v (c_str (m_str_home boot))
      then [Log ''..chdir..spawning of python bootstrap failed..'']
      else set_py_env boot @ [Set_Program_Name ''cci-python'', Initialize] @
        (if initialize_throws v then [Log ''..py_initialize..'']
         else Run_String import_line #
           (if run_string v import_line = -1 then []
            else Log ''..PyRun_SimpleString...ok...import sys , posix modules...'' #
              (if validate_entry_point v cci_trinity_app_moniker = -1
               then [Log ''..validate entry point failed...'']
               else let (py, steps) = open_entry_point v cci_trinity_app_moniker in
                 steps @ (if py = -1
                   then [Log ''..python entry point could not be bootstrapped...''] else [])))))"

section \<open>Properties\<close>

lemma str_find_dot:
  assumes "CHR ''.'' \<notin> set m" "size_ok m"
  shows "str_find (m @ ''.'' @ e) ''.'' = length m" "str_find m ''.'' = npos"
proof -
  have dot: "\<forall>c \<in> set m. c \<noteq> CHR ''.''" using assms(1) by metis
  have s: "search ''.'' s = first_index (\<lambda>c. c = CHR ''.'') s" for s by (rule search_single)
  show "str_find (m @ ''.'' @ e) ''.'' = length m"
    using first_index_append [of m "\<lambda>c. c = CHR ''.''" "CHR ''.''" e] dot
    by (simp add: str_find_def s)
  show "str_find m ''.'' = npos"
    using assms str_find_char [of m "CHR ''.''"] by simp
qed

text \<open>
  The check of an entry point: what follows the first dot of its name must be \<open>py\<close> or
  \<open>pyo\<close>, so a name with a dot in its directory or stem is refused. Whether the file exists
  does not matter: a missing file gives 0, which the caller takes for success.
\<close>
theorem validate_entry_point_verdict:
  assumes "CHR ''.'' \<notin> set m" "size_ok m"
  shows "validate_entry_point v (m @ ''.'' @ e) =
      (if e = ''py'' \<or> e = ''pyo''
       then (if can_open v (c_str (m @ ''.'' @ e)) then 1 else 0) else -1) \<and>
    validate_entry_point v m = -1"
proof -
  have "length m < npos" using assms(2) by (simp add: size_ok_def)
  then show ?thesis
    using str_find_dot(1) [OF assms, of e] str_find_dot(2) [OF assms]
    by (simp add: validate_entry_point_def Let_def substr_from_def file_exists_def)
qed

definition empty_disk :: py_env where
  "empty_disk = \<lparr>can_chdir = (\<lambda>_. True), can_open = (\<lambda>_. False), initialize_throws = False,
     run_string = (\<lambda>_. 0), run_file = (\<lambda>_. (0, False)), write_fails = False\<rparr>"

theorem validate_entry_point_verdict_witness:
  "validate_entry_point empty_disk cci_trinity_app_moniker = 0 \<and>
   validate_entry_point empty_disk ''./cci_trinity.py'' = -1 \<and>
   validate_entry_point empty_disk ''cci_trinity'' = -1"
proof -
  have s: "size_ok ''cci_trinity''" "size_ok []" by (simp_all add: size_ok_def npos_def)
  show ?thesis
    using validate_entry_point_verdict [where m = "''cci_trinity''" and v = empty_disk and e = "''py''"]
      validate_entry_point_verdict [where m = "[]" and v = empty_disk and e = "''/cci_trinity.py''"] s
    by (simp add: cci_trinity_app_moniker_def empty_disk_def)
qed

section \<open>The services and their configuration\<close>

lemma length_python_conf_path [simp]: "length (c_str python_conf_path) < MAXPATHLEN"
  by code_simp

interpretation bs: configured_service "\<lambda>e stack argv s. fst (python_init e stack argv s)"
    "\<lambda>e stack argv s. snd (snd (python_init e stack argv s))" python_conf_path "''HA_python_bootstrap''"
  by unfold_locales (simp_all add: python_init_def)

text \<open>
  C33. What all four services do with a command line and no usable configuration. A path of
  \<open>MAXPATHLEN\<close> bytes or more fills the array without a terminator, and reading it back is
  undefined; with shorter paths and no file that can be imported, \<open>init\<close> returns -1, and the
  service object is as it was constructed.
\<close>
theorem services_need_configuration:
  assumes "long_option e \<noteq> -1" "get_opt e argv = map Opt_f args" "length stack = MAXPATHLEN"
  shows "(args \<noteq> [] \<and> MAXPATHLEN \<le> length (c_str (last args)) \<longrightarrow>
      fst (proc_service_init e stack argv s) = Crashes Overread \<and>
      fst (auth_service_init e stack argv m) = Crashes Overread \<and>
      fst (ccifs_init e stack argv c) = Crashes Overread \<and>
      fst (python_init e stack argv b) = Crashes Overread) \<and>
    ((\<forall>a \<in> set args. length (c_str a) < MAXPATHLEN) \<and> import_config e = (\<lambda>_. -1) \<longrightarrow>
      proc_service_init e stack argv s = (Return (-1), s) \<and>
      auth_service_init e stack argv m = (Return (-1), m) \<and>
      fst (ccifs_init e stack argv c) = Return (-1) \<and> snd (snd (ccifs_init e stack argv c)) = c \<and>
      fst (python_init e stack argv b) = Return (-1) \<and> snd (snd (python_init e stack argv b)) = b)"
proof (intro conjI impI; elim conjE)
  assume l: "args \<noteq> []" "MAXPATHLEN \<le> length (c_str (last args))"
  show "fst (proc_service_init e stack argv s) = Crashes Overread"
    "fst (auth_service_init e stack argv m) = Crashes Overread"
    "fst (ccifs_init e stack argv c) = Crashes Overread"
    "fst (python_init e stack argv b) = Crashes Overread"
    using ds.overlong [OF assms l, of s] ms.overlong [OF assms l, of m] cs.overlong [OF assms l, of c]
      bs.overlong [OF assms l, of b] by simp_all
next
  assume l: "\<forall>a \<in> set args. length (c_str a) < MAXPATHLEN" "import_config e = (\<lambda>_. -1)"
  have i: "import_config e p = -1" for p using l(2) by simp
  note u = ds.unreadable [OF assms l(1) i, of s] ms.unreadable [OF assms l(1) i, of m]
    cs.unreadable [OF assms l(1) i, of c] bs.unreadable [OF assms l(1) i, of b]
  show "proc_service_init e stack argv s = (Return (-1), s)"
    "auth_service_init e stack argv m = (Return (-1), m)"
    "fst (ccifs_init e stack argv c) = Return (-1)" "snd (snd (ccifs_init e stack argv c)) = c"
    "fst (python_init e stack argv b) = Return (-1)" "snd (snd (python_init e stack argv b)) = b"
    using u by (simp_all add: prod_eq_iff)
qed

theorem services_need_configuration_witness:
  "fst (proc_service_init demo_service (replicate MAXPATHLEN NUL)
      [replicate MAXPATHLEN (CHR ''x'')] new_proc_service) = Crashes Overread \<and>
   proc_service_init (demo_service\<lparr>import_config := (\<lambda>_. -1)\<rparr>) (replicate MAXPATHLEN NUL) []
      new_proc_service = (Return (-1), new_proc_service)"
proof -
  have "c_str (replicate MAXPATHLEN (CHR ''x'')) = replicate MAXPATHLEN (CHR ''x'')"
    by (rule c_str_no_nul) (simp add: no_nul_def NUL_def)
  then show ?thesis
    using services_need_configuration [of demo_service "[replicate MAXPATHLEN (CHR ''x'')]"
        "[replicate MAXPATHLEN (CHR ''x'')]" "replicate MAXPATHLEN NUL" new_proc_service]
      services_need_configuration [of "demo_service\<lparr>import_config := (\<lambda>_. -1)\<rparr>" "[]" "[]"
        "replicate MAXPATHLEN NUL" new_proc_service]
    by simp
qed

end
