(* ===== verification/Kafka_Plugin.thy ===== *)
theory Kafka_Plugin
  imports Kernel
begin

text \<open>
  The publish/subscribe plugin of the repository, cci_daemon/src/plugins/ps_kafka_facade.cpp.
  It is written against a server whose consumers the headers now call duplexers; the model
  takes \<open>add_publish_subscribe_consumer\<close> and \<open>consumers\<close> for the operations of that name in
  cci_pub_and_sub.h. Objects are addresses, with the set of those that were deleted; 0 is
  the null pointer.
\<close>

record consumer_heap =
  consumers :: "nat list"
  kafka_objects :: "nat set"     \<comment> \<open>the addresses of a \<open>ps_kafka_facade\<close>\<close>
  deleted :: "nat set"
  fresh :: nat

definition kafka_engine_version :: int where "kafka_engine_version = 1"

definition kafka_moniker :: string where "kafka_moniker = ''plugin:kafka''"

definition kafka_connect :: "string \<Rightarrow> string \<times> bool" where
  \<comment> \<open>the text on standard error, the result\<close>
  "kafka_connect connect_string = (''...kafka...'' @ [CHR 0x0A], True)"

definition print_kafka_impl :: "string \<Rightarrow> string" where
  \<comment> \<open>\<open>operator<<\<close>, on what the stream holds\<close>
  "print_kafka_impl ostr = ostr @ ''publish/subscribe consumer : kafka''"

definition print_kafka_facade :: "string \<Rightarrow> string" where
  "print_kafka_facade ostr = ostr @ ''plugin:ps_kafka_facade''"

definition kafka_can_open_broker :: "string \<Rightarrow> bool" where
  "kafka_can_open_broker config \<longleftrightarrow> True"

definition kafka_open_broker :: "string \<Rightarrow> failure + string" where
  \<comment> \<open>the broker, by its moniker\<close>
  "kafka_open_broker config =
     (if \<not> kafka_can_open_broker config then Inl (Throw ''broker cannnot be opened'')
      else Inr kafka_moniker)"

definition kafka_register_plugin :: "consumer_heap \<Rightarrow> consumer_heap" where
  "kafka_register_plugin h =
     h\<lparr>consumers := consumers h @ [fresh h], kafka_objects := insert (fresh h) (kafka_objects h),
       fresh := Suc (fresh h)\<rparr>"

fun clear_consumers :: "nat list \<Rightarrow> consumer_heap \<Rightarrow> (unit, consumer_heap) attempt" where
  "clear_consumers [] h = (Inr (), h)"
| "clear_consumers (elem # elems) h =
     (if elem = 0 then clear_consumers elems h
      else if elem \<in> deleted h then (Inl (Fault Use_After_Free), h)
      else if elem \<in> kafka_objects h
        then clear_consumers elems (h\<lparr>deleted := insert elem (deleted h)\<rparr>)
      else clear_consumers elems h)"

definition kafka_clear_context :: "consumer_heap \<Rightarrow> (unit, consumer_heap) attempt" where
  \<comment> \<open>the list keeps its elements\<close>
  "kafka_clear_context h = clear_consumers (consumers h) h"

fun heap_open_broker :: "(nat \<Rightarrow> bool) \<Rightarrow> (nat \<Rightarrow> failure + string) \<Rightarrow> string \<Rightarrow> nat list \<Rightarrow> consumer_heap
    \<Rightarrow> failure + string" where
  \<comment> \<open>the server's \<open>open_broker\<close> over addresses; the functions are the other plugins' consumers\<close>
  "heap_open_broker can op config [] h = Inl (Throw ''invalid or unsupported duplexer type'')"
| "heap_open_broker can op config (elem # elems) h =
     (if elem = 0 then Inl (Fault Null_Deref)
      else if elem \<in> deleted h then Inl (Fault Use_After_Free)
      else if elem \<in> kafka_objects h
        then (if kafka_can_open_broker config then kafka_open_broker config
              else heap_open_broker can op config elems h)
      else if can elem then op elem else heap_open_broker can op config elems h)"

definition heap_ok :: "consumer_heap \<Rightarrow> bool" where
  "heap_ok h \<longleftrightarrow> 0 < fresh h \<and> (\<forall>a \<in> set (consumers h) \<union> kafka_objects h \<union> deleted h. a < fresh h) \<and>
     deleted h = {} \<and> 0 \<notin> kafka_objects h"

lemma clear_consumers_deletes:
  assumes "clear_consumers elems h = (Inr (), h')"
  shows "consumers h' = consumers h \<and> kafka_objects h' = kafka_objects h \<and> deleted h \<subseteq> deleted h' \<and>
    (\<forall>a \<in> set elems. a \<noteq> 0 \<longrightarrow> a \<in> kafka_objects h \<longrightarrow> a \<in> deleted h')"
  using assms by (induction elems h rule: clear_consumers.induct) (auto split: if_splits)

lemma clear_consumers_returns:
  assumes "distinct elems" "set elems \<inter> deleted h = {}"
  shows "\<exists>h'. clear_consumers elems h = (Inr (), h')"
  using assms by (induction elems h rule: clear_consumers.induct) auto

lemma clear_dangling: "elem \<in> set elems \<Longrightarrow> elem \<in> deleted h \<Longrightarrow> elem \<noteq> 0 \<Longrightarrow>
    fst (clear_consumers elems h) = Inl (Fault Use_After_Free)"
  by (induction elems h rule: clear_consumers.induct) auto

text \<open>
  Unloading the plugin deletes its consumer but leaves it in the server's list. After
  registering and clearing, the next \<open>open_broker\<close> that gets as far as that consumer uses
  a deleted object, and so does clearing the plugin's context a second time.
\<close>
theorem kafka_leaves_dangling:
  assumes "heap_ok h" "distinct (consumers h)"
    and "\<And>a. a \<in> set (consumers h) \<Longrightarrow> a \<noteq> 0 \<and> a \<notin> kafka_objects h \<and> \<not> can a"
  shows "\<exists>h'. kafka_clear_context (kafka_register_plugin h) = (Inr (), h') \<and>
    fresh h \<in> set (consumers h') \<and> fresh h \<in> deleted h' \<and>
    heap_open_broker can op config (consumers (kafka_register_plugin h)) (kafka_register_plugin h) =
      Inr ''plugin:kafka'' \<and>
    heap_open_broker can op config (consumers h') h' = Inl (Fault Use_After_Free) \<and>
    fst (kafka_clear_context h') = Inl (Fault Use_After_Free)"
proof -
  let ?r = "kafka_register_plugin h"
  have r: "consumers ?r = consumers h @ [fresh h]" "kafka_objects ?r = insert (fresh h) (kafka_objects h)"
    "deleted ?r = {}" using assms(1) by (simp_all add: kafka_register_plugin_def heap_ok_def)
  have f: "fresh h \<noteq> 0" "fresh h \<notin> set (consumers h)" using assms(1) by (auto simp: heap_ok_def)
  with assms(2) r have "distinct (consumers ?r)" "set (consumers ?r) \<inter> deleted ?r = {}" by simp_all
  then obtain h' where c: "clear_consumers (consumers ?r) ?r = (Inr (), h')"
    using clear_consumers_returns by blast
  note d = clear_consumers_deletes [OF c]
  have dangling: "fresh h \<in> deleted h'" using d r f by simp
  have walk: "heap_open_broker can op config (xs @ [fresh h]) g = heap_open_broker can op config [fresh h] g"
    if "set xs \<subseteq> set (consumers h)" "deleted g \<inter> set xs = {}" "kafka_objects g = insert (fresh h) (kafka_objects h)"
    for xs g using that assms(3) f by (induction xs) auto
  have only: "deleted h' \<inter> set (consumers h) = {}"
  proof -
    have "deleted g' \<subseteq> deleted g \<union> kafka_objects g" if "clear_consumers es g = (Inr (), g')" for es g g'
      using that by (induction es g rule: clear_consumers.induct) (auto split: if_splits)
    from this [OF c] r f assms(3) show ?thesis by auto
  qed
  have "heap_open_broker can op config (consumers ?r) ?r = Inr ''plugin:kafka''"
    unfolding r(1) using walk [of "consumers h" ?r] r f
    by (simp add: kafka_can_open_broker_def kafka_open_broker_def kafka_moniker_def)
  moreover have "heap_open_broker can op config (consumers h') h' = Inl (Fault Use_After_Free)"
    using walk [of "consumers h" h'] d only dangling r f by simp
  moreover have "fst (clear_consumers (consumers h') h') = Inl (Fault Use_After_Free)"
    using clear_dangling [of "fresh h" "consumers h'" h'] d dangling r f by simp
  ultimately show ?thesis using c d dangling r unfolding kafka_clear_context_def by auto
qed

definition one_consumer :: consumer_heap where
  "one_consumer = \<lparr>consumers = [1], kafka_objects = {}, deleted = {}, fresh = 2\<rparr>"

theorem kafka_leaves_dangling_witness:
  "\<exists>h'. kafka_clear_context (kafka_register_plugin one_consumer) = (Inr (), h') \<and>
    heap_open_broker (\<lambda>_. False) (\<lambda>_. Inr []) ''any'' (consumers h') h' = Inl (Fault Use_After_Free)"
proof -
  have "heap_ok one_consumer" "distinct (consumers one_consumer)"
    by (simp_all add: heap_ok_def one_consumer_def)
  then show ?thesis
    using kafka_leaves_dangling [of one_consumer "\<lambda>_. False" "\<lambda>_. Inr []" "''any''"]
    by (auto simp: one_consumer_def)
qed

end
