(* ===== verification/Meta_Daemon.thy ===== *)
theory Meta_Daemon
  imports Daemonize_Properties
begin

text \<open>
  The daemon assembled from policies: include/cci_meta_daemon.h and the policies of
  cci_daemon/src/meta-core. A policy class is a template parameter whose operations here are
  definitions over the operating system; the host's \<open>daemonize\<close> and \<open>cli\<close> compose the
  defaults. The time stamps, colours and log lines come from a library that is not part of
  the repository and are left out. The default procedure is an endless loop that only sleeps
  and logs; a signal that a handler is registered for ends it with \<open>exit\<close>.
\<close>

section \<open>Creation policies\<close>

text \<open>\<open>fresh\<close> is the new object's address; operator new throws where malloc gives null.\<close>

definition op_new_create :: "nat option \<Rightarrow> nat run" where
  "op_new_create fresh = (case fresh of None \<Rightarrow> Throws Std_Exception | Some p \<Rightarrow> Return p)"

definition runtime_create :: "nat option \<Rightarrow> nat option run" where
  "runtime_create mem_buffer = Return mem_buffer"

definition prototype_create :: "('a \<Rightarrow> 'a) \<Rightarrow> 'a option \<Rightarrow> 'a option" where
  "prototype_create clone m_ptr_prototype = map_option clone m_ptr_prototype"

section \<open>The placeholder\<close>

record placeholder =
  m_cur_proc :: daemon_proc

definition new_placeholder :: placeholder where
  "new_placeholder = \<lparr>m_cur_proc = dp_error\<rparr>"

definition set_placeholder_state :: "daemon_proc \<Rightarrow> placeholder \<Rightarrow> placeholder" where
  "set_placeholder_state proc p = p\<lparr>m_cur_proc := proc\<rparr>"

section \<open>Stream policies\<close>

text \<open>The constructors ignore their argument: \<open>m_flags\<close> is 0.\<close>

definition stream_flags :: "32 word" where "stream_flags = 0"

definition ace_configure_streams :: "daemon_proc os" where
  "ace_configure_streams = clear_file_create_mask stream_flags"

definition close_all_configure_streams :: "daemon_proc os" where
  "close_all_configure_streams = do {
     dp \<leftarrow> clear_file_create_mask stream_flags;
     if dp = dp_success
     then do {
       dp \<leftarrow> close_all_open_files stream_flags;
       if dp = dp_success then reopen_streams_to_dev_null stream_flags else ret dp }
     else ret dp }"

section \<open>System initialisation\<close>

definition init_step :: "daemon_proc \<Rightarrow> daemon_proc result os" where
  "init_step dp =
     (case dp of
        dp_fork_background_proc \<Rightarrow> do {
          pid \<leftarrow> sys Fork;
          if pid = -1 then ret (Value dp_error)
          else if pid = 0 then ret (Value dp_make_session_leader)
          else do { sys (Exit_Process EXIT_SUCCESS); ret (Exited EXIT_SUCCESS) } }
      | dp_make_session_leader \<Rightarrow> do {
          r \<leftarrow> sys Setsid;
          ret (Value (if r = -1 then dp_error else dp_fork_no_session_leader)) }
      | dp_fork_no_session_leader \<Rightarrow> do {
          pid \<leftarrow> sys Fork;
          if pid = -1 then ret (Value dp_error)
          else if pid = 0 then ret (Value dp_daemonized)
          else do { sys (Exit_Process EXIT_SUCCESS); ret (Exited EXIT_SUCCESS) } }
      | _ \<Rightarrow> ret (Value dp))"

partial_function (option) init_loop :: "daemon_proc \<Rightarrow> world \<Rightarrow> (daemon_proc result \<times> world) option" where
  \<comment> \<open>the state it leaves the loop in, or the end of the process\<close>
  "init_loop dp w =
     (if dp = dp_error then Some (Value dp, w)
      else case run_state (init_step dp) w of
        (Exited c, w') \<Rightarrow> Some (Exited c, w')
      | (Value dp', w') \<Rightarrow> if dp' = dp_daemonized then Some (Value dp', w') else init_loop dp' w')"

definition configure_init :: "world \<Rightarrow> (daemon_proc result \<times> world) option" where
  "configure_init w = init_loop dp_fork_background_proc w"

section \<open>Environment and procedure\<close>

datatype signal = SIGTERM | SIGINT | SIGSEGV | Other_Signal

definition configure_environment :: "daemon_proc os" where
  "configure_environment = cd_to_root 0"

definition handle_signal :: "signal \<Rightarrow> int run" where
  \<comment> \<open>\<open>daemon_signal_handler\<close>, by the signal it was made for\<close>
  "handle_signal signum =
     (case signum of SIGTERM \<Rightarrow> Exits 1 | SIGINT \<Rightarrow> Exits 0 | SIGSEGV \<Rightarrow> Exits 0 | Other_Signal \<Rightarrow> Return 0)"

definition handle_pid :: "string os" where
  \<comment> \<open>what it logs\<close>
  "handle_pid = do {
     b \<leftarrow> remove_pid path_pid;
     ret (if \<not> b then ''....remove pid failed...s'' else ''....removed pid file...'') }"

fun perform_loop :: "signal option list \<Rightarrow> int run option" where
  \<comment> \<open>the signal, if any, that arrives in each round of the loop: the handlers h1 and h2 are
    registered for SIGTERM and SIGINT only\<close>
  "perform_loop [] = None"
| "perform_loop (None # rounds) = perform_loop rounds"
| "perform_loop (Some s # rounds) =
     (if s = SIGTERM \<or> s = SIGINT
      then (case handle_signal s of Return _ \<Rightarrow> perform_loop rounds | r \<Rightarrow> Some r)
      else perform_loop rounds)"

definition proc_init :: "signal option list \<Rightarrow> int run option" where
  "proc_init rounds = (case perform_loop rounds of Some (Return _) \<Rightarrow> Some (Return 0) | r \<Rightarrow> r)"

section \<open>The host\<close>

definition meta_daemonize :: "signal option list \<Rightarrow> world \<Rightarrow> (int run option \<times> world) option" where
  \<comment> \<open>no result of a policy is looked at; None as the inner result: still running\<close>
  "meta_daemonize rounds w =
     (let w = snd (run_state ace_configure_streams w)
      in case configure_init w of
           None \<Rightarrow> None
         | Some (Exited c, w) \<Rightarrow> Some (Some (Exits c), w)
         | Some (Value _, w) \<Rightarrow>
             let w = snd (run_state configure_environment w)
             in Some (proc_init rounds, w))"

definition meta_cli :: "signal option list \<Rightarrow> world \<Rightarrow> int run option \<times> world" where
  "meta_cli rounds w =
     (let w = snd (run_state configure_environment w) in (proc_init rounds, w))"

section \<open>Properties\<close>

lemma init_loop_step: "dp \<noteq> dp_error \<Longrightarrow>
    init_loop dp w = (case run_state (init_step dp) w of
        (Exited c, w') \<Rightarrow> Some (Exited c, w')
      | (Value dp', w') \<Rightarrow> if dp' = dp_daemonized then Some (Value dp', w') else init_loop dp' w')"
  by (subst init_loop.simps) simp

lemma init_loop_error [simp]: "init_loop dp_error w = Some (Value dp_error, w)"
  by (subst init_loop.simps) simp

text \<open>
  C38. The policy that forks is total and does what the first three states of \<open>daemonize_\<close> do:
  the same calls with the same answers end both in the same parent's exit or the same
  failure, and where the policy ends as a daemon, \<open>daemonize_\<close> goes on to clear the mask.
\<close>
theorem configure_init_agrees:
  "\<exists>r w'. configure_init w = Some (r, w') \<and>
    (case r of
       Exited c \<Rightarrow> daemonize flags w = Some (Exited c, w')
     | Value dp \<Rightarrow>
         (dp = dp_error \<and> daemonize flags w = Some (Value (-1), w')) \<or>
         (dp = dp_daemonized \<and> daemonize flags w = daemonize_loop flags dp_clear_file_create_mask w' \<and>
          trace w' = trace w @ [Fork, Setsid, Fork]))"
  by (simp add: configure_init_def daemonize_def init_loop_step loop_step init_step_def dp_step_def
      os_simps)

text \<open>
  The host looks at no result of its policies. If the first fork fails, the process that
  called \<open>daemonize\<close> runs the daemon's procedure itself, in the foreground and in its old
  session; it still changes to the root directory.
\<close>
theorem failed_fork_runs_in_foreground:
  assumes "answer w (trace w @ [Umask 0]) Fork = -1"
  shows "meta_daemonize rounds w =
    Some (proc_init rounds, w\<lparr>trace := trace w @ [Umask 0, Fork, Chdir ''/'']\<rparr>)"
proof -
  have "\<not> has_flag (0 :: 32 word) b" for b by (simp add: has_flag_def)
  then show ?thesis using assms
    by (simp add: meta_daemonize_def ace_configure_streams_def clear_file_create_mask_def
        stream_flags_def configure_init_def init_loop_step init_step_def configure_environment_def
        cd_to_root_def os_simps Let_def)
qed

definition no_fork_world :: world where
  "no_fork_world = \<lparr>answer = (\<lambda>tr c. -1), answer_text = (\<lambda>tr c. None), trace = []\<rparr>"

theorem failed_fork_runs_in_foreground_witness:
  "\<exists>w. meta_daemonize [None, Some SIGTERM] no_fork_world = Some (Some (Exits 1), w)"
  using failed_fork_runs_in_foreground [of no_fork_world "[None, Some SIGTERM]"]
  by (simp add: no_fork_world_def proc_init_def handle_signal_def)

end
