(* ===== verification/Programs.thy ===== *)
theory Programs
  imports Bootstrap Meta_Daemon
begin

text \<open>
  The small programs and helpers around the daemon: the main function of the policy daemon
  (cci_daemon/src/meta-core/cci_meta_daemon_main.cpp), the harness that runs the dispatcher's
  services without the daemon (cci_daemon/src/procs/proc_ace_harness.cpp), the pipe helper of
  cci_daemon/src/kernel/cci_daemon_utils.cpp and the inspection helpers of
  include/cci_shared_lib.h. In the helpers a failing \<open>assert\<close> is a fault, which is what it is in
  a build that keeps assertions.
\<close>

section \<open>Assertions about calls\<close>

fun assert_calls :: "(sys_call \<times> (int \<Rightarrow> bool)) list \<Rightarrow> unit run os" where
  "assert_calls [] = ret (Return ())"
| "assert_calls ((c, ok) # cs) = do {
     r \<leftarrow> sys c;
     if ok r then assert_calls cs else ret (Crashes Assert_Failed) }"

section \<open>The pipe helper\<close>

definition read_fd :: "int \<times> int \<Rightarrow> int" where "read_fd p = fst p"
definition write_fd :: "int \<times> int \<Rightarrow> int" where "write_fd p = snd p"

definition buffer_stream_from_open ::
    "int \<times> int \<Rightarrow> int \<times> int \<Rightarrow> string \<Rightarrow> string \<Rightarrow> unit run os" where
  \<comment> \<open>the descriptors the two pipes get; nothing is written to the stream or to \<open>pid_\<close>\<close>
  "buffer_stream_from_open parent_to_child child_to_parent params file_name = do {
     r \<leftarrow> assert_calls [(Pipe, \<lambda>r. r = 0), (Pipe, \<lambda>r. r = 0)];
     if r \<noteq> Return () then ret r
     else do {
       pid \<leftarrow> sys Fork;
       if pid = -1 then ret (Return ())
       else if pid = 0
       then assert_calls
         [(Dup2 (read_fd parent_to_child) STDIN_FILENO, \<lambda>r. r \<noteq> -1),
          (Dup2 (write_fd child_to_parent) STDOUT_FILENO, \<lambda>r. r \<noteq> -1),
          (Dup2 (write_fd child_to_parent) STDERR_FILENO, \<lambda>r. r \<noteq> -1),
          (Close (write_fd parent_to_child), \<lambda>r. r = 0),
          (Close (read_fd child_to_parent), \<lambda>r. r = 0)]
       else assert_calls
         [(Close (read_fd parent_to_child), \<lambda>r. r = 0),
          (Close (write_fd child_to_parent), \<lambda>r. r = 0)] } }"

section \<open>Inspecting a library\<close>

definition ldd_moniker :: string where "ldd_moniker = ''ldd''"
definition nm_moniker :: string where "nm_moniker = ''nm''"

definition lib_file_exists :: "string \<Rightarrow> bool os" where
  "lib_file_exists file = do { r \<leftarrow> sys (Stat (c_str file)); ret (r = 0) }"

definition dependencies_into :: "string \<Rightarrow> string \<Rightarrow> string run os" where
  \<comment> \<open>the stream afterwards: what would write to it is commented out\<close>
  "dependencies_into file_name ostr = do {
     b \<leftarrow> lib_file_exists ldd_moniker;
     ret (if b then Return ostr else Crashes Assert_Failed) }"

definition dependencies :: "string \<Rightarrow> string run os" where
  "dependencies file_name = dependencies_into file_name []"

section \<open>The harness\<close>

datatype harness_call =
    Callback_On | Stderr_Off | Set_Callback | Harness_Register string
  | Harness_Open int "string list" | Harness_Loop
  | Cancel_All | Wait_Threads int | Harness_Fini

definition harness_handle_signal :: "int \<Rightarrow> stack_signal \<Rightarrow> int run \<times> harness_call list" where
  \<comment> \<open>the answer of the thread manager's wait\<close>
  "harness_handle_signal wait_result signum =
     (if signum = Sig_Int \<or> signum = Sig_Term
      then if wait_result = -1 then (Return 1, [Cancel_All, Wait_Threads 5])
           else (Exits 1, [Cancel_All, Wait_Threads 5, Harness_Fini])
      else (Return 0, []))"

definition harness_main :: "int \<Rightarrow> int \<Rightarrow> string list \<Rightarrow> int run \<times> harness_call list" where
  \<comment> \<open>the answer of the service configurator\<close>
  "harness_main open_result argc argv =
     (let ops = [Callback_On, Stderr_Off, Set_Callback, Harness_Register ''SIGINT'',
                  Harness_Register ''SIGTERM'', Harness_Open argc argv]
      in if open_result \<noteq> 0 then (Return 1, ops) else (Return 0, ops @ [Harness_Loop]))"

section \<open>The main function of the policy daemon\<close>

definition meta_main :: "signal option list \<Rightarrow> world \<Rightarrow> (int run option \<times> world) option" where
  \<comment> \<open>no policy throws; the destructor's \<open>configure_deinit\<close> is empty\<close>
  "meta_main rounds w =
     (case meta_daemonize rounds w of
        Some (Some (Return _), w) \<Rightarrow> Some (Some (Return 0), w)
      | r \<Rightarrow> r)"

section \<open>Properties\<close>

text \<open>
  The helper starts no command: where its system calls succeed it returns to its caller in
  both processes, in the child with the standard streams replaced.
\<close>

lemma buffer_stream_returns_twice:
  assumes "\<And>tr c. answer w tr c = (if c = Fork then pid else 0)" "pid \<noteq> -1"
  shows "fst (run_state (buffer_stream_from_open p q params file) w) = Return ()"
  using assms by (simp add: buffer_stream_from_open_def os_simps)

lemma buffer_stream_ignores_command:
  "buffer_stream_from_open p q params file = buffer_stream_from_open p q params' file'"
  by (simp add: buffer_stream_from_open_def)

text \<open>No dependency is ever reported, and none can be asked for outside ldd's directory.\<close>

lemma dependencies_outcome:
  "fst (run_state (dependencies file) w) =
     (if answer w (trace w) (Stat ''ldd'') = 0 then Return [] else Crashes Assert_Failed)"
proof -
  have "c_str ''ldd'' = ''ldd''" by code_simp
  then show ?thesis
    by (simp add: dependencies_def dependencies_into_def lib_file_exists_def ldd_moniker_def os_simps)
qed

lemma proc_init_ends_by_exit:
  "proc_init rounds = None \<or> proc_init rounds = Some (Exits 0) \<or> proc_init rounds = Some (Exits 1)"
  by (induction rounds rule: perform_loop.induct)
    (auto simp: proc_init_def handle_signal_def split: option.splits run.splits)

text \<open>
  The policy daemon never returns from main. Whatever the system answers and whatever signals
  arrive, forking terminates, and the process that goes on either works for ever or ends by
  \<open>exit\<close>: a parent and a daemon that got SIGINT with status 0, one that got SIGTERM with
  status 1. No log, no pid file and no failed policy makes a difference.
\<close>

lemma configure_init_exit:
  "\<exists>r w'. configure_init w = Some (r, w') \<and> (\<forall>c. r = Exited c \<longrightarrow> c = 0)"
  by (auto simp: configure_init_def init_loop_step init_step_def os_simps EXIT_SUCCESS_def)

lemma proc_init_sigterm: "proc_init rounds = Some (Exits 1) \<Longrightarrow> Some SIGTERM \<in> set rounds"
  by (induction rounds rule: perform_loop.induct)
    (auto simp: proc_init_def handle_signal_def split: option.splits run.splits if_splits)

lemma meta_main_outcome:
  "\<exists>r w'. meta_main rounds w = Some (r, w') \<and>
     (r = None \<or> r = Some (Exits 0) \<or> r = Some (Exits 1) \<and> Some SIGTERM \<in> set rounds)"
proof -
  let ?w = "snd (run_state ace_configure_streams w)"
  obtain r w' where c: "configure_init ?w = Some (r, w')" "r = Exited c \<Longrightarrow> c = 0" for c
    using configure_init_exit [of ?w] by blast
  show ?thesis
  proof (cases r)
    case (Exited x)
    with c show ?thesis by (simp add: meta_main_def meta_daemonize_def Let_def)
  next
    case (Value dp)
    with c proc_init_ends_by_exit [of rounds] proc_init_sigterm [of rounds] show ?thesis
      by (auto simp: meta_main_def meta_daemonize_def Let_def)
  qed
qed

end
