(* ===== verification/Spec2Isabelle.thy ===== *)
theory Spec2Isabelle
  imports Proc_Properties Auth_Properties Pool_Properties Acceptor Daemonize_Properties
    Kernel_Properties Stack_Trace Coordinator_Properties
    Kernel_Life Kernel_Threads Dispatcher Auth_Server Python_Boot Kafka_Plugin Programs
begin

text \<open>
  Verification of the cci daemon (chromatic-universe/cci-daemon): a Unix daemon in C++ that
  turns itself into a background process, loads a kernel library with plugins and a protocol
  stack of services built on ACE, and serves a line protocol over TCP. This theory imports the
  whole development; each part of the program is a theory of its own.

  \<^bold>\<open>The program and its theories.\<close>

  \<^item> The main program, cci_daemon/src/core/cci_daemon_main.cpp (theory Daemon_Main), reads
    \<open>-a\<close> and \<open>-t\<close>, creates the facade, daemonizes and runs either the default procedure or the
    coordinator. The facade, core/cci_daemon.cpp and include/cci_daemon.h (Facade), opens the
    log, reads the configuration, writes the pid file, runs the default loop, maps the kernel
    and bootstraps the coordinator. core/cci_daemonize.cpp (Daemonize) is the state machine of
    double fork and session, its single steps, and a second version of the pid file.
    core/cci_stack_trace.cpp (Stack_Trace) parses symbol lines and walks frame pointers.
  \<^item> The kernel library, cci_daemon/src/kernel, include/cci_daemon_kernel.h,
    cci_daemon_plugin.h, cci_pub_and_sub.h (Kernel): shared libraries, the registry of plugins,
    the publish/subscribe server and the kernel singleton. The one plugin of the repository,
    plugins/ps_kafka_facade.cpp (Kafka_Plugin), is written against an older interface.
  \<^item> The coordinator, coordinator/cci_daemon_bootstrap.cpp (Bootstrap), brings the protocol
    stack up and unravels it on a signal; it calls back the facade's destructor.
  \<^item> The services it loads: dispatcher, authentication manager and cache (Services, with the
    cache's file watcher in Inotify) and the python bootstrap (Python_Boot).
  \<^item> The dispatcher protocol, procs/proc_ace_*.cpp and include/proc_ace_acceptor.h: its data
    (Proc_Types), text helpers (Cpp_String for std::string, Text_Utils for the program's own),
    the parser, dispatch and read loop (Proc_Handler), the life of a connection (Proc_Reactor),
    the worker pool (Pool) and the acceptor (Acceptor). The authentication manager, manager/,
    has its own copies of all of it (Auth_Handler, Acceptor).
  \<^item> A server as a whole, reactor thread, workers, threads of connections, timers and all
    connections together, is one step relation over the operations of a handler and a pool
    (Reactor_System), with what the operations owe to it and what follows from that
    (Server_Contract, Server_Invariants, Server_Answers), and a refinement of what its clients
    see, the abstract sessions of Server_Sessions; Dispatcher and Auth_Server supply the two
    servers' operations.
  \<^item> The facade and the kernel library it loads are joined by replaying the calls the facade
    makes on the kernel's model (Kernel_Link); Kernel_Life follows the kernel from main to the
    end of the process. The singleton's lock and the threads that call \<open>make_kernel\<close> and
    \<open>unmake_kernel\<close> at once are in Kernel_Threads, over the interleavings of Interleaving.
  \<^item> The daemon assembled from policies, include/cci_meta_daemon.h and meta-core
    (Meta_Daemon), and the small programs and helpers (Programs).

  \<^bold>\<open>How code is modelled.\<close> A class is a record of its attributes, an enum a datatype with
  the source's constructors, a machine integer whose width matters a word. A member function
  is a function from the object to the object it leaves. What the code asks of ACE, the
  operating system, the dynamic loader or the python interpreter is recorded in order, and
  what it gets back is an argument: the world of theory Os decides every answer from the calls
  made so far, so a theorem over all worlds holds for every kernel and C library. An exception,
  an exit and an abort are constructors of the type \<open>run\<close>; undefined behaviour is a \<open>fault\<close>, and
  the model stops there. Shared pointers whose aliasing matters (the kernel singleton, the
  plugin's consumers, the facade deleted by two owners) are addresses with the set of live or
  deleted objects. The worker pool is an \<open>inductive\<close> relation in which every worker and the
  thread in \<open>stop\<close> take small steps in any order. A server is another: accept, readiness of a
  socket, a step of a worker, a round of a connection's thread, the expiry of a timer and the
  passing of time may follow each other in any order, under each of the three strategies
  (reactor, pool, thread for each connection), and a step whose operation ends in undefined
  behaviour marks the server as crashed by that connection, after which it takes no step.

  \<^bold>\<open>Loops and bounds.\<close> A loop that may run for ever is a \<open>partial_function\<close> into option, with
  None for not returning: \<open>daemonize_loop\<close>, \<open>exec_loop\<close>, \<open>svc_loop\<close>, \<open>walk\<close>, \<open>init_loop\<close>. For each
  it is proved when it returns and when it does not. The other loops are structural or have
  a measure (\<open>events_loop\<close>). No fuel is used. A connection's input is a list with the data of
  each read, the pool's steps are lists of any length; buffers have the sizes of the source
  (65536 and 8192 bytes for a request, 4096 for a path, 2720 for inotify events).

  \<^bold>\<open>Interfaces.\<close> \<open>part_store\<close> (the multimap a packet is parsed into), \<open>case_folding\<close>,
  \<open>reply_session\<close> with its extensions \<open>login_session\<close> and \<open>bounded_session\<close> (what one call of a
  protocol handler promises, and what follows for whole sessions), \<open>connection_server\<close> (what the
  operations of a handler and a pool owe to a server, and the invariants of a server that
  follow) with \<open>answering_server\<close> (and what its handlers answer) and \<open>session_server\<close> (and that
  they say nothing else), \<open>plugin_registry\<close>, and
  \<open>configured_service\<close> (what every service owes to its command line and configuration) and
  \<open>interleaving\<close> (assertions at the control points of threads, and a rank). Each is
  interpreted on the definitions of the program, the three of a server on the dispatcher's and on
  the authentication manager's.

  \<^bold>\<open>What is shown.\<close>

  \<^item> Dispatcher protocol (Proc_Properties, Proc_Typing): sessions refine an abstract protocol
    machine (Proc_Spec); a login is acknowledged once; the handler keeps its shape and no reply
    exceeds 63 bytes; the parser's verdict on every packet and its round trip; what happens to
    a request in two reads; memory safety up to a read that fills the buffer; the connection
    thread ends only on a control character; the idle timer reads through a null pointer.
  \<^item> The dispatcher as a whole (Dispatcher), in all interleavings, under each strategy: every
    connection has one owner, who finds it alive; none is forgotten unless ACE fails to
    register it; every step is, for each connection, steps of an abstract session of its own,
    so replies are never lost, repeated or mixed up; every sequence of requests on a waiting
    connection can be served with the replies of the protocol machine. What can crash the
    server is listed: a read that fills the buffer and an idle timer that expires, and no open
    connection survives the timer. The service as it is shipped gives every connection a
    thread; this theory follows it from \<open>init\<close> to the replies. The same for the authentication
    manager (Auth_Server).
  \<^item> Authentication manager (Auth_Properties): its copies agree with the dispatcher's, its
    sessions follow a specification of their own, in which every login succeeds silently.
  \<^item> Pool (Pool_Properties): the books the guards keep, in all interleavings; \<open>stop\<close> drains the
    pool and terminates if the workers have started, and loses a worker if they have not.
  \<^item> Daemonizing and pid file (Daemonize_Properties): when \<open>daemonize_\<close> hangs, what a successful
    one has done, that a pid file is written only under the lock.
  \<^item> Facade (Facade_Properties, Coordinator_Properties): a calculus of outcomes (\<open>ensures\<close>,
    \<open>leads\<close>, \<open>raises\<close>) whose rules follow the code's sequencing; the default procedure never
    returns; no runtime error leaves the coordinator, and after it the object can be destroyed;
    which exceptions reach main, which of them it catches and how the process then ends; what
    is logged of a configuration file.
  \<^item> Kernel (Kernel_Properties): the outcome of loading a plugin for every library; registered
    plugins point into open libraries; which plugin serves a broker; the singleton. Under the
    facade (Kernel_Life): the coordinator has exactly one kernel, the one its facade refers to,
    and none is left when main or the signal handler has ended the process. Under threads
    (Kernel_Threads): calls of \<open>make_kernel\<close> at once make one kernel, end, and leave what calls
    in a row leave; a concurrent \<open>unmake_kernel\<close> destroys that.
  \<^item> Services: the shutdown of the coordinator, the configuration of all four services, the
    dispatcher's service from \<open>init\<close> to \<open>fini\<close>, the file watcher's loop over a kernel's buffer.
  \<^item> Policy daemon: its forking is that of \<open>daemonize_\<close>; a failed fork is not noticed.

  \<^bold>\<open>Not modelled.\<close> ACE, the C library, the dynamic loader, CPython and the time library the
  policies include are not in the repository: they are arguments. json.h and json.hpp are
  vendored and no modelled operation calls them. Atomics are steps that are indivisible in the
  pool; the singleton's mutex is modelled with the threads that contend for it, in sequentially
  consistent memory; the kernel's other operations take no lock and run in one thread.
  Heap exhaustion is modelled only where the code looks at it. Log lines are kept where they
  are the function's result (the log file, standard error of the kernel, the watcher) and left
  out where ACE's logger only reports. Accessors that return or set one attribute are the
  fields of the records. Constants of the platform are those of Linux on x86-64.

  \<^bold>\<open>Bounds of the composition.\<close> A server's operations are indivisible steps of the
  composed relation, as far as two of them never work on one connection, which is what the
  invariant of owners shows; inside the pool the steps are smaller. The library's answers about
  the kernel are tied to its model by the predicate \<open>linked\<close>; the services the coordinator
  loads and the servers they start are joined to it by their configuration only.
\<close>

section \<open>The dispatcher as the service starts it\<close>

text \<open>
  The service object creates its acceptor for a thread per connection; an acceptor made without
  that argument uses the pool. Theory Dispatcher covers both, and here the first is followed
  from the service's configuration.
\<close>

definition client_input :: "string list \<Rightarrow> nat \<Rightarrow> string list" where
  \<comment> \<open>one request for each round of the connection's thread, then ctrl-c\<close>
  "client_input reqs i = (if i < length reqs then [reqs ! i] else [[CTRL_C]])"

lemma client_input_list:
  "map (client_input reqs) [0..<0 + Suc (length reqs)] = map (\<lambda>req. [req]) reqs @ [[[CTRL_C]]]"
  by (rule nth_equalityI) (auto simp: client_input_def nth_append simp del: upt_Suc)

lemma serve_append: "serve p is s = Inr (False, t) \<Longrightarrow> serve p (is @ js) s = serve p js t"
  by (induction "is" arbitrary: s) (auto split: sum.splits prod.splits if_splits)

lemma control_ends: "process BUFSIZ [[CTRL_C]] h = Inr (-1, h\<lparr>m_proc_packet_error := peNoPacketError\<rparr>)"
proof -
  have "read_c_buffer (recv_into (replicate BUFSIZ NUL) [CTRL_C]) = Some [CTRL_C]"
    by (rule read_fresh) (simp_all add: no_nul_def BUFSIZ_def char_defs)
  then show ?thesis by (simp add: process_def str_find_def search_single Let_def npos_def)
qed

lemma svc_client:
  assumes "proc_inv h" "\<forall>req \<in> set reqs. plain req \<and> LF \<in> set req \<and> length req < BUFSIZ"
  shows "\<exists>h'. svc (client_input reqs) h = Some (Inr (-1, h')) \<and>
    proc_sent h' = proc_sent h @ fst (spec_run reqs (spec_of h))"
proof -
  obtain g where g: "serve (process BUFSIZ) (map (\<lambda>req. [req]) reqs) h = Inr (False, g)"
    "proc_sent g = proc_sent h @ fst (spec_run reqs (spec_of h))"
    using serve_whole_requests [OF assms buffer_ok_used(2)] by blast
  let ?h = "g\<lparr>m_proc_packet_error := peNoPacketError\<rparr>"
  have "serve (process BUFSIZ) (map (client_input reqs) [0..<0 + Suc (length reqs)]) h = Inr (True, ?h)"
    unfolding client_input_list serve_append [OF g(1)] by (simp add: control_ends)
  from svc_loop_serve [OF this] g(2) show ?thesis by (auto simp: svc_def proc_sent_def)
qed

lemma service_strategy:
  assumes "fst (proc_service_init e stack argv new_proc_service) = Return 0"
  shows "acc_concurrency (m_acceptor (snd (proc_service_init e stack argv new_proc_service))) =
    thread_per_connection"
  using assms
  by (auto simp: proc_service_init_def new_proc_service_def new_proc_acceptor_def
      proc_acceptor_open_def acceptor_log_def Let_def split: option.splits run.splits if_splits)

text \<open>
  C7. From the configured service to the replies of a connection. Once \<open>init\<close> of the
  dispatcher's service has succeeded, a connection its acceptor opens gets a thread of its own
  and is never registered with the reactor. Its thread answers every request that arrives, each
  in one read, with the reply of the abstract protocol machine, after the greeting, and
  returns when the client sends ctrl-c. In the server as a whole nothing is ever registered with
  the reactor, every connection that is not closed has its thread if registrations and
  threads do not fail, and from every reachable state such a connection's requests can be
  answered.
\<close>
theorem service_answers:
  assumes "fst (proc_service_init e stack argv new_proc_service) = Return 0"
    and "strategy = acc_concurrency (m_acceptor (snd (proc_service_init e stack argv new_proc_service)))"
    and "open_handler env (Some strategy) (new_proc_handler host self mx) = Inr (r, h)"
    and "\<forall>req \<in> set reqs. plain req \<and> LF \<in> set req \<and> length req < BUFSIZ"
  shows "Activate_Detached \<in> set (ops h) \<and> peer_op.Register_Handler \<notin> set (ops h) \<and>
    (\<exists>h'. svc (client_input reqs) h = Some (Inr (-1, h')) \<and>
       proc_sent h' = greeting (c_str host) # fst (spec_run reqs ([], False))) \<and>
    (\<forall>c s. policy c = strategy \<and> system_reach proc_server c new_system s \<longrightarrow> reading s = {} \<and>
       (\<forall>i g. benign c \<and> crashed s = None \<and> conns s i = Some g \<and> \<not> proc_handler.deleted g \<longrightarrow>
          i \<in> threads s \<and>
          (\<exists>t g'. system_reach proc_server c s t \<and> conns t i = Some g' \<and>
             proc_sent g' = proc_sent g @ fst (spec_run reqs (spec_of g)))))"
proof -
  have s: "strategy = thread_per_connection" using service_strategy [OF assms(1)] assms(2) by simp
  have o: "proc_inv h" "\<not> authenticated h" "proc_sent h = [greeting (c_str host)]"
    using open_handler_cases [OF assms(3)] by simp_all
  have h: "m_strToken h = []" "Activate_Detached \<in> set (ops h)" "peer_op.Register_Handler \<notin> set (ops h)"
    using assms(3) unfolding s
    by (auto simp: open_handler_def output_boiler_plate_def map_commands_def silent_def
        new_proc_handler_def stream_def output_prompt_def flush_stream_to_connector_def
        concurrency_def log_op_def Let_def)
  then have "spec_of h = ([], False)" using o by (simp add: spec_of_def)
  with svc_client [OF o(1) assms(4)] h o(3) have "\<exists>h'. svc (client_input reqs) h = Some (Inr (-1, h')) \<and>
      proc_sent h' = greeting (c_str host) # fst (spec_run reqs ([], False))" by simp
  moreover have "i \<in> threads s \<and> (\<exists>t g'. system_reach proc_server c s t \<and> conns t i = Some g' \<and>
      proc_sent g' = proc_sent g @ fst (spec_run reqs (spec_of g)))"
    if "system_reach proc_server c new_system s" "policy c = thread_per_connection" "benign c"
      "crashed s = None" "conns s i = Some g" "\<not> proc_handler.deleted g" for c s i g
    using thread_strategy(2) [OF that(1-3,5,6)] thread_strategy_answers [OF that assms(4)] by (rule conjI)
  ultimately show ?thesis unfolding s using h thread_strategy(1) by blast
qed

theorem service_answers_witness:
  "\<exists>h h'. open_handler sample_env (Some thread_per_connection) (new_proc_handler ''node1'' 1 60) =
      Inr (0, h) \<and> svc (client_input [login_line]) h = Some (Inr (-1, h')) \<and>
    proc_sent h' = greeting (c_str ''node1'') # fst (spec_run [login_line] ([], False))"
proof -
  let ?s = "proc_service_init demo_service (replicate MAXPATHLEN NUL) [''d.ini''] new_proc_service"
  have i: "fst ?s = Return 0"
  proof -
    have "integer_value demo_service p a b = Some 70000" "base_open demo_service q \<noteq> -1" for p a b q
      by (simp_all add: demo_service_def)
    then show ?thesis
      by (simp add: proc_service_init_def demo_config proc_acceptor_open_def acceptor_log_def
          new_proc_service_def new_proc_acceptor_def Let_def)
  qed
  have c: "thread_per_connection = acc_concurrency (m_acceptor (snd ?s))"
    using service_strategy [OF i] by simp
  obtain h where o: "open_handler sample_env (Some thread_per_connection) (new_proc_handler ''node1'' 1 60) =
      Inr (0, h)"
    by (simp add: open_handler_def concurrency_def sample_env_def Let_def new_proc_handler_def
        output_boiler_plate_def map_commands_def silent_def stream_def output_prompt_def
        flush_stream_to_connector_def)
  have "\<forall>req \<in> set [login_line]. plain req \<and> LF \<in> set req \<and> length req < BUFSIZ"
    using login_line_ok by (simp add: login_line_def crlf_def BUFSIZ_def)
  from service_answers [OF i c o this] o show ?thesis by blast
qed

end
